(* ===== verification/Sdbus_Prelude.thy ===== *)
theory Sdbus_Prelude
  imports Main
begin

text \<open>
  Shared vocabulary of the development: computations that pass a state and may stop with
  an error that keeps the state reached so far. This is how a C function of the program
  behaves under Janet: \<open>janet_panic\<close> leaves every enclosing C function by \<open>longjmp\<close>,
  and all the memory written up to that point stays written.

  The collections: \<open>comp_simps\<close> rewrites a computation applied to a state, \<open>comp_elims\<close>
  holds the inversions of a finished computation, and \<open>frame_simps\<close> collects the facts of
  the form "this operation leaves that part of the state alone".
\<close>

named_theorems comp_simps \<open>evaluation of a computation at a state\<close>
named_theorems comp_elims \<open>what a computation that returned must have done\<close>
named_theorems frame_simps \<open>parts of the state an operation leaves alone\<close>

type_synonym ('s, 'e, 'a) comp = "'s \<Rightarrow> ('e + 'a) \<times> 's"

definition ret :: "'a \<Rightarrow> ('s, 'e, 'a) comp" where
  "ret x = (\<lambda>s. (Inr x, s))"

definition raise :: "'e \<Rightarrow> ('s, 'e, 'a) comp" where
  "raise e = (\<lambda>s. (Inl e, s))"

definition bnd :: "('s, 'e, 'a) comp \<Rightarrow> ('a \<Rightarrow> ('s, 'e, 'b) comp) \<Rightarrow> ('s, 'e, 'b) comp" where
  "bnd m f = (\<lambda>s. case m s of
      (Inl e, s') \<Rightarrow> (Inl e, s')
    | (Inr x, s') \<Rightarrow> f x s')"

definition gets :: "('s \<Rightarrow> 'a) \<Rightarrow> ('s, 'e, 'a) comp" where
  "gets f = (\<lambda>s. (Inr (f s), s))"

definition upd :: "('s \<Rightarrow> 's) \<Rightarrow> ('s, 'e, unit) comp" where
  "upd f = (\<lambda>s. (Inr (), f s))"

definition lift :: "'e + 'a \<Rightarrow> ('s, 'e, 'a) comp" where
  "lift r = (\<lambda>s. (r, s))"

text \<open>A check that panics when its condition fails.\<close>

definition guard :: "bool \<Rightarrow> 'e \<Rightarrow> ('s, 'e, unit) comp" where
  "guard b e = (if b then ret () else raise e)"

lemma ret_apply [simp, comp_simps]: "ret x s = (Inr x, s)"
  by (simp add: ret_def)

lemma raise_apply [simp, comp_simps]: "raise e s = (Inl e, s)"
  by (simp add: raise_def)

lemma gets_apply [simp, comp_simps]: "gets f s = (Inr (f s), s)"
  by (simp add: gets_def)

lemma upd_apply [simp, comp_simps]: "upd f s = (Inr (), f s)"
  by (simp add: upd_def)

lemma lift_apply [simp, comp_simps]: "lift r s = (r, s)"
  by (simp add: lift_def)

lemma guard_apply [simp, comp_simps]:
  "guard b e s = (if b then (Inr (), s) else (Inl e, s))"
  by (simp add: guard_def)

lemma bnd_apply [comp_simps]:
  "bnd m f s = (case m s of (Inl e, s') \<Rightarrow> (Inl e, s') | (Inr x, s') \<Rightarrow> f x s')"
  by (simp add: bnd_def)

lemma bnd_Inr: "m s = (Inr x, s') \<Longrightarrow> bnd m f s = f x s'"
  by (simp add: bnd_def)

lemma bnd_Inl: "m s = (Inl e, s') \<Longrightarrow> bnd m f s = (Inl e, s')"
  by (simp add: bnd_def)

lemma bnd_ret [simp]: "bnd (ret x) f = f x"
  by (simp add: bnd_def ret_def)

lemma bnd_raise [simp]: "bnd (raise e) f = raise e"
  by (simp add: bnd_def raise_def)

lemma bnd_lift [simp]: "bnd (lift r) f = (case r of Inl e \<Rightarrow> raise e | Inr x \<Rightarrow> f x)"
  by (simp add: bnd_def lift_def raise_def split: sum.split)

lemma bnd_assoc: "bnd (bnd m f) g = bnd m (\<lambda>x. bnd (f x) g)"
  by (rule ext) (simp add: bnd_def split: prod.split sum.split)

lemma bnd_gets [comp_simps]: "bnd (gets f) g s = g (f s) s"
  by (simp add: bnd_def gets_def)

lemma bnd_upd [comp_simps]: "bnd (upd f) g s = g () (f s)"
  by (simp add: bnd_def upd_def)

lemma bnd_guard [comp_simps]:
  "bnd (guard b e) g s = (if b then g () s else (Inl e, s))"
  by (simp add: bnd_def)

lemma bnd_guard_holds [simp]: "b \<Longrightarrow> bnd (guard b e) f = f ()"
  by (simp add: guard_def)

lemma bnd_guard_fails [simp]: "\<not> b \<Longrightarrow> bnd (guard b e) f = raise e"
  by (simp add: guard_def)

lemma bnd_eq_Inr [comp_elims]:
  "bnd m f s = (Inr y, s'') \<longleftrightarrow> (\<exists>x s'. m s = (Inr x, s') \<and> f x s' = (Inr y, s''))"
  by (auto simp: bnd_def split: prod.splits sum.splits)

lemma bnd_eq_Inl [comp_elims]:
  "bnd m f s = (Inl e, s'') \<longleftrightarrow>
     m s = (Inl e, s'') \<or> (\<exists>x s'. m s = (Inr x, s') \<and> f x s' = (Inl e, s''))"
  by (auto simp: bnd_def split: prod.splits sum.splits)

text \<open>
  The congruence for recursion through \<open>bnd\<close>: a recursive call in the continuation may use
  that the first computation returned the value it is given.
\<close>

definition returns :: "('s, 'e, 'a) comp \<Rightarrow> 'a \<Rightarrow> bool" where
  "returns m x \<longleftrightarrow> (\<exists>s t. m s = (Inr x, t))"

lemma bnd_cong [fundef_cong]:
  assumes "m = m'" and "\<And>x. returns m' x \<Longrightarrow> f x = g x"
  shows "bnd m f = bnd m' g"
  using assms by (fastforce simp: bnd_def returns_def split: prod.splits sum.splits)

text \<open>A predicate on the state that a computation keeps, whether it returns or panics.\<close>

definition keeps :: "('s \<Rightarrow> bool) \<Rightarrow> ('s, 'e, 'a) comp \<Rightarrow> bool" where
  "keeps P m \<longleftrightarrow> (\<forall>s. P s \<longrightarrow> P (snd (m s)))"

lemma keepsI: "(\<And>s. P s \<Longrightarrow> P (snd (m s))) \<Longrightarrow> keeps P m"
  by (simp add: keeps_def)

lemma keepsD: "keeps P m \<Longrightarrow> P s \<Longrightarrow> P (snd (m s))"
  by (simp add: keeps_def)

lemma keeps_ret [simp, intro]: "keeps P (ret x)"
  by (simp add: keeps_def)

lemma keeps_raise [simp, intro]: "keeps P (raise e)"
  by (simp add: keeps_def)

lemma keeps_gets [simp, intro]: "keeps P (gets f)"
  by (simp add: keeps_def)

lemma keeps_lift [simp, intro]: "keeps P (lift r)"
  by (simp add: keeps_def)

lemma keeps_guard [simp, intro]: "keeps P (guard b e)"
  by (simp add: keeps_def)

lemma keeps_bnd [intro]:
  assumes "keeps P m" and "\<And>x. keeps P (f x)"
  shows "keeps P (bnd m f)"
proof (rule keepsI)
  fix s assume "P s"
  then have "P (snd (m s))" using assms(1) by (rule keepsD[rotated])
  then show "P (snd (bnd m f s))"
    using assms(2) by (auto simp: bnd_def keeps_def split: prod.splits sum.splits)
qed

lemma keeps_if [intro]:
  "(b \<Longrightarrow> keeps P m) \<Longrightarrow> (\<not> b \<Longrightarrow> keeps P m') \<Longrightarrow> keeps P (if b then m else m')"
  by simp

end
