(* ===== verification/Janet_Model.thy ===== *)
theory Janet_Model
  imports Sdbus_Prelude Complex_Main "HOL-Library.Word"
begin

text \<open>
  The values the program receives from Janet and hands back to it, and the panics it
  raises. A Janet value is the tagged union of \<open>janet.h\<close>: one constructor per type tag
  that the program tests for. Indexed values and dictionaries carry their elements in
  iteration order (the order in which \<open>janet_dictionary_next\<close> returns the entries of a hash
  table is the order of the list), which is all the program reads of them during a call;
  a value is a finite tree. Abstract values are addresses of cells of the program state.
\<close>

text \<open>
  A C \<open>double\<close>: a finite value is the rational number it denotes. Comparison with a NaN is
  false, as in C.
\<close>

datatype double = Fin rat | PosInf | NegInf | NaN

instantiation double :: ord
begin

fun less_eq_double :: "double \<Rightarrow> double \<Rightarrow> bool" where
  "less_eq_double (Fin p) (Fin q) \<longleftrightarrow> p \<le> q"
| "less_eq_double NaN _ \<longleftrightarrow> False"
| "less_eq_double _ NaN \<longleftrightarrow> False"
| "less_eq_double NegInf _ \<longleftrightarrow> True"
| "less_eq_double _ PosInf \<longleftrightarrow> True"
| "less_eq_double _ _ \<longleftrightarrow> False"

definition less_double :: "double \<Rightarrow> double \<Rightarrow> bool" where
  "less_double x y \<longleftrightarrow> x \<le> y \<and> \<not> y \<le> x"

instance ..

end

lemma le_Fin [simp]: "x \<le> Fin q \<longleftrightarrow> (case x of Fin p \<Rightarrow> p \<le> q | NegInf \<Rightarrow> True | _ \<Rightarrow> False)"
  by (cases x) simp_all

lemma Fin_le [simp]: "Fin q \<le> x \<longleftrightarrow> (case x of Fin p \<Rightarrow> q \<le> p | PosInf \<Rightarrow> True | _ \<Rightarrow> False)"
  by (cases x) simp_all

datatype abs_kind = AbsBus | AbsMessage | AbsSlot | AbsChannel | AbsFile | AbsStream | AbsOther

datatype janet =
    JNil
  | JBoolean bool
  | JNumber double
  | JString string
  | JSymbol string
  | JKeyword string
  | JBuffer string
  | JArray "janet list"
  | JTuple "janet list"
  | JTable "(janet \<times> janet) list"
  | JStruct "(janet \<times> janet) list"
  | JFunction nat
  | JS64 "64 word"
  | JU64 "64 word"
  | JAbstract abs_kind nat
  | JOther nat

text \<open>The views of \<open>janet.h\<close>: which types are bytes, indexed or dictionaries.\<close>

fun bytes_view :: "janet \<Rightarrow> string option" where
  "bytes_view (JString s) = Some s"
| "bytes_view (JSymbol s) = Some s"
| "bytes_view (JKeyword s) = Some s"
| "bytes_view (JBuffer s) = Some s"
| "bytes_view _ = None"

fun indexed_view :: "janet \<Rightarrow> janet list option" where
  "indexed_view (JArray xs) = Some xs"
| "indexed_view (JTuple xs) = Some xs"
| "indexed_view _ = None"

fun dictionary_view :: "janet \<Rightarrow> (janet \<times> janet) list option" where
  "dictionary_view (JTable kvs) = Some kvs"
| "dictionary_view (JStruct kvs) = Some kvs"
| "dictionary_view _ = None"

lemma indexed_view_size:
  "indexed_view v = Some xs \<Longrightarrow> size_list size xs < size v"
  by (cases v) auto

lemma dictionary_view_size:
  "dictionary_view v = Some kvs \<Longrightarrow> size_list (size_prod size size) kvs < size v"
  by (cases v) auto

lemma indexed_view_item: "indexed_view v = Some xs \<Longrightarrow> x \<in> set xs \<Longrightarrow> size x < size v"
  using indexed_view_size [of v xs] size_list_estimation' [of x xs "size x" size] by simp

lemma dictionary_view_item:
  assumes "dictionary_view v = Some kvs" and "(k, x) \<in> set kvs"
  shows "size k < size v" "size x < size v"
  using dictionary_view_size [OF assms(1)]
    size_list_estimation' [OF assms(2), of "size_prod size size (k, x)" "size_prod size size"]
  by simp_all

text \<open>
  What can go wrong. \<open>Panicf\<close> is a Janet panic with the format string and the arguments that
  the source passes to \<open>janet_panicf\<close>. The other constructors are not panics:
  \<open>OutOfMemory\<close> ends the process, \<open>UB\<close> marks the point where C gives no meaning to the code
  (an invalid read or write, a cast of a value out of range, a read of the wrong member of
  a union or of an uninitialised variable, a variable argument of the wrong type), and \<open>NoFuel\<close> marks a run longer than the given bound.
\<close>

datatype ub =
    NullDeref | UseAfterFree | OutOfBounds | BadCast | WrongMember | Uninitialised | BadVararg

datatype parg = PChar char | PStr string | PVal janet | PInt int

datatype panic =
    Panicf string "parg list"
  | OutOfMemory
  | UB ub
  | NoFuel

definition is_ub :: "panic \<Rightarrow> bool" where
  "is_ub e = (case e of UB _ \<Rightarrow> True | _ \<Rightarrow> False)"

lemma is_ub_simps [simp]:
  "is_ub (UB u)" "\<not> is_ub (Panicf f xs)" "\<not> is_ub OutOfMemory" "\<not> is_ub NoFuel"
  by (simp_all add: is_ub_def)

text \<open>
  C conversions of a double to an integer type discard the fraction, and are undefined when
  the result does not fit the type (C11 6.3.1.4).
\<close>

definition trunc_double :: "rat \<Rightarrow> int" where
  "trunc_double q = (if q < 0 then \<lceil>q\<rceil> else \<lfloor>q\<rfloor>)"

definition cast_double :: "int \<Rightarrow> int \<Rightarrow> double \<Rightarrow> panic + int" where
  "cast_double lo hi d = (case d of
      Fin q \<Rightarrow> (let i = trunc_double q in if lo \<le> i \<and> i \<le> hi then Inr i else Inl (UB BadCast))
    | _ \<Rightarrow> Inl (UB BadCast))"

lemma trunc_double_of_int [simp]: "trunc_double (of_int i) = i"
  by (simp add: trunc_double_def)

lemma cast_double_of_int [simp]:
  "lo \<le> i \<Longrightarrow> i \<le> hi \<Longrightarrow> cast_double lo hi (Fin (of_int i)) = Inr i"
  by (simp add: cast_double_def)

end
