(* ===== verification/World.thy ===== *)
theory World
  imports Janet_Model
begin

text \<open>
  The state of the program and the outside world it is given. \<open>common.h\<close> declares the
  structures shared by the components; this theory holds them, the memory they live in, and
  the record \<open>env\<close> of the functions that are not under \<open>src/\<close> (libsystemd, Janet and the
  kernel), which every definition that calls them takes as its argument \<open>e\<close>. The state of
  that outside world is the type variable \<open>'w\<close>: the model never looks inside it.
\<close>

text \<open>
  Pointers. \<open>None\<close> is \<open>NULL\<close>, \<open>Some a\<close> the object at address \<open>a\<close>; a \<open>const char *\<close> is a
  block and an offset in it.
\<close>

type_synonym ptr = "nat option"
type_synonym cptr = "(nat \<times> nat) option"

definition NUL :: char where
  "NUL = CHR 0x00"

subsection \<open>Structures\<close>

datatype pending_kind = Call | Match

record pending =
  pslot :: ptr
  pchan :: nat
  pnext :: ptr
  pprev :: ptr
  pkind :: pending_kind

record conn =
  cbus :: ptr
  cbus_stream :: ptr
  ctimer :: ptr
  cqueue :: ptr

record async_state =
  as_conn :: nat
  as_pending :: nat

datatype vtable_entry =
    VStart
  | VMethod string string string "64 word"
  | VProperty string string "64 word"
  | VWritable string string bool "64 word"
  | VSignal string string "64 word"
  | VEnd

record export_state =
  xs_vtable :: "vtable_entry option list"
  xs_bus :: nat
  xs_members :: janet

record errctx =
  ec_sig0 :: cptr
  ec_sig1 :: cptr
  ec_len0 :: nat
  ec_len1 :: nat
  ec_depth :: nat
  ec_argc :: nat

datatype stream_flag =
  StreamClosed | StreamReadable | StreamWritable | StreamSocket | StreamUdpserver
  | StreamNotCloseable

record jstream =
  s_handle :: int
  s_flags :: "stream_flag set"

record jfile =
  f_file :: ptr
  f_closed :: bool
  f_fileno :: int

text \<open>
  The effects a caller of the library can see, in the order the program has them: what it
  puts on channels and what it asks of Janet's event loop and garbage collector.
\<close>

datatype event =
    Give nat janet
  | Schedule nat janet
  | Cancel nat janet
  | AsyncEnd nat
  | AsyncStart nat nat
  | EdgeTriggered nat

text \<open>
  The functions of the program that libsystemd and Janet call back. A destroy callback runs
  when a slot loses its last reference, a handler when \<open>sd_bus_process\<close> dispatches a
  message, a listener when the event loop or \<open>janet_stream_close\<close> reports an event to a fiber:
  it is the \<open>JanetEVCallback\<close> that the fiber was started with.
\<close>

datatype destroy_cb = DestroyCall nat | DestroyExport nat

datatype handler =
    MessageHandler nat ptr
  | SignalInstall nat ptr
  | MethodHandler nat ptr
  | PropertyGetter nat string string string ptr
  | PropertySetter nat string string string ptr
  | PropertySetterSignal nat string string string ptr
  | Destroy destroy_cb

datatype async_event = EvRead | EvWrite | EvHup | EvErr | EvClose | EvOther

datatype ev_callback = TimerCallback | BusCallback

datatype listener = Listener nat async_event

text \<open>\<open>sd_bus_error\<close>: the name and, if set, the message.\<close>

type_synonym bus_error = "string \<times> string option"

text \<open>
  An external function that calls back into the program: it runs in the outside world until
  it is done or invokes a callback, and goes on from the callback's return value (the C
  \<open>int\<close> and the error it set, if any) and the outside world the callback left.
\<close>

datatype ('c, 'r, 'w) action =
    Done 'r 'w
  | Invoke 'c 'w "int \<times> bus_error option \<Rightarrow> 'w \<Rightarrow> ('c, 'r, 'w) action"

subsection \<open>The state\<close>

record 'w world =
  ext :: 'w
  errctx :: errctx
  scratch :: "nat \<Rightarrow> string option"
  pend :: "nat \<Rightarrow> pending option"
  asyncs :: "nat \<Rightarrow> async_state option"
  exports :: "nat \<Rightarrow> export_state option"
  conns :: "nat \<Rightarrow> conn"
  msgs :: "nat \<Rightarrow> ptr"
  slots :: "nat \<Rightarrow> ptr"
  streams :: "nat \<Rightarrow> jstream"
  files :: "nat \<Rightarrow> jfile"
  fibers :: "nat \<Rightarrow> nat"
  callbacks :: "nat \<Rightarrow> ev_callback"
  roots :: "janet list"
  next_id :: nat
  trace :: "event list"

type_synonym ('w, 'a) prog = "('w world, panic, 'a) comp"

subsection \<open>The outside world\<close>

text \<open>
  What \<open>sd_bus_message_append\<close> and its relatives are asked to append. The constructor of a
  basic argument is the C type that the format character selects.
\<close>

datatype basic =
    Byte "8 word"
  | Boolean bool
  | Int16 "16 word"
  | Uint16 "16 word"
  | Int32 "32 word"
  | Uint32 "32 word"
  | Int64 "64 word"
  | Uint64 "64 word"
  | Double double
  | Str char string
  | Fd int

datatype wcall =
    OpenContainer char string
  | CloseContainer
  | AppendBasic basic
  | AppendArray char string

fun wcall_name :: "wcall \<Rightarrow> string" where
  "wcall_name (OpenContainer _ _) = ''sd_bus_message_open_container''"
| "wcall_name CloseContainer = ''sd_bus_message_close_container''"
| "wcall_name (AppendBasic (Str _ _)) = ''sd_bus_message_append_basic''"
| "wcall_name (AppendBasic _) = ''sd_bus_message_append''"
| "wcall_name (AppendArray _ _) = ''sd_bus_message_append_array''"

text \<open>
  The external functions used by the modelled components. A function that has an effect
  takes the outside world and returns the C return value and the new outside world; the
  \<open>int\<close> is negative on failure, as in the sd-bus API. \<open>None\<close> is a null string.
\<close>

record 'w env =
  sd_write :: "ptr \<Rightarrow> wcall \<Rightarrow> 'w \<Rightarrow> int \<times> 'w"
  sd_peek_type :: "ptr \<Rightarrow> 'w \<Rightarrow> int \<times> char \<times> string"
  sd_enter_container :: "ptr \<Rightarrow> char \<Rightarrow> string \<Rightarrow> 'w \<Rightarrow> int \<times> 'w"
  sd_exit_container :: "ptr \<Rightarrow> 'w \<Rightarrow> int \<times> 'w"
  sd_read_b :: "ptr \<Rightarrow> 'w \<Rightarrow> (int \<times> bool) \<times> 'w"
  sd_read_y :: "ptr \<Rightarrow> 'w \<Rightarrow> (int \<times> 8 word) \<times> 'w"
  sd_read_n :: "ptr \<Rightarrow> 'w \<Rightarrow> (int \<times> 16 word) \<times> 'w"
  sd_read_q :: "ptr \<Rightarrow> 'w \<Rightarrow> (int \<times> 16 word) \<times> 'w"
  sd_read_i :: "ptr \<Rightarrow> 'w \<Rightarrow> (int \<times> 32 word) \<times> 'w"
  sd_read_u :: "ptr \<Rightarrow> 'w \<Rightarrow> (int \<times> 32 word) \<times> 'w"
  sd_read_x :: "ptr \<Rightarrow> 'w \<Rightarrow> (int \<times> 64 word) \<times> 'w"
  sd_read_t :: "ptr \<Rightarrow> 'w \<Rightarrow> (int \<times> 64 word) \<times> 'w"
  sd_read_d :: "ptr \<Rightarrow> 'w \<Rightarrow> (int \<times> double) \<times> 'w"
  sd_read_str :: "ptr \<Rightarrow> char \<Rightarrow> 'w \<Rightarrow> (int \<times> string) \<times> 'w"
  sd_read_h :: "ptr \<Rightarrow> 'w \<Rightarrow> (int \<times> int) \<times> 'w"
  sd_rewind :: "ptr \<Rightarrow> 'w \<Rightarrow> int \<times> 'w"
  sd_seal :: "ptr \<Rightarrow> 'w \<Rightarrow> int \<times> 'w"
  sd_send :: "ptr \<Rightarrow> 'w \<Rightarrow> int \<times> 'w"
  sd_dump :: "ptr \<Rightarrow> ptr \<Rightarrow> 'w \<Rightarrow> int \<times> 'w"
  sd_message_ref :: "ptr \<Rightarrow> 'w \<Rightarrow> ptr \<times> 'w"
  sd_message_unref :: "ptr \<Rightarrow> 'w \<Rightarrow> unit \<times> 'w"
  sd_new_method_call ::
    "ptr \<Rightarrow> string \<Rightarrow> string \<Rightarrow> string \<Rightarrow> string \<Rightarrow> 'w \<Rightarrow> (int \<times> ptr) \<times> 'w"
  sd_new_method_return :: "ptr \<Rightarrow> 'w \<Rightarrow> (int \<times> ptr) \<times> 'w"
  sd_new_method_error :: "ptr \<Rightarrow> bus_error \<Rightarrow> 'w \<Rightarrow> (int \<times> ptr) \<times> 'w"
  sd_new_signal :: "ptr \<Rightarrow> string \<Rightarrow> string \<Rightarrow> string \<Rightarrow> 'w \<Rightarrow> (int \<times> ptr) \<times> 'w"
  sd_new :: "ptr \<Rightarrow> 8 word \<Rightarrow> 'w \<Rightarrow> (int \<times> ptr) \<times> 'w"
  sd_copy :: "ptr \<Rightarrow> ptr \<Rightarrow> 'w \<Rightarrow> int \<times> 'w"
  sd_get_destination :: "ptr \<Rightarrow> 'w \<Rightarrow> string option"
  sd_get_path :: "ptr \<Rightarrow> 'w \<Rightarrow> string option"
  sd_get_interface :: "ptr \<Rightarrow> 'w \<Rightarrow> string option"
  sd_get_member :: "ptr \<Rightarrow> 'w \<Rightarrow> string option"
  sd_get_sender :: "ptr \<Rightarrow> 'w \<Rightarrow> string option"
  sd_get_type :: "ptr \<Rightarrow> 'w \<Rightarrow> 8 word"
  sd_get_error :: "ptr \<Rightarrow> 'w \<Rightarrow> bus_error option"
  sd_is_method_error :: "ptr \<Rightarrow> 'w \<Rightarrow> int"
  sd_call_async :: "ptr \<Rightarrow> ptr \<Rightarrow> nat \<Rightarrow> 64 word \<Rightarrow> 'w \<Rightarrow> (int \<times> ptr) \<times> 'w"
  sd_add_match_async :: "ptr \<Rightarrow> string \<Rightarrow> nat \<Rightarrow> 'w \<Rightarrow> (int \<times> ptr) \<times> 'w"
  sd_add_object_vtable ::
    "ptr \<Rightarrow> string \<Rightarrow> string \<Rightarrow> vtable_entry option list \<Rightarrow> nat \<Rightarrow> 'w \<Rightarrow> (int \<times> ptr) \<times> 'w"
  sd_slot_set_floating :: "ptr \<Rightarrow> bool \<Rightarrow> 'w \<Rightarrow> int \<times> 'w"
  sd_slot_set_destroy :: "ptr \<Rightarrow> destroy_cb \<Rightarrow> 'w \<Rightarrow> int \<times> 'w"
  sd_slot_unref :: "ptr \<Rightarrow> 'w \<Rightarrow> (destroy_cb, unit, 'w) action"
  sd_process :: "ptr \<Rightarrow> 'w \<Rightarrow> (handler, int, 'w) action"
  sd_get_events :: "ptr \<Rightarrow> 'w \<Rightarrow> int \<times> 'w"
  sd_get_timeout :: "ptr \<Rightarrow> 'w \<Rightarrow> (int \<times> 64 word) \<times> 'w"
  sd_get_fd :: "ptr \<Rightarrow> 'w \<Rightarrow> int \<times> 'w"
  sd_open_user :: "'w \<Rightarrow> (int \<times> ptr) \<times> 'w"
  sd_open_system :: "'w \<Rightarrow> (int \<times> ptr) \<times> 'w"
  sd_open_user_machine :: "string \<Rightarrow> 'w \<Rightarrow> (int \<times> ptr) \<times> 'w"
  sd_open_system_machine :: "string \<Rightarrow> 'w \<Rightarrow> (int \<times> ptr) \<times> 'w"
  sd_open_system_remote :: "string \<Rightarrow> 'w \<Rightarrow> (int \<times> ptr) \<times> 'w"
  sd_flush_close_unref :: "ptr \<Rightarrow> 'w \<Rightarrow> (destroy_cb, unit, 'w) action"
  sd_is_open :: "ptr \<Rightarrow> 'w \<Rightarrow> int \<times> 'w"
  sd_get_unique_name :: "ptr \<Rightarrow> 'w \<Rightarrow> (int \<times> string) \<times> 'w"
  sd_set_allow_interactive :: "ptr \<Rightarrow> bool \<Rightarrow> 'w \<Rightarrow> int \<times> 'w"
  sd_list_names :: "ptr \<Rightarrow> 'w \<Rightarrow> (int \<times> string list) \<times> 'w"
  sd_emit_properties_changed :: "ptr \<Rightarrow> string \<Rightarrow> string \<Rightarrow> string \<Rightarrow> 'w \<Rightarrow> int \<times> 'w"
  sd_error_setf :: "bus_error \<Rightarrow> int"
  sd_object_path_is_valid :: "string \<Rightarrow> int"
  sd_interface_name_is_valid :: "string \<Rightarrow> int"
  sd_member_name_is_valid :: "string \<Rightarrow> int"
  sys_malloc :: "'w \<Rightarrow> bool \<times> 'w"
  sys_errno :: "'w \<Rightarrow> int"
  sys_fcntl_dupfd_cloexec :: "int \<Rightarrow> 'w \<Rightarrow> int \<times> 'w"
  sys_fcntl_getfl :: "int \<Rightarrow> 'w \<Rightarrow> int \<times> 'w"
  sys_getsockopt_type :: "int \<Rightarrow> 'w \<Rightarrow> (int \<times> int) \<times> 'w"
  sys_timerfd_create :: "'w \<Rightarrow> int \<times> 'w"
  sys_timerfd_settime :: "int \<Rightarrow> 64 word \<Rightarrow> 64 word \<Rightarrow> 'w \<Rightarrow> int \<times> 'w"
  sys_read_timer :: "int \<Rightarrow> 'w \<Rightarrow> int \<times> 'w"
  janet_int_types :: bool
  janet_checkint16 :: "janet \<Rightarrow> bool"
  janet_checkuint16 :: "janet \<Rightarrow> bool"
  janet_checkint :: "janet \<Rightarrow> bool"
  janet_checkuint :: "janet \<Rightarrow> bool"
  janet_checkint64 :: "janet \<Rightarrow> bool"
  janet_checkuint64 :: "janet \<Rightarrow> bool"
  janet_unwrap_s64 :: "janet \<Rightarrow> panic + 64 word"
  janet_unwrap_u64 :: "janet \<Rightarrow> panic + 64 word"
  janet_getcbytes :: "janet \<Rightarrow> panic + string"
  janet_table_put :: "(janet \<times> janet) list \<Rightarrow> janet \<Rightarrow> janet \<Rightarrow> (janet \<times> janet) list"
  janet_to_string :: "janet \<Rightarrow> string"
  janet_pcall :: "nat \<Rightarrow> janet list \<Rightarrow> 'w world \<Rightarrow> (bool \<times> janet) \<times> 'w world"
  janet_stream_close :: "nat \<Rightarrow> 'w \<Rightarrow> (listener, unit, 'w) action"
  janet_channel_closed :: "nat \<Rightarrow> 'w \<Rightarrow> bool"

text \<open>Running an external function on the outside world, and \<open>check_sd_bus_return\<close> of
  \<open>main.c\<close>: a negative return value panics, any other is passed on.\<close>

definition extern :: "('w \<Rightarrow> 'a \<times> 'w) \<Rightarrow> ('w, 'a) prog" where
  "extern f = (\<lambda>s. case f (ext s) of (x, w) \<Rightarrow> (Inr x, s\<lparr>ext := w\<rparr>))"

definition check_sd_bus_return :: "string \<Rightarrow> int \<Rightarrow> ('w, int) prog" where
  "check_sd_bus_return fn rv =
     (if rv < 0 then raise (Panicf ''failed to call %s: %s'' [PStr fn, PInt (- rv)])
      else ret rv)"

definition CALL_SD_BUS_FUNC :: "string \<Rightarrow> ('w \<Rightarrow> int \<times> 'w) \<Rightarrow> ('w, int) prog" where
  "CALL_SD_BUS_FUNC fn f = bnd (extern f) (check_sd_bus_return fn)"

text \<open>Running an external function that calls back, with the program's callbacks \<open>h\<close>.\<close>

primrec run_action ::
  "('c \<Rightarrow> ('w, int \<times> bus_error option) prog) \<Rightarrow> ('c, 'r, 'w) action \<Rightarrow> ('w, 'r) prog" where
  "run_action h (Done r w) = bnd (upd (\<lambda>s. s\<lparr>ext := w\<rparr>)) (\<lambda>_. ret r)"
| "run_action h (Invoke c w k) =
     bnd (upd (\<lambda>s. s\<lparr>ext := w\<rparr>)) (\<lambda>_.
     bnd (h c) (\<lambda>x.
     bnd (gets ext) (\<lambda>w'.
     run_action h (k x w'))))"

definition calls_back ::
  "('c \<Rightarrow> ('w, int \<times> bus_error option) prog) \<Rightarrow> ('w \<Rightarrow> ('c, 'r, 'w) action) \<Rightarrow> ('w, 'r) prog" where
  "calls_back h f = bnd (gets ext) (\<lambda>w. run_action h (f w))"

text \<open>An external function whose result comes with an output parameter.\<close>

definition CALL_SD_BUS_OUT :: "string \<Rightarrow> ('w \<Rightarrow> (int \<times> 'a) \<times> 'w) \<Rightarrow> ('w, 'a) prog" where
  "CALL_SD_BUS_OUT fn f =
     bnd (extern f) (\<lambda>(rv, x). bnd (check_sd_bus_return fn rv) (\<lambda>_. ret x))"

lemma extern_apply [simp, comp_simps]:
  "extern f s = (Inr (fst (f (ext s))), s\<lparr>ext := snd (f (ext s))\<rparr>)"
  by (simp add: extern_def split: prod.split)

lemma check_sd_bus_return_apply [simp, comp_simps]:
  "check_sd_bus_return fn rv s =
     (if rv < 0 then (Inl (Panicf ''failed to call %s: %s'' [PStr fn, PInt (- rv)]), s)
      else (Inr rv, s))"
  by (simp add: check_sd_bus_return_def)

lemma CALL_SD_BUS_FUNC_apply [simp, comp_simps]:
  "CALL_SD_BUS_FUNC fn f s =
     (let (rv, w) = f (ext s) in
      (if rv < 0 then Inl (Panicf ''failed to call %s: %s'' [PStr fn, PInt (- rv)]) else Inr rv,
       s\<lparr>ext := w\<rparr>))"
  by (simp add: CALL_SD_BUS_FUNC_def bnd_apply Let_def split: prod.split)

text \<open>The address of a new object (addresses are never used twice).\<close>

definition fresh :: "('w, nat) prog" where
  "fresh = (\<lambda>s. (Inr (next_id s), s\<lparr>next_id := Suc (next_id s)\<rparr>))"

text \<open>Memory from \<open>malloc\<close>, and a new slot object for Janet, whose pointer is null.\<close>

definition janet_malloc :: "'w env \<Rightarrow> ('w, unit) prog" where
  "janet_malloc e = bnd (extern (sys_malloc e)) (\<lambda>ok. guard ok OutOfMemory)"

definition new_slot :: "('w, nat) prog" where
  "new_slot = bnd fresh (\<lambda>a. bnd (upd (\<lambda>s. s\<lparr>slots := (slots s)(a := None)\<rparr>)) (\<lambda>_. ret a))"

text \<open>
  \<open>janet_channel_give\<close> puts a value on a channel, and panics if the channel was closed. What the
  program asks of channels and of the event loop is recorded in \<open>trace\<close>.
\<close>

definition emit :: "event \<Rightarrow> ('w, unit) prog" where
  "emit ev = upd (\<lambda>s. s\<lparr>trace := trace s @ [ev]\<rparr>)"

definition janet_channel_give :: "'w env \<Rightarrow> nat \<Rightarrow> janet \<Rightarrow> ('w, unit) prog" where
  "janet_channel_give e ch x =
     bnd (gets (\<lambda>s. janet_channel_closed e ch (ext s))) (\<lambda>closed.
     bnd (guard (\<not> closed) (Panicf ''cannot write to closed channel'' [])) (\<lambda>_.
     emit (Give ch x)))"

lemma emit_apply [simp, comp_simps]: "emit ev s = (Inr (), s\<lparr>trace := trace s @ [ev]\<rparr>)"
  by (simp add: emit_def)

lemma janet_channel_give_apply [simp, comp_simps]:
  "janet_channel_give e ch x s =
     (if janet_channel_closed e ch (ext s) then (Inl (Panicf ''cannot write to closed channel'' []), s)
      else (Inr (), s\<lparr>trace := trace s @ [Give ch x]\<rparr>))"
  by (simp add: janet_channel_give_def bnd_apply)

text \<open>\<open>janet_cstringv\<close> reads the string at its argument, which must not be null.\<close>

definition janet_cstringv :: "string option \<Rightarrow> ('w, janet) prog" where
  "janet_cstringv c = (case c of
      None \<Rightarrow> raise (UB NullDeref)
    | Some str \<Rightarrow> ret (JString str))"

subsection \<open>Memory\<close>

text \<open>
  Scratch memory and Janet's strings. A block is the array of its bytes; every access is
  checked against the liveness and the size of the block. Addresses are never used twice,
  so a freed address stays invalid.
\<close>

definition alloc_bytes :: "string \<Rightarrow> ('w, cptr) prog" where
  "alloc_bytes bytes = (\<lambda>s. (Inr (Some (next_id s, 0)),
      s\<lparr>scratch := (scratch s)(next_id s \<mapsto> bytes), next_id := Suc (next_id s)\<rparr>))"

text \<open>A string owned by Janet (it is reachable from the caller's arguments, so it is never
  freed during a call), \<open>janet_scalloc n sizeof(char)\<close> and \<open>janet_sfree\<close>.\<close>

definition janet_cstring :: "string \<Rightarrow> ('w, cptr) prog" where
  "janet_cstring str = alloc_bytes (str @ [NUL])"

definition janet_scalloc :: "nat \<Rightarrow> ('w, cptr) prog" where
  "janet_scalloc n = alloc_bytes (replicate n NUL)"

definition janet_sfree :: "cptr \<Rightarrow> ('w, unit) prog" where
  "janet_sfree c = (case c of
      None \<Rightarrow> ret ()
    | Some (b, i) \<Rightarrow> upd (\<lambda>s. s\<lparr>scratch := (scratch s)(b := None)\<rparr>))"

definition cadd :: "cptr \<Rightarrow> nat \<Rightarrow> cptr" where
  "cadd c n = map_option (\<lambda>(b, i). (b, i + n)) c"

text \<open>The live block a pointer points into, with the offset.\<close>

definition deref :: "cptr \<Rightarrow> ('w, nat \<times> nat \<times> string) prog" where
  "deref c = (\<lambda>s. case c of
      None \<Rightarrow> (Inl (UB NullDeref), s)
    | Some (b, i) \<Rightarrow> (case scratch s b of
          None \<Rightarrow> (Inl (UB UseAfterFree), s)
        | Some bytes \<Rightarrow> (Inr (b, i, bytes), s)))"

text \<open>Reading one byte, \<open>n\<close> bytes as \<open>memcpy\<close> reads them, and the string up to its NUL.\<close>

definition ld :: "cptr \<Rightarrow> ('w, char) prog" where
  "ld c = bnd (deref c) (\<lambda>(b, i, bytes).
     bnd (guard (i < length bytes) (UB OutOfBounds)) (\<lambda>_.
     ret (bytes ! i)))"

definition ld_bytes :: "cptr \<Rightarrow> nat \<Rightarrow> ('w, string) prog" where
  "ld_bytes c n = bnd (deref c) (\<lambda>(b, i, bytes).
     bnd (guard (i + n \<le> length bytes) (UB OutOfBounds)) (\<lambda>_.
     ret (take n (drop i bytes))))"

definition ld_str :: "cptr \<Rightarrow> ('w, string) prog" where
  "ld_str c = bnd (deref c) (\<lambda>(b, i, bytes).
     bnd (guard (NUL \<in> set (drop i bytes)) (UB OutOfBounds)) (\<lambda>_.
     ret (takeWhile (\<lambda>ch. ch \<noteq> NUL) (drop i bytes))))"

text \<open>Writing bytes, and the two copies of \<open>string.h\<close> the program uses.\<close>

definition st_bytes :: "cptr \<Rightarrow> string \<Rightarrow> ('w, unit) prog" where
  "st_bytes c new = bnd (deref c) (\<lambda>(b, i, bytes).
     bnd (guard (i + length new \<le> length bytes) (UB OutOfBounds)) (\<lambda>_.
     upd (\<lambda>s. s\<lparr>scratch := (scratch s)(b \<mapsto>
            take i bytes @ new @ drop (i + length new) bytes)\<rparr>)))"

definition memcpy :: "cptr \<Rightarrow> cptr \<Rightarrow> nat \<Rightarrow> ('w, unit) prog" where
  "memcpy dst src n = bnd (ld_bytes src n) (st_bytes dst)"

definition memmove :: "cptr \<Rightarrow> cptr \<Rightarrow> nat \<Rightarrow> ('w, unit) prog" where
  "memmove dst src n = bnd (ld_bytes src n) (st_bytes dst)"

lemma cadd_simps [simp]: "cadd (Some (b, i)) n = Some (b, i + n)" "cadd None n = None"
  by (simp_all add: cadd_def)

lemma cadd_cadd [simp]: "cadd (cadd c m) n = cadd c (m + n)"
  by (cases c) auto

lemma cadd_0 [simp]: "cadd c 0 = c"
  by (cases c) auto

text \<open>\<open>points_to s c str\<close>: the pointer \<open>c\<close> is valid in state \<open>s\<close> and the C string at it is \<open>str\<close>.\<close>

definition points_to :: "'w world \<Rightarrow> cptr \<Rightarrow> string \<Rightarrow> bool" where
  "points_to s c str \<longleftrightarrow>
     (\<exists>b i bytes rest. c = Some (b, i) \<and> scratch s b = Some bytes \<and> i \<le> length bytes
        \<and> drop i bytes = str @ NUL # rest \<and> NUL \<notin> set str \<and> b < next_id s)"

lemma points_toE:
  assumes "points_to s c str"
  obtains b pre rest where "c = Some (b, length pre)"
    "scratch s b = Some (pre @ str @ NUL # rest)" "NUL \<notin> set str" "b < next_id s"
proof -
  from assms obtain b i bytes rest
    where *: "c = Some (b, i)" "scratch s b = Some bytes" "i \<le> length bytes"
      "drop i bytes = str @ NUL # rest" "NUL \<notin> set str" "b < next_id s"
    by (auto simp: points_to_def)
  show ?thesis
  proof (rule that [of b "take i bytes" rest])
    show "scratch s b = Some (take i bytes @ str @ NUL # rest)"
      using * by (metis append_take_drop_id)
  qed (use * in auto)
qed

lemma points_toI:
  "scratch s b = Some (pre @ str @ NUL # rest) \<Longrightarrow> NUL \<notin> set str \<Longrightarrow> b < next_id s
     \<Longrightarrow> points_to s (Some (b, length pre)) str"
  by (auto simp: points_to_def)

lemma points_to_ld:
  "points_to s c str \<Longrightarrow> ld c s = (Inr (case str of [] \<Rightarrow> NUL | x # _ \<Rightarrow> x), s)"
  by (erule points_toE) (auto simp: ld_def deref_def bnd_apply nth_append split: list.split)

lemma points_to_ld_Nil: "points_to s c [] \<Longrightarrow> ld c s = (Inr NUL, s)"
  by (simp add: points_to_ld)

lemma points_to_ld_Cons: "points_to s c (x # xs) \<Longrightarrow> ld c s = (Inr x, s)"
  by (simp add: points_to_ld)

lemma points_to_ld_str: "points_to s c str \<Longrightarrow> ld_str c s = (Inr str, s)"
  by (erule points_toE) (auto simp: ld_str_def deref_def bnd_apply takeWhile_append)

lemma points_to_ld_bytes:
  "points_to s c str \<Longrightarrow> n \<le> length str \<Longrightarrow> ld_bytes c n s = (Inr (take n str), s)"
  by (erule points_toE) (simp add: ld_bytes_def deref_def bnd_apply)

lemma points_to_ld_bytes_Suc:
  "points_to s c str \<Longrightarrow> n = Suc (length str) \<Longrightarrow> ld_bytes c n s = (Inr (str @ [NUL]), s)"
  by (erule points_toE) (simp add: ld_bytes_def deref_def bnd_apply)

lemma points_to_cadd:
  assumes "points_to s c (xs @ ys)"
  shows "points_to s (cadd c (length xs)) ys"
  using assms
proof (rule points_toE)
  fix b pre rest
  assume *: "c = Some (b, length pre)" "scratch s b = Some (pre @ (xs @ ys) @ NUL # rest)"
    "NUL \<notin> set (xs @ ys)" "b < next_id s"
  then show ?thesis
    using points_toI [of s b "pre @ xs" ys rest] by simp
qed

lemma points_to_cadd1: "points_to s c (x # ys) \<Longrightarrow> points_to s (cadd c (Suc 0)) ys"
  using points_to_cadd [of s c "[x]" ys] by simp

lemma points_to_drop:
  "points_to s c str \<Longrightarrow> n \<le> length str \<Longrightarrow> points_to s (cadd c n) (drop n str)"
  using points_to_cadd [of s c "take n str" "drop n str"] by simp

lemma points_to_NUL: "points_to s c str \<Longrightarrow> NUL \<notin> set str"
  by (auto simp: points_to_def)

text \<open>A pointer that can be read is one that points to a string, if the block ends in a NUL.\<close>

lemma ld_same_state: "ld c s = (r, t) \<Longrightarrow> t = s"
  by (auto simp: ld_def deref_def bnd_apply split: option.splits prod.splits if_splits)

lemma ld_str_same_state: "ld_str c s = (r, t) \<Longrightarrow> t = s"
  by (auto simp: ld_str_def deref_def bnd_apply split: option.splits prod.splits if_splits)

lemma ld_bytes_same_state: "ld_bytes c n s = (r, t) \<Longrightarrow> t = s"
  by (auto simp: ld_bytes_def deref_def bnd_apply split: option.splits prod.splits if_splits)

text \<open>
  \<open>mem_ext s t\<close>: memory has only grown from \<open>s\<close> to \<open>t\<close> as far as blocks allocated before
  \<open>s\<close> are concerned, so every pointer valid in \<open>s\<close> is valid in \<open>t\<close>.
\<close>

definition mem_ext :: "'w world \<Rightarrow> 'w world \<Rightarrow> bool" where
  "mem_ext s t \<longleftrightarrow>
     next_id s \<le> next_id t \<and> (\<forall>b < next_id s. scratch t b = scratch s b)"

lemma mem_ext_refl [simp, intro]: "mem_ext s s"
  by (simp add: mem_ext_def)

lemma mem_ext_trans [trans]: "mem_ext s t \<Longrightarrow> mem_ext t u \<Longrightarrow> mem_ext s u"
  by (auto simp: mem_ext_def)

lemma mem_ext_points_to: "mem_ext s t \<Longrightarrow> points_to s c str \<Longrightarrow> points_to t c str"
  by (auto simp: mem_ext_def points_to_def)

lemma janet_cstring_points_to:
  "janet_cstring str s = (Inr c, t) \<Longrightarrow> NUL \<notin> set str \<Longrightarrow> points_to t c str \<and> mem_ext s t"
  by (auto simp: janet_cstring_def alloc_bytes_def points_to_def mem_ext_def)

lemma keeps_extern [intro]: "(\<And>s w. P s \<Longrightarrow> P (s\<lparr>ext := w\<rparr>)) \<Longrightarrow> keeps P (extern f)"
  by (simp add: keeps_def)

lemma keeps_CALL [intro]:
  "(\<And>s w. P s \<Longrightarrow> P (s\<lparr>ext := w\<rparr>)) \<Longrightarrow> keeps P (CALL_SD_BUS_FUNC fn f)"
  by (simp add: keeps_def Let_def split: prod.split)

subsection \<open>Undefined behaviour\<close>

text \<open>A computation that does not run into undefined behaviour from \<open>s\<close>.\<close>

definition clean_at :: "('w, 'a) prog \<Rightarrow> 'w world \<Rightarrow> bool" where
  "clean_at m s \<longleftrightarrow> (\<forall>p t. m s = (Inl p, t) \<longrightarrow> \<not> is_ub p)"

lemma clean_bnd:
  "clean_at m s \<Longrightarrow> (\<And>x t. m s = (Inr x, t) \<Longrightarrow> clean_at (f x) t) \<Longrightarrow> clean_at (bnd m f) s"
  by (fastforce simp: clean_at_def bnd_eq_Inl)

lemma clean_ret [simp]: "clean_at (ret x) s"
  by (simp add: clean_at_def)

lemma clean_gets [simp]: "clean_at (gets f) s"
  by (simp add: clean_at_def)

lemma clean_upd [simp]: "clean_at (upd f) s"
  by (simp add: clean_at_def)

lemma clean_raise [simp]: "clean_at (raise p) s \<longleftrightarrow> \<not> is_ub p"
  by (simp add: clean_at_def)

lemma clean_guard [simp]: "\<not> is_ub p \<Longrightarrow> clean_at (guard b p) s"
  by (simp add: clean_at_def)

lemma clean_lift: "(\<And>p. r = Inl p \<Longrightarrow> \<not> is_ub p) \<Longrightarrow> clean_at (lift r) s"
  by (simp add: clean_at_def)

lemma clean_sfree [simp]: "clean_at (janet_sfree c) s"
  by (cases c) (auto simp: janet_sfree_def)

lemma clean_Inr: "m s = (Inr x, t) \<Longrightarrow> clean_at (f x) t \<Longrightarrow> clean_at (bnd m f) s"
  by (rule clean_bnd) (simp_all add: clean_at_def)

lemma clean_extern [simp]: "clean_at (extern f) s"
  by (simp add: clean_at_def)

lemma clean_check [simp]: "clean_at (check_sd_bus_return fn rv) s"
  by (simp add: clean_at_def)

lemma clean_CALL [simp]: "clean_at (CALL_SD_BUS_FUNC fn f) s"
  by (simp add: clean_at_def Let_def split: prod.split)

lemma clean_CALL_OUT [simp]: "clean_at (CALL_SD_BUS_OUT fn f) s"
  by (auto simp: CALL_SD_BUS_OUT_def intro!: clean_bnd split: prod.split)

lemma clean_fresh [simp]: "clean_at fresh s"
  by (simp add: clean_at_def fresh_def)

lemma clean_if [intro]: "(b \<Longrightarrow> clean_at m s) \<Longrightarrow> (\<not> b \<Longrightarrow> clean_at m' s) \<Longrightarrow> clean_at (if b then m else m') s"
  by simp

end
