(* ===== verification/Unwrap.thy ===== *)
theory Unwrap
  imports World
begin

unbundle bit_operations_syntax

text \<open>
  \<open>src/unwrap.c\<close>: the error context that remembers which argument and which D-Bus type are
  being appended, and the getters that convert a Janet value to a C value or panic with a
  message built from that context. The context holds pointers into signature strings that
  belong to others, so formatting a message reads memory that must still be live.
\<close>

subsection \<open>The error context\<close>

definition ERRCTX_MAX_SIG_LEN :: nat where
  "ERRCTX_MAX_SIG_LEN = 16"

definition empty_errctx :: errctx where
  "empty_errctx = \<lparr>ec_sig0 = None, ec_sig1 = None, ec_len0 = 0, ec_len1 = 0,
     ec_depth = 0, ec_argc = 0\<rparr>"

definition dbus_errctx_reset :: "('w, unit) prog" where
  "dbus_errctx_reset = upd (\<lambda>s. s\<lparr>errctx := empty_errctx\<rparr>)"

definition dbus_errctx_inc :: "('w, unit) prog" where
  "dbus_errctx_inc = upd (\<lambda>s. s\<lparr>errctx := (errctx s)\<lparr>ec_argc := Suc (ec_argc (errctx s))\<rparr>\<rparr>)"

definition errctx_set :: "cptr \<Rightarrow> nat \<Rightarrow> errctx \<Rightarrow> errctx" where
  "errctx_set sig len g =
     (let g' = g\<lparr>ec_depth := Suc (ec_depth g)\<rparr> in
      if ec_depth g' > 1 then g'\<lparr>ec_sig1 := sig, ec_len1 := len\<rparr>
      else g'\<lparr>ec_sig0 := sig, ec_len0 := len\<rparr>)"

definition dbus_errctx_set :: "cptr \<Rightarrow> nat \<Rightarrow> ('w, unit) prog" where
  "dbus_errctx_set sig len = upd (\<lambda>s. s\<lparr>errctx := errctx_set sig len (errctx s)\<rparr>)"

definition dbus_errctx_exit :: "('w, unit) prog" where
  "dbus_errctx_exit = upd (\<lambda>s. s\<lparr>errctx := (let g = errctx s in
      if ec_depth g > 0 then g\<lparr>ec_depth := ec_depth g - 1\<rparr> else g)\<rparr>)"

text \<open>Writing into a local array of characters, checked against its size.\<close>

definition buf_write :: "string \<Rightarrow> nat \<Rightarrow> string \<Rightarrow> panic + string" where
  "buf_write buf i new =
     (if i + length new \<le> length buf
      then Inr (take i buf @ new @ drop (i + length new) buf)
      else Inl (UB OutOfBounds))"

definition c_string :: "string \<Rightarrow> string" where
  "c_string buf = takeWhile (\<lambda>ch. ch \<noteq> NUL) buf"

definition format_errctx :: "string \<Rightarrow> cptr \<Rightarrow> nat \<Rightarrow> ('w, string option) prog" where
  "format_errctx buf sig len =
     (if len = 0 \<or> sig = None then ret None
      else
        let n = (if len > ERRCTX_MAX_SIG_LEN - 4 then ERRCTX_MAX_SIG_LEN - 4 else len) in
        bnd (ld_bytes sig n) (\<lambda>bytes.
        bnd (lift (buf_write buf 0 bytes)) (\<lambda>buf.
        bnd (lift (buf_write buf n [NUL])) (\<lambda>buf.
        bnd (if n < len
             then bnd (lift (buf_write buf n (replicate 3 (CHR ''.'')))) (\<lambda>buf.
                  lift (buf_write buf (ERRCTX_MAX_SIG_LEN - 1) [NUL]))
             else ret buf) (\<lambda>buf.
        ret (Some buf))))))"

text \<open>The local buffers start uninitialised; any contents will do.\<close>

definition uninit_buf :: string where
  "uninit_buf = replicate ERRCTX_MAX_SIG_LEN (CHR ''?'')"

definition dbus_type_error :: "string \<Rightarrow> janet \<Rightarrow> ('w, 'a) prog" where
  "dbus_type_error janet_type x =
     bnd (gets errctx) (\<lambda>g.
     bnd (format_errctx uninit_buf (ec_sig0 g) (ec_len0 g)) (\<lambda>sigbuf.
     case sigbuf of
       None \<Rightarrow> raise (Panicf ''bad argument #%d (missing D-Bus type), expected %s, got %v''
                 [PInt (int (ec_argc g)), PStr janet_type, PVal x])
     | Some sig \<Rightarrow>
        bnd (if ec_depth g > 1 then format_errctx uninit_buf (ec_sig1 g) (ec_len1 g)
             else ret None) (\<lambda>childbuf.
        case childbuf of
          Some child \<Rightarrow> raise (Panicf
             ''bad argument #%d to D-Bus type '%s' (within '%s'), expected %s, got %v''
             [PInt (int (ec_argc g)), PStr (c_string child), PStr (c_string sig),
              PStr janet_type, PVal x])
        | None \<Rightarrow> raise (Panicf
             ''bad argument #%d to D-Bus type '%s', expected %s, got %v''
             [PInt (int (ec_argc g)), PStr (c_string sig), PStr janet_type, PVal x]))))"

subsection \<open>Getters\<close>

text \<open>\<open>janet_unwrap_number\<close> reads the number member of the union.\<close>

fun unwrap_number :: "janet \<Rightarrow> panic + double" where
  "unwrap_number (JNumber d) = Inr d"
| "unwrap_number _ = Inl (UB WrongMember)"

definition cast_number :: "int \<Rightarrow> int \<Rightarrow> janet \<Rightarrow> ('w, int) prog" where
  "cast_number lo hi x = bnd (lift (unwrap_number x)) (\<lambda>d. lift (cast_double lo hi d))"

definition getboolean :: "janet \<Rightarrow> ('w, bool) prog" where
  "getboolean x = (case x of
      JBoolean b \<Rightarrow> ret b
    | _ \<Rightarrow> dbus_type_error ''boolean'' x)"

definition getnumber :: "janet \<Rightarrow> ('w, double) prog" where
  "getnumber x = (case x of
      JNumber d \<Rightarrow> ret d
    | _ \<Rightarrow> dbus_type_error ''number'' x)"

definition getcstring :: "'w env \<Rightarrow> janet \<Rightarrow> ('w, string) prog" where
  "getcstring e x = (case x of
      JString _ \<Rightarrow> lift (janet_getcbytes e x)
    | _ \<Rightarrow> dbus_type_error ''string'' x)"

text \<open>\<open>n >= 0 && n <= UINT8_MAX && n == (uint8_t) n\<close>: the cast is evaluated only in range.\<close>

definition checkuint8 :: "janet \<Rightarrow> bool" where
  "checkuint8 x = (case x of
      JNumber n \<Rightarrow> n \<ge> Fin 0 \<and> n \<le> Fin 255
        \<and> (case cast_double 0 255 n of Inr i \<Rightarrow> n = Fin (of_int i) | Inl _ \<Rightarrow> False)
    | _ \<Rightarrow> False)"

definition getuinteger8 :: "janet \<Rightarrow> ('w, 8 word) prog" where
  "getuinteger8 x =
     bnd (if \<not> checkuint8 x then dbus_type_error ''8 bit unsigned integer'' x else ret ()) (\<lambda>_.
     bnd (cast_number 0 255 x) (\<lambda>i. ret (word_of_int i)))"

definition getinteger16 :: "'w env \<Rightarrow> janet \<Rightarrow> ('w, 16 word) prog" where
  "getinteger16 e x =
     bnd (if \<not> janet_checkint16 e x then dbus_type_error ''16 bit signed integer'' x
          else ret ()) (\<lambda>_.
     bnd (cast_number (- 32768) 32767 x) (\<lambda>i. ret (word_of_int i)))"

definition getuinteger16 :: "'w env \<Rightarrow> janet \<Rightarrow> ('w, 16 word) prog" where
  "getuinteger16 e x =
     bnd (if \<not> janet_checkuint16 e x then dbus_type_error ''16 bit unsigned integer'' x
          else ret ()) (\<lambda>_.
     bnd (cast_number 0 65535 x) (\<lambda>i. ret (word_of_int i)))"

definition getinteger :: "'w env \<Rightarrow> janet \<Rightarrow> ('w, 32 word) prog" where
  "getinteger e x =
     bnd (if \<not> janet_checkint e x then dbus_type_error ''32 bit signed integer'' x
          else ret ()) (\<lambda>_.
     bnd (cast_number (- 2147483648) 2147483647 x) (\<lambda>i. ret (word_of_int i)))"

definition getuinteger :: "'w env \<Rightarrow> janet \<Rightarrow> ('w, 32 word) prog" where
  "getuinteger e x =
     bnd (if \<not> janet_checkuint e x then dbus_type_error ''32 bit unsigned integer'' x
          else ret ()) (\<lambda>_.
     bnd (cast_number 0 4294967295 x) (\<lambda>i. ret (word_of_int i)))"

definition getinteger64 :: "'w env \<Rightarrow> janet \<Rightarrow> ('w, 64 word) prog" where
  "getinteger64 e x =
     (if janet_int_types e then lift (janet_unwrap_s64 e x)
      else
        bnd (if \<not> janet_checkint64 e x then dbus_type_error ''64 bit signed integer'' x
             else ret ()) (\<lambda>_.
        bnd (cast_number (- 9223372036854775808) 9223372036854775807 x) (\<lambda>i.
        ret (word_of_int i))))"

definition getuinteger64 :: "'w env \<Rightarrow> janet \<Rightarrow> ('w, 64 word) prog" where
  "getuinteger64 e x =
     (if janet_int_types e then lift (janet_unwrap_u64 e x)
      else
        bnd (if \<not> janet_checkuint64 e x then dbus_type_error ''64 bit unsigned'' x
             else ret ()) (\<lambda>_.
        bnd (cast_number 0 18446744073709551615 x) (\<lambda>i. ret (word_of_int i))))"

definition gettuple :: "janet \<Rightarrow> ('w, janet list) prog" where
  "gettuple x = (case x of
      JTuple xs \<Rightarrow> ret xs
    | _ \<Rightarrow> dbus_type_error ''tuple'' x)"

definition getbytes :: "janet \<Rightarrow> ('w, string) prog" where
  "getbytes x = (case bytes_view x of
      Some s \<Rightarrow> ret s
    | None \<Rightarrow> dbus_type_error ''bytes'' x)"

definition getindexed :: "janet \<Rightarrow> ('w, janet list) prog" where
  "getindexed x = (case indexed_view x of
      Some xs \<Rightarrow> ret xs
    | None \<Rightarrow> dbus_type_error ''indexed'' x)"

definition getdictionary :: "janet \<Rightarrow> ('w, (janet \<times> janet) list) prog" where
  "getdictionary x = (case dictionary_view x of
      Some kvs \<Rightarrow> ret kvs
    | None \<Rightarrow> dbus_type_error ''dictionary'' x)"

definition getfd :: "janet \<Rightarrow> ('w, int) prog" where
  "getfd x = (case x of
      JAbstract AbsFile a \<Rightarrow>
        bnd (gets (\<lambda>s. files s a)) (\<lambda>f.
        bnd (guard (\<not> f_closed f)
               (Panicf ''bad argument to D-Bus type 'h', file is closed'' [])) (\<lambda>_.
        ret (f_fileno f)))
    | JAbstract AbsStream a \<Rightarrow>
        bnd (gets (\<lambda>s. streams s a)) (\<lambda>st.
        bnd (guard (StreamClosed \<notin> s_flags st)
               (Panicf ''bad argument to D-Bus type 'h', stream is closed'' [])) (\<lambda>_.
        ret (s_handle st)))
    | _ \<Rightarrow> dbus_type_error '':core/file or :core/stream'' x)"

end
