(* ===== verification/Signature.thy ===== *)
theory Signature
  imports World
begin

text \<open>
  The signature scanners of \<open>src/message.c\<close> (\<open>is_basic_type\<close>, \<open>match\<close>, \<open>find_subtype\<close>) and the
  grammar of D-Bus type signatures they are meant for. The scanners work on the string at a
  pointer; \<open>sig_of\<close> prints a type of the grammar, and the lemmas say what the scanners
  return on printed types followed by anything, and that they never leave the string.
\<close>

subsection \<open>The scanners\<close>

text \<open>\<open>strchr(s, c)\<close> also finds the terminating NUL of \<open>s\<close>.\<close>

definition basic_codes :: string where
  "basic_codes = ''ybnqiuxtdsogh''"

definition is_basic_type :: "char \<Rightarrow> bool" where
  "is_basic_type ch \<longleftrightarrow> ch \<in> set (basic_codes @ [NUL])"

fun match_loop :: "string \<Rightarrow> char \<Rightarrow> char \<Rightarrow> int \<Rightarrow> nat \<Rightarrow> panic + nat" where
  "match_loop [] op cl depth len = Inl (Panicf ''Unmatched %c in signature'' [PChar op])"
| "match_loop (ch # str) op cl depth len =
     (let depth = (if ch = op then depth + 1 else if ch = cl then depth - 1 else depth);
          len = len + 1
      in if depth = 0 then Inr len else match_loop str op cl depth len)"

fun match :: "string \<Rightarrow> char \<Rightarrow> char \<Rightarrow> panic + nat" where
  "match [] op cl = Inl (UB OutOfBounds)"
| "match (_ # str) op cl = match_loop str op cl 1 0"

fun find_subtype :: "string \<Rightarrow> panic + nat" where
  "find_subtype [] = Inl (Panicf ''Missing array signature'' [])"
| "find_subtype (ch # rest) =
     (if ch = CHR ''a'' then map_sum id Suc (find_subtype rest)
      else if ch = CHR ''{'' then match (ch # rest) (CHR ''{'') (CHR ''}'')
      else if ch = CHR ''('' then match (ch # rest) (CHR ''('') (CHR '')'')
      else Inr 0)"

subsection \<open>The grammar\<close>

datatype ty =
    TBasic char
  | TVariant
  | TStruct "ty list"
  | TArray ty
  | TDict char ty

fun sig_of :: "ty \<Rightarrow> string" where
  "sig_of (TBasic c) = [c]"
| "sig_of TVariant = ''v''"
| "sig_of (TStruct ts) = CHR ''('' # concat (map sig_of ts) @ [CHR '')'']"
| "sig_of (TArray t) = CHR ''a'' # sig_of t"
| "sig_of (TDict k t) = CHR ''a'' # CHR ''{'' # k # sig_of t @ [CHR ''}'']"

abbreviation sigs_of :: "ty list \<Rightarrow> string" where
  "sigs_of ts \<equiv> concat (map sig_of ts)"

fun wf_ty :: "ty \<Rightarrow> bool" where
  "wf_ty (TBasic c) \<longleftrightarrow> c \<in> set basic_codes"
| "wf_ty TVariant \<longleftrightarrow> True"
| "wf_ty (TStruct ts) \<longleftrightarrow> ts \<noteq> [] \<and> (\<forall>t \<in> set ts. wf_ty t)"
| "wf_ty (TArray t) \<longleftrightarrow> wf_ty t"
| "wf_ty (TDict k t) \<longleftrightarrow> k \<in> set basic_codes \<and> wf_ty t"

lemma basic_codes_iff:
  "c \<in> set basic_codes \<longleftrightarrow>
     c \<in> {CHR ''y'', CHR ''b'', CHR ''n'', CHR ''q'', CHR ''i'', CHR ''u'', CHR ''x'', CHR ''t'',
          CHR ''d'', CHR ''s'', CHR ''o'', CHR ''g'', CHR ''h''}"
  by (simp add: basic_codes_def)

lemma basic_codes_not:
  "c \<in> set basic_codes \<Longrightarrow>
     c \<noteq> CHR ''('' \<and> c \<noteq> CHR '')'' \<and> c \<noteq> CHR ''{'' \<and> c \<noteq> CHR ''}'' \<and> c \<noteq> CHR ''a''
       \<and> c \<noteq> CHR ''v'' \<and> c \<noteq> NUL"
  by (auto simp: basic_codes_def NUL_def)

lemma is_basic_type_code [simp]: "c \<in> set basic_codes \<Longrightarrow> is_basic_type c"
  by (simp add: is_basic_type_def)

lemma is_basic_type_NUL [simp]: "is_basic_type NUL"
  by (simp add: is_basic_type_def)

lemma is_basic_type_not [simp]:
  "\<not> is_basic_type (CHR ''v'')" "\<not> is_basic_type (CHR ''('')" "\<not> is_basic_type (CHR ''a'')"
  "\<not> is_basic_type (CHR ''{'')" "\<not> is_basic_type (CHR ''}'')" "\<not> is_basic_type (CHR '')'')"
  by (simp_all add: is_basic_type_def basic_codes_def NUL_def)

lemma sig_of_nonempty [simp]: "sig_of t \<noteq> []"
  by (cases t) auto

lemma sig_of_no_NUL: "wf_ty t \<Longrightarrow> NUL \<notin> set (sig_of t)"
  by (induction t) (auto simp: NUL_def basic_codes_def)

lemma sigs_of_no_NUL: "\<forall>t \<in> set ts. wf_ty t \<Longrightarrow> NUL \<notin> set (sigs_of ts)"
  by (auto simp: sig_of_no_NUL)

text \<open>The two kinds of bracket pairs the scanner is called with.\<close>

definition bracket :: "char \<Rightarrow> char \<Rightarrow> bool" where
  "bracket op cl \<longleftrightarrow> (op = CHR ''('' \<and> cl = CHR '')'') \<or> (op = CHR ''{'' \<and> cl = CHR ''}'')"

lemma match_loop_skip:
  "bracket op cl \<Longrightarrow> ch \<noteq> op \<Longrightarrow> ch \<noteq> cl \<Longrightarrow> d \<noteq> 0 \<Longrightarrow>
     match_loop (ch # str) op cl d n = match_loop str op cl d (Suc n)"
  by simp

text \<open>A complete type is balanced: the scan passes over it with the depth unchanged.\<close>

lemma match_loop_sig_of:
  "wf_ty t \<Longrightarrow> bracket op cl \<Longrightarrow> d > 0 \<Longrightarrow>
     match_loop (sig_of t @ str) op cl d n = match_loop str op cl d (n + length (sig_of t))"
proof (induction t arbitrary: str d n)
  case (TBasic c)
  then show ?case
    using basic_codes_not [of c] by (auto simp: bracket_def)
next
  case TVariant
  then show ?case by (auto simp: bracket_def)
next
  case (TStruct ts)
  have list: "match_loop (sigs_of us @ str') op cl d' n'
       = match_loop str' op cl d' (n' + length (sigs_of us))"
    if "set us \<subseteq> set ts" and "d' > 0" for us str' d' n'
    using that
  proof (induction us arbitrary: n')
    case Nil
    then show ?case by simp
  next
    case (Cons u us)
    then show ?case using TStruct.IH [of u] TStruct.prems by (simp add: add.assoc)
  qed
  show ?case
    using TStruct.prems list [of ts] by (auto simp: bracket_def Let_def add.assoc)
next
  case (TArray t)
  then show ?case by (auto simp: bracket_def)
next
  case (TDict k t)
  then show ?case
    using basic_codes_not [of k] by (auto simp: bracket_def Let_def)
qed

lemma match_loop_sigs_of:
  "\<forall>t \<in> set ts. wf_ty t \<Longrightarrow> bracket op cl \<Longrightarrow> d > 0 \<Longrightarrow>
     match_loop (sigs_of ts @ str) op cl d n = match_loop str op cl d (n + length (sigs_of ts))"
proof (induction ts arbitrary: n)
  case Nil
  then show ?case by simp
next
  case (Cons t ts)
  then show ?case by (simp add: match_loop_sig_of add.assoc)
qed

lemma match_struct:
  "\<forall>t \<in> set ts. wf_ty t \<Longrightarrow>
     match (sig_of (TStruct ts) @ str) (CHR ''('') (CHR '')'') = Inr (Suc (length (sigs_of ts)))"
  by (simp add: match_loop_sigs_of bracket_def)

lemma match_entry:
  "wf_ty t \<Longrightarrow> k \<in> set basic_codes \<Longrightarrow>
     match (CHR ''{'' # k # sig_of t @ CHR ''}'' # str) (CHR ''{'') (CHR ''}'')
       = Inr (Suc (Suc (length (sig_of t))))"
  using basic_codes_not [of k] by (simp add: match_loop_sig_of bracket_def)

text \<open>
  On a complete type, \<open>find_subtype\<close> returns the offset of the type's last character, which
  for nested arrays is the offset of the last character of the innermost element type.
\<close>

lemma find_subtype_sig_of:
  "wf_ty t \<Longrightarrow> find_subtype (sig_of t @ str) = Inr (length (sig_of t) - 1)"
proof (induction t)
  case (TBasic c)
  then show ?case using basic_codes_not [of c] by simp
next
  case (TStruct ts)
  then show ?case using match_struct [of ts str] by simp
next
  case (TArray t)
  then show ?case by (cases "sig_of t") auto
next
  case (TDict k t)
  then show ?case using match_entry [of t k str] by simp
qed simp

subsection \<open>The scanners stay inside the string\<close>

lemma match_loop_bounds:
  assumes "match_loop str op cl d n = Inr r" and "d > 0"
  shows "n < r \<and> r \<le> n + length str \<and> str ! (r - Suc n) = cl"
  using assms
proof (induction str op cl d n rule: match_loop.induct)
  case (1 op cl d n)
  then show ?case by simp
next
  case (2 ch str op cl d n)
  define d' where "d' = (if ch = op then d + 1 else if ch = cl then d - 1 else d)"
  show ?case
  proof (cases "d' = 0")
    case True
    then have "ch = cl" using "2.prems" by (auto simp: d'_def split: if_splits)
    moreover have "r = Suc n" using "2.prems" True by (simp add: d'_def Let_def)
    ultimately show ?thesis by simp
  next
    case False
    then have "d' > 0" using "2.prems" by (auto simp: d'_def split: if_splits)
    moreover have "match_loop str op cl d' (n + 1) = Inr r"
      using "2.prems" False by (simp add: d'_def Let_def)
    ultimately have "n + 1 < r \<and> r \<le> n + 1 + length str \<and> str ! (r - Suc (n + 1)) = cl"
      using "2.IH" [OF d'_def refl] False by simp
    moreover from this have "r - Suc n = Suc (r - Suc (Suc n))" by arith
    ultimately show ?thesis by simp
  qed
qed

lemma match_bounds:
  assumes "match str op cl = Inr r"
  shows "0 < r \<and> r < length str \<and> str ! r = cl"
proof (cases str)
  case Nil
  with assms show ?thesis by simp
next
  case (Cons ch rest)
  with assms match_loop_bounds [of rest op cl 1 0 r] show ?thesis by auto
qed

lemma match_no_UB: "str \<noteq> [] \<Longrightarrow> match str op cl = Inl p \<Longrightarrow> \<not> is_ub p"
proof (cases str)
  case (Cons ch rest)
  have "match_loop xs op cl d n = Inl p \<Longrightarrow> \<not> is_ub p" for xs d n
    by (induction xs op cl d n rule: match_loop.induct) (auto simp: Let_def split: if_splits)
  then show "match str op cl = Inl p \<Longrightarrow> \<not> is_ub p" by (simp add: Cons)
qed simp

lemma find_subtype_bounds: "find_subtype str = Inr r \<Longrightarrow> r < length str"
proof (induction str arbitrary: r)
  case Nil
  then show ?case by simp
next
  case (Cons ch rest)
  then show ?case
    using match_bounds [of "ch # rest"]
    by (fastforce simp del: match.simps split: if_splits simp: map_sum_def split: sum.splits)
qed

lemma find_subtype_no_UB: "find_subtype str = Inl p \<Longrightarrow> \<not> is_ub p"
proof (induction str)
  case Nil
  then show ?case by auto
next
  case (Cons ch rest)
  then show ?case
    using match_no_UB [of "ch # rest"]
    by (auto simp del: match.simps split: if_splits sum.splits simp: map_sum_def)
qed

subsection \<open>A signature has one reading\<close>

lemma hd_sig_of:
  "wf_ty t \<Longrightarrow> hd (sig_of t) \<noteq> CHR ''{'' \<and> (hd (sig_of t) = CHR ''y'' \<longrightarrow> t = TBasic (CHR ''y''))"
  by (cases t) (auto dest: basic_codes_not)

lemma hd_sig_of_cases:
  "wf_ty t \<Longrightarrow> sig_of t @ r = c # xs \<Longrightarrow> c \<noteq> CHR ''{'' \<and> c \<noteq> CHR '')'' \<and> c \<noteq> CHR ''}''"
  by (cases t) (auto dest: basic_codes_not)

text \<open>No complete type is a proper prefix of another, so a signature splits in one way.\<close>

lemma sig_of_prefix_free:
  "wf_ty t \<Longrightarrow> wf_ty t' \<Longrightarrow> sig_of t @ r = sig_of t' @ r' \<Longrightarrow> t = t' \<and> r = r'"
proof (induction t arbitrary: t' r r')
  case (TBasic c)
  then show ?case using basic_codes_not [of c] by (cases t') auto
next
  case TVariant
  then show ?case by (cases t') (auto dest: basic_codes_not)
next
  case (TArray u)
  note IH = TArray.IH and wf = TArray.prems(1,2) and eq = TArray.prems(3)
  show ?case
  proof (cases t')
    case (TArray u')
    then show ?thesis using IH [of u' r r'] wf eq by simp
  next
    case (TDict k u')
    then show ?thesis using hd_sig_of_cases [of u r] wf eq by auto
  qed (use eq wf basic_codes_not in auto)
next
  case (TDict k u)
  note IH = TDict.IH and wf = TDict.prems(1,2) and eq = TDict.prems(3)
  show ?case
  proof (cases t')
    case (TArray u')
    then show ?thesis using hd_sig_of_cases [of u' r'] wf eq by (auto dest: sym)
  next
    case (TDict k' u')
    then show ?thesis using IH [of u' "CHR ''}'' # r" "CHR ''}'' # r'"] wf eq by simp
  qed (use eq wf basic_codes_not in auto)
next
  case (TStruct ts)
  note IH = TStruct.IH and wf = TStruct.prems(1,2) and eq = TStruct.prems(3)
  have list: "us = us' \<and> s = s'"
    if "set us \<subseteq> set ts" "\<forall>t \<in> set us. wf_ty t" "\<forall>t \<in> set us'. wf_ty t"
      "sigs_of us @ CHR '')'' # s = sigs_of us' @ CHR '')'' # s'" for us us' s s'
    using that
  proof (induction us arbitrary: us')
    case Nil
    then show ?case
      by (cases us') (auto dest: hd_sig_of_cases [OF _ sym])
  next
    case (Cons u us)
    show ?case
    proof (cases us')
      case Nil
      then show ?thesis using Cons.prems hd_sig_of_cases [of u "sigs_of us @ CHR '')'' # s"] by auto
    next
      case us': (Cons u' vs)
      have "u = u' \<and> sigs_of us @ CHR '')'' # s = sigs_of vs @ CHR '')'' # s'"
        using IH [of u u'] Cons.prems us' by auto
      then show ?thesis using Cons.IH [of vs] Cons.prems us' by auto
    qed
  qed
  show ?case
  proof (cases t')
    case (TStruct us)
    then show ?thesis using list [of ts us r r'] wf eq by auto
  qed (use eq wf basic_codes_not in auto)
qed

lemma sigs_of_inject:
  "\<forall>t \<in> set ts. wf_ty t \<Longrightarrow> \<forall>t \<in> set us. wf_ty t \<Longrightarrow> sigs_of ts = sigs_of us \<Longrightarrow> ts = us"
proof (induction ts arbitrary: us)
  case Nil
  then show ?case by (cases us) auto
next
  case (Cons t ts)
  show ?case
  proof (cases us)
    case Nil
    then show ?thesis using Cons.prems by simp
  next
    case us: (Cons u us')
    have "t = u \<and> sigs_of ts = sigs_of us'"
      using sig_of_prefix_free [of t u] Cons.prems us by simp
    then show ?thesis using Cons.IH [of us'] Cons.prems us by simp
  qed
qed

lemma sig_of_inject: "wf_ty t \<Longrightarrow> wf_ty u \<Longrightarrow> sig_of t = sig_of u \<Longrightarrow> t = u"
  using sig_of_prefix_free [of t u "[]" "[]"] by simp

end
