(* ===== verification/Append.thy ===== *)
theory Append
  imports Unwrap Signature
begin

text \<open>
  The append half of \<open>src/message.c\<close>: walking a signature with a cursor while converting
  Janet values and calling the \<open>sd_bus_message_*\<close> functions. Each definition is one C
  function; a function that moves \<open>p->cursor\<close> returns the moved parser.
\<close>

record parser =
  p_msg :: ptr
  p_cursor :: cptr

definition skip :: "parser \<Rightarrow> nat \<Rightarrow> ('w, parser) prog" where
  "skip p n = (let p' = p\<lparr>p_cursor := cadd (p_cursor p) n\<rparr> in
     bnd (ld (p_cursor p')) (\<lambda>_. ret p'))"

definition next_c :: "parser \<Rightarrow> ('w, parser) prog" where
  "next_c p = (let p' = p\<lparr>p_cursor := cadd (p_cursor p) 1\<rparr> in
     bnd (ld (p_cursor p')) (\<lambda>_. ret p'))"

definition peek :: "parser \<Rightarrow> ('w, char) prog" where
  "peek p = ld (cadd (p_cursor p) 1)"

definition cursor :: "parser \<Rightarrow> ('w, char) prog" where
  "cursor p = ld (p_cursor p)"

definition span_next_type :: "parser \<Rightarrow> ('w, nat) prog" where
  "span_next_type p =
     (if p_cursor p = None then ret 0
      else
        bnd (cursor p) (\<lambda>ch.
        if is_basic_type ch \<or> ch = CHR ''v'' then ret 1
        else if ch = CHR ''a'' then
          bnd (ld_str (p_cursor p)) (\<lambda>str.
          bnd (lift (find_subtype str)) (\<lambda>n.
          ret (1 + n)))
        else if ch = CHR ''('' then
          bnd (ld_str (p_cursor p)) (\<lambda>str.
          lift (match str (CHR ''('') (CHR '')'')))
        else raise (Panicf ''Unsupported argument type: %c'' [PChar ch])))"

text \<open>One call of an appending function of sd-bus, through \<open>CALL_SD_BUS_FUNC\<close>.\<close>

definition write_call :: "'w env \<Rightarrow> ptr \<Rightarrow> wcall \<Rightarrow> ('w, int) prog" where
  "write_call e m c = CALL_SD_BUS_FUNC (wcall_name c) (sd_write e m c)"

text \<open>A panic whose message quotes the string at a pointer.\<close>

definition panic_sig :: "string \<Rightarrow> cptr \<Rightarrow> ('w, 'a) prog" where
  "panic_sig fmt c = bnd (ld_str c) (\<lambda>str. raise (Panicf fmt [PStr str]))"

text \<open>
  \<open>append_basic_type\<close>: the argument is converted first (and may panic), then appended. The
  \<open>switch\<close> has no default, so any other character appends nothing.
\<close>

definition append_basic_type :: "'w env \<Rightarrow> parser \<Rightarrow> janet \<Rightarrow> ('w, unit) prog" where
  "append_basic_type e p arg =
     (let append = (\<lambda>b. bnd (write_call e (p_msg p) (AppendBasic b)) (\<lambda>_. ret ())) in
      bnd (cursor p) (\<lambda>ch.
      if ch = CHR ''y'' then bnd (getuinteger8 arg) (\<lambda>x. append (Byte x))
      else if ch = CHR ''b'' then bnd (getboolean arg) (\<lambda>x. append (Boolean x))
      else if ch = CHR ''n'' then bnd (getinteger16 e arg) (\<lambda>x. append (Int16 x))
      else if ch = CHR ''q'' then bnd (getuinteger16 e arg) (\<lambda>x. append (Uint16 x))
      else if ch = CHR ''i'' then bnd (getinteger e arg) (\<lambda>x. append (Int32 x))
      else if ch = CHR ''u'' then bnd (getuinteger e arg) (\<lambda>x. append (Uint32 x))
      else if ch = CHR ''x'' then bnd (getinteger64 e arg) (\<lambda>x. append (Int64 x))
      else if ch = CHR ''t'' then bnd (getuinteger64 e arg) (\<lambda>x. append (Uint64 x))
      else if ch = CHR ''d'' then bnd (getnumber arg) (\<lambda>x. append (Double x))
      else if ch \<in> {CHR ''s'', CHR ''o'', CHR ''g''} then
        bnd (getcstring e arg) (\<lambda>x. append (Str ch x))
      else if ch = CHR ''h'' then bnd (getfd arg) (\<lambda>x. append (Fd x))
      else ret ()))"

text \<open>What a view that is returned came from: the recursive calls below are on smaller values.\<close>

lemma gettuple_returns: "returns (gettuple arg) xs \<Longrightarrow> arg = JTuple xs"
  by (auto simp: returns_def gettuple_def dbus_type_error_def bnd_eq_Inr
      split: janet.splits option.splits)

lemma getindexed_returns: "returns (getindexed arg) xs \<Longrightarrow> indexed_view arg = Some xs"
  by (auto simp: returns_def getindexed_def dbus_type_error_def bnd_eq_Inr split: option.splits)

lemma getdictionary_returns:
  "returns (getdictionary arg) kvs \<Longrightarrow> dictionary_view arg = Some kvs"
  by (auto simp: returns_def getdictionary_def dbus_type_error_def bnd_eq_Inr split: option.splits)

function (sequential)
  append_complete_type :: "'w env \<Rightarrow> parser \<Rightarrow> janet \<Rightarrow> ('w, parser) prog" and
  append_variant_type :: "'w env \<Rightarrow> parser \<Rightarrow> janet \<Rightarrow> ('w, parser) prog" and
  append_struct_type :: "'w env \<Rightarrow> parser \<Rightarrow> janet \<Rightarrow> ('w, parser) prog" and
  append_struct_items :: "'w env \<Rightarrow> parser \<Rightarrow> cptr \<Rightarrow> janet list \<Rightarrow> ('w, parser) prog" and
  append_array_type :: "'w env \<Rightarrow> parser \<Rightarrow> janet \<Rightarrow> ('w, parser) prog" and
  append_array_items :: "'w env \<Rightarrow> parser \<Rightarrow> janet list \<Rightarrow> ('w, unit) prog" and
  append_dict_type :: "'w env \<Rightarrow> parser \<Rightarrow> janet \<Rightarrow> ('w, parser) prog" and
  append_dict_entries :: "'w env \<Rightarrow> parser \<Rightarrow> (janet \<times> janet) list \<Rightarrow> ('w, unit) prog"
where
  "append_complete_type e p arg =
     bnd (span_next_type p) (\<lambda>len.
     bnd (dbus_errctx_set (p_cursor p) len) (\<lambda>_.
     bnd (cursor p) (\<lambda>ch.
     bnd (if is_basic_type ch then bnd (append_basic_type e p arg) (\<lambda>_. ret p)
          else if ch = CHR ''v'' then append_variant_type e p arg
          else if ch = CHR ''('' then append_struct_type e p arg
          else if ch = CHR ''a'' then append_array_type e p arg
          else raise (Panicf ''Unsupported argument type: %c'' [PChar ch])) (\<lambda>p'.
     bnd dbus_errctx_exit (\<lambda>_.
     ret p')))))"
| "append_variant_type e p arg =
     bnd (gettuple arg) (\<lambda>tuple.
     case tuple of
       [sig, variant_arg] \<Rightarrow>
         (case sig of
            JString _ \<Rightarrow>
              bnd (lift (janet_getcbytes e sig)) (\<lambda>variant_sig.
              bnd (janet_cstring variant_sig) (\<lambda>variant_ptr.
              bnd (write_call e (p_msg p) (OpenContainer (CHR ''v'') variant_sig)) (\<lambda>_.
              bnd (append_complete_type e \<lparr>p_msg = p_msg p, p_cursor = variant_ptr\<rparr> variant_arg) (\<lambda>_.
              bnd (write_call e (p_msg p) CloseContainer) (\<lambda>_.
              ret p)))))
          | _ \<Rightarrow> raise (Panicf ''Expected string signature for variant, got %v'' [PVal sig]))
     | _ \<Rightarrow> raise (Panicf ''Variant type expects exactly 2 arguments'' []))"
| "append_struct_type e p arg =
     bnd (ld_str (p_cursor p)) (\<lambda>str.
     bnd (lift (match str (CHR ''('') (CHR '')''))) (\<lambda>fin.
     bnd (guard (\<not> fin < 2) (Panicf ''Missing struct signature contents: %s'' [PStr str])) (\<lambda>_.
     bnd (janet_scalloc fin) (\<lambda>struct_sig.
     bnd (memcpy struct_sig (cadd (p_cursor p) 1) (fin - 1)) (\<lambda>_.
     bnd (skip p fin) (\<lambda>p'.
     bnd (ld_str struct_sig) (\<lambda>contents.
     bnd (write_call e (p_msg p) (OpenContainer (CHR ''r'') contents)) (\<lambda>_.
     bnd (getindexed arg) (\<lambda>items.
     bnd (guard (items \<noteq> []) (Panicf ''Empty struct: missing arguments'' [])) (\<lambda>_.
     bnd (append_struct_items e \<lparr>p_msg = p_msg p, p_cursor = struct_sig\<rparr> struct_sig items) (\<lambda>sp.
     bnd (cursor sp) (\<lambda>ch.
     bnd (if ch \<noteq> NUL then panic_sig ''Arguments missing for struct signature: %s'' struct_sig
          else ret ()) (\<lambda>_.
     bnd (write_call e (p_msg p) CloseContainer) (\<lambda>_.
     bnd (janet_sfree struct_sig) (\<lambda>_.
     ret p')))))))))))))))"
| "append_struct_items e sp struct_sig [] = ret sp"
| "append_struct_items e sp struct_sig (item # items) =
     bnd (cursor sp) (\<lambda>ch.
     bnd (if ch = NUL then panic_sig ''Excessive arguments for struct signature: %s'' struct_sig
          else ret ()) (\<lambda>_.
     bnd (append_complete_type e sp item) (\<lambda>sp.
     bnd (next_c sp) (\<lambda>sp.
     append_struct_items e sp struct_sig items))))"
| "append_array_type e p arg =
     bnd (peek p) (\<lambda>ch.
     if ch = CHR ''{'' then
       bnd (next_c p) (\<lambda>p'.
       append_dict_type e p' arg)
     else if ch = CHR ''y'' then
       bnd (next_c p) (\<lambda>p'.
       bnd (getbytes arg) (\<lambda>bytes.
       bnd (write_call e (p_msg p) (AppendArray (CHR ''y'') bytes)) (\<lambda>_.
       ret p')))
     else
       bnd (ld_str (p_cursor p)) (\<lambda>str.
       bnd (lift (find_subtype str)) (\<lambda>fin.
       bnd (janet_scalloc (fin + 1)) (\<lambda>array_sig.
       bnd (memcpy array_sig (cadd (p_cursor p) 1) fin) (\<lambda>_.
       bnd (skip p fin) (\<lambda>p'.
       bnd (ld_str array_sig) (\<lambda>contents.
       bnd (write_call e (p_msg p) (OpenContainer (CHR ''a'') contents)) (\<lambda>_.
       bnd (getindexed arg) (\<lambda>items.
       bnd (append_array_items e \<lparr>p_msg = p_msg p, p_cursor = array_sig\<rparr> items) (\<lambda>_.
       bnd (write_call e (p_msg p) CloseContainer) (\<lambda>_.
       bnd (janet_sfree array_sig) (\<lambda>_.
       ret p'))))))))))))"
| "append_array_items e ap [] = ret ()"
| "append_array_items e ap (item # items) =
     bnd (append_complete_type e ap item) (\<lambda>_.
     append_array_items e ap items)"
| "append_dict_type e p arg =
     bnd (ld_str (p_cursor p)) (\<lambda>str.
     bnd (lift (match str (CHR ''{'') (CHR ''}''))) (\<lambda>fin.
     bnd (guard (\<not> fin < 3) (Panicf ''incomplete dictionary signature: %s'' [PStr str])) (\<lambda>_.
     bnd (janet_scalloc (fin + 2)) (\<lambda>dict_sig.
     bnd (memcpy dict_sig (p_cursor p) (fin + 1)) (\<lambda>_.
     bnd (skip p fin) (\<lambda>p'.
     bnd (ld (cadd dict_sig 1)) (\<lambda>key.
     bnd (ld_str dict_sig) (\<lambda>contents.
     bnd (guard (is_basic_type key)
            (Panicf ''dictionary signature key must be a basic type: %s'' [PStr contents])) (\<lambda>_.
     bnd (write_call e (p_msg p) (OpenContainer (CHR ''a'') contents)) (\<lambda>_.
     bnd (memmove dict_sig (cadd dict_sig 1) (fin - 1)) (\<lambda>_.
     bnd (st_bytes (cadd dict_sig (fin - 1)) [NUL]) (\<lambda>_.
     bnd (getdictionary arg) (\<lambda>dict.
     bnd (append_dict_entries e \<lparr>p_msg = p_msg p, p_cursor = dict_sig\<rparr> dict) (\<lambda>_.
     bnd (write_call e (p_msg p) CloseContainer) (\<lambda>_.
     bnd (janet_sfree dict_sig) (\<lambda>_.
     ret p'))))))))))))))))"
| "append_dict_entries e dp [] = ret ()"
| "append_dict_entries e dp ((key, val) # kvs) =
     bnd (ld_str (p_cursor dp)) (\<lambda>contents.
     bnd (write_call e (p_msg dp) (OpenContainer (CHR ''e'') contents)) (\<lambda>_.
     bnd (append_basic_type e dp key) (\<lambda>_.
     bnd (next_c dp) (\<lambda>vp.
     bnd (append_complete_type e vp val) (\<lambda>_.
     bnd (write_call e (p_msg dp) CloseContainer) (\<lambda>_.
     append_dict_entries e dp kvs))))))"
  by pat_completeness auto

termination
  by (relation "measures
     [(\<lambda>x. case x of
         Inl (Inl (Inl (e, p, arg))) \<Rightarrow> size arg
       | Inl (Inl (Inr (e, p, arg))) \<Rightarrow> size arg
       | Inl (Inr (Inl (e, p, arg))) \<Rightarrow> size arg
       | Inl (Inr (Inr (e, p, c, xs))) \<Rightarrow> size_list size xs
       | Inr (Inl (Inl (e, p, arg))) \<Rightarrow> size arg
       | Inr (Inl (Inr (e, p, xs))) \<Rightarrow> size_list size xs
       | Inr (Inr (Inl (e, p, arg))) \<Rightarrow> size arg
       | Inr (Inr (Inr (e, p, kvs))) \<Rightarrow> size_list (size_prod size size) kvs),
      (\<lambda>x. case x of
         Inl (Inl (Inl _)) \<Rightarrow> 3
       | Inr (Inl (Inl _)) \<Rightarrow> 2
       | _ \<Rightarrow> 1)]")
    (auto dest!: gettuple_returns getindexed_returns getdictionary_returns
       indexed_view_size dictionary_view_size)

declare append_complete_type.simps [simp del] append_variant_type.simps [simp del]
  append_struct_type.simps [simp del] append_array_type.simps [simp del]
  append_dict_type.simps [simp del]

text \<open>\<open>append_data\<close>: one argument per complete type of the signature, in order.\<close>

fun append_args :: "'w env \<Rightarrow> parser \<Rightarrow> cptr \<Rightarrow> janet list \<Rightarrow> ('w, parser) prog" where
  "append_args e p signature [] = ret p"
| "append_args e p signature (arg # args) =
     bnd (cursor p) (\<lambda>ch.
     bnd (if ch = NUL then panic_sig ''Excessive arguments for signature: %s'' signature
          else ret ()) (\<lambda>_.
     bnd dbus_errctx_inc (\<lambda>_.
     bnd (append_complete_type e p arg) (\<lambda>p.
     bnd (next_c p) (\<lambda>p.
     append_args e p signature args)))))"

definition append_data :: "'w env \<Rightarrow> ptr \<Rightarrow> cptr \<Rightarrow> janet list \<Rightarrow> ('w, unit) prog" where
  "append_data e msg signature args =
     bnd dbus_errctx_reset (\<lambda>_.
     bnd (append_args e \<lparr>p_msg = msg, p_cursor = signature\<rparr> signature args) (\<lambda>p.
     bnd (cursor p) (\<lambda>ch.
     if ch \<noteq> NUL then panic_sig ''Arguments missing for signature: %s'' signature
     else ret ())))"

end
