(* ===== verification/Unwrap_Spec.thy ===== *)
theory Unwrap_Spec
  imports Unwrap
begin

text \<open>
  What the error context of \<open>src/unwrap.c\<close> promises: \<open>format_errctx\<close> stays inside its
  16-byte buffer and produces the signature or a prefix of it with an ellipsis, and
  \<open>dbus_type_error\<close> always panics, with a message that names the argument and its type.
\<close>

text \<open>What an error message shows of a signature: at most 12 characters, then an ellipsis.\<close>

definition shown :: "string \<Rightarrow> nat \<Rightarrow> string" where
  "shown str len = (if len \<le> 12 then take len str else take 12 str @ ''...'')"

lemma takeWhile_no_NUL: "NUL \<notin> set xs \<Longrightarrow> takeWhile (\<lambda>ch. ch \<noteq> NUL) (xs @ NUL # ys) = xs"
  by (induction xs) auto

lemma buf_write_at:
  "length xs = i \<Longrightarrow> length ys = length new \<Longrightarrow> buf_write (xs @ ys @ zs) i new = Inr (xs @ new @ zs)"
  by (simp add: buf_write_def)

lemma format_errctx_shown:
  assumes sig: "points_to s sig str" and len: "0 < len" "len \<le> length str"
    and buf: "length buf = ERRCTX_MAX_SIG_LEN"
  shows "\<exists>buf'. format_errctx buf sig len s = (Inr (Some buf'), s)
     \<and> length buf' = ERRCTX_MAX_SIG_LEN \<and> c_string buf' = shown str len"
proof -
  have sig0: "sig \<noteq> None" using sig by (auto simp: points_to_def)
  have no: "NUL \<notin> set (take n str)" for n using points_to_NUL [OF sig] by (auto dest: in_set_takeD)
  show ?thesis
  proof (cases "len \<le> 12")
    case True
    have rd: "ld_bytes sig len s = (Inr (take len str), s)"
      using points_to_ld_bytes [OF sig len(2)] .
    show ?thesis
      using True len buf sig0 takeWhile_no_NUL [OF no]
      by (simp add: format_errctx_def ERRCTX_MAX_SIG_LEN_def Let_def
          bnd_Inr [where m = "ld_bytes sig len", OF rd] buf_write_def c_string_def shown_def)
  next
    case False
    then have rd: "ld_bytes sig 12 s = (Inr (take 12 str), s)"
      using points_to_ld_bytes [OF sig, of 12] len by simp
    have dots: "NUL \<notin> set (take 12 str @ ''...'')" using no [of 12] by (simp add: NUL_def)
    define x where "x = take 12 str"
    obtain u c1 c2 c3 c4 where b: "buf = u @ [c1, c2, c3, c4]" and u: "length u = 12"
    proof (rule that [of "take 12 buf" "buf ! 12" "buf ! 13" "buf ! 14" "buf ! 15"])
      show "buf = take 12 buf @ [buf ! 12, buf ! 13, buf ! 14, buf ! 15]"
        using buf by (intro nth_equalityI) (auto simp: ERRCTX_MAX_SIG_LEN_def nth_append
            nth_Cons' less_Suc_eq numeral_eq_Suc)
    qed (use buf in \<open>simp add: ERRCTX_MAX_SIG_LEN_def\<close>)
    have x: "length x = 12" using False len by (simp add: x_def)
    have 1: "buf_write buf 0 x = Inr (x @ [c1, c2, c3, c4])"
      using buf_write_at [of "[]" 0 u x "[c1, c2, c3, c4]"] u x b by simp
    have 2: "buf_write (x @ [c1, c2, c3, c4]) 12 [NUL] = Inr (x @ [NUL, c2, c3, c4])"
      using buf_write_at [of x 12 "[c1]" "[NUL]" "[c2, c3, c4]"] x by simp
    have 3: "buf_write (x @ [NUL, c2, c3, c4]) 12 ''...'' = Inr (x @ ''...'' @ [c4])"
      using buf_write_at [of x 12 "[NUL, c2, c3]" "''...''" "[c4]"] x by simp
    have 4: "buf_write (x @ ''...'' @ [c4]) 15 [NUL] = Inr (x @ ''...'' @ [NUL])"
      using buf_write_at [of "x @ ''...''" 15 "[c4]" "[NUL]" "[]"] x by simp
    have "format_errctx buf sig len s = (Inr (Some (x @ ''...'' @ [NUL])), s)"
      using False len sig0 1 2 3 4 rd
      by (simp add: format_errctx_def ERRCTX_MAX_SIG_LEN_def Let_def x_def [symmetric]
          bnd_Inr [where m = "ld_bytes sig 12"] numeral_3_eq_3)
    then show ?thesis
      using takeWhile_no_NUL [OF dots, of "[]"] x False
      by (simp add: c_string_def shown_def ERRCTX_MAX_SIG_LEN_def x_def)
  qed
qed


text \<open>The message of \<open>dbus_type_error\<close>, when the context points at live signatures.\<close>

definition ctx_at :: "'w world \<Rightarrow> cptr \<Rightarrow> nat \<Rightarrow> string \<Rightarrow> bool" where
  "ctx_at s c len str \<longleftrightarrow> points_to s c str \<and> 0 < len \<and> len \<le> length str"

definition type_error_message :: "errctx \<Rightarrow> string \<Rightarrow> string \<Rightarrow> string \<Rightarrow> janet \<Rightarrow> panic" where
  "type_error_message g str0 str1 jt x =
     (if ec_depth g > 1
      then Panicf ''bad argument #%d to D-Bus type '%s' (within '%s'), expected %s, got %v''
             [PInt (int (ec_argc g)), PStr (shown str1 (ec_len1 g)), PStr (shown str0 (ec_len0 g)),
              PStr jt, PVal x]
      else Panicf ''bad argument #%d to D-Bus type '%s', expected %s, got %v''
             [PInt (int (ec_argc g)), PStr (shown str0 (ec_len0 g)), PStr jt, PVal x])"

lemma uninit_buf_length: "length uninit_buf = ERRCTX_MAX_SIG_LEN"
  by (simp add: uninit_buf_def)

lemma dbus_type_error_message:
  assumes "ctx_at s (ec_sig0 (errctx s)) (ec_len0 (errctx s)) str0"
    and "ec_depth (errctx s) > 1 \<Longrightarrow> ctx_at s (ec_sig1 (errctx s)) (ec_len1 (errctx s)) str1"
  shows "dbus_type_error jt x s = (Inl (type_error_message (errctx s) str0 str1 jt x), s)"
proof -
  obtain b0 where b0: "format_errctx uninit_buf (ec_sig0 (errctx s)) (ec_len0 (errctx s)) s
      = (Inr (Some b0), s)" "c_string b0 = shown str0 (ec_len0 (errctx s))"
    using format_errctx_shown [OF _ _ _ uninit_buf_length] assms(1) unfolding ctx_at_def by blast
  show ?thesis
  proof (cases "ec_depth (errctx s) > 1")
    case True
    obtain b1 where b1: "format_errctx uninit_buf (ec_sig1 (errctx s)) (ec_len1 (errctx s)) s
        = (Inr (Some b1), s)" "c_string b1 = shown str1 (ec_len1 (errctx s))"
      using format_errctx_shown [OF _ _ _ uninit_buf_length] assms(2) [OF True]
      unfolding ctx_at_def by blast
    show ?thesis
      using True b0 b1 by (simp add: dbus_type_error_def bnd_gets bnd_apply type_error_message_def)
  next
    case False
    then show ?thesis
      using b0 by (simp add: dbus_type_error_def bnd_gets bnd_apply type_error_message_def)
  qed
qed

end
