(* ===== verification/Append_Spec.thy ===== *)
theory Append_Spec
  imports Append Unwrap_Spec
begin

text \<open>
  What \<open>append_data\<close> is for. A D-Bus type and a Janet value that fits it have an encoding: the
  sequence of sd-bus calls that append the value, containers bracketed. The relation \<open>enc\<close>
  gives it by recursion on the type, with no cursor, no scratch memory and no error
  context; the theorems say that the C code, which has all three, makes exactly those calls.
\<close>

subsection \<open>What is assumed of Janet\<close>

text \<open>An integral number and its value.\<close>

definition int_value :: "janet \<Rightarrow> int option" where
  "int_value x = (case x of
      JNumber (Fin q) \<Rightarrow> if q = of_int \<lfloor>q\<rfloor> then Some \<lfloor>q\<rfloor> else None
    | _ \<Rightarrow> None)"

definition int_in :: "int \<Rightarrow> int \<Rightarrow> janet \<Rightarrow> bool" where
  "int_in lo hi x = (case int_value x of Some i \<Rightarrow> lo \<le> i \<and> i \<le> hi | None \<Rightarrow> False)"

text \<open>
  The documented behaviour of the Janet functions the getters call: each \<open>janet_check*\<close>
  accepts the integral numbers of its range (for 64 bits, those a double holds exactly, so
  only one direction), \<open>janet_getcbytes\<close> returns the bytes of a string with no embedded NUL,
  and a failing conversion is a Janet panic.
\<close>

definition janet_laws :: "'w env \<Rightarrow> bool" where
  "janet_laws e \<longleftrightarrow>
     (\<forall>x. janet_checkint16 e x \<longleftrightarrow> int_in (- 32768) 32767 x) \<and>
     (\<forall>x. janet_checkuint16 e x \<longleftrightarrow> int_in 0 65535 x) \<and>
     (\<forall>x. janet_checkint e x \<longleftrightarrow> int_in (- 2147483648) 2147483647 x) \<and>
     (\<forall>x. janet_checkuint e x \<longleftrightarrow> int_in 0 4294967295 x) \<and>
     (\<forall>x. janet_checkint64 e x \<longrightarrow> int_in (- 9223372036854775808) 9223372036854775807 x) \<and>
     (\<forall>x. janet_checkuint64 e x \<longrightarrow> int_in 0 18446744073709551615 x) \<and>
     (\<forall>str. NUL \<notin> set str \<longrightarrow> janet_getcbytes e (JString str) = Inr str) \<and>
     (\<forall>x str. janet_getcbytes e x = Inr str \<longrightarrow> NUL \<notin> set str) \<and>
     (\<forall>str c. janet_getcbytes e (JString str) = Inr c \<longrightarrow> c = str) \<and>
     (\<forall>x p. janet_getcbytes e x = Inl p \<longrightarrow> \<not> is_ub p) \<and>
     (\<forall>x p. janet_unwrap_s64 e x = Inl p \<longrightarrow> \<not> is_ub p) \<and>
     (\<forall>x p. janet_unwrap_u64 e x = Inl p \<longrightarrow> \<not> is_ub p)"

lemma int_value_trunc: "int_value x = Some i \<Longrightarrow> x = JNumber (Fin (of_int i))"
  by (auto simp: int_value_def split: janet.splits double.splits if_splits)

lemma int_value_of_int [simp]: "int_value (JNumber (Fin (of_int i))) = Some i"
  by (simp add: int_value_def)

lemma checkuint8_int_in: "checkuint8 x \<longleftrightarrow> int_in 0 255 x"
proof
  assume "checkuint8 x"
  then obtain i where "x = JNumber (Fin (of_int i))" "0 \<le> i" "i \<le> 255"
    by (auto simp: checkuint8_def cast_double_def Let_def
        split: janet.splits double.splits sum.splits if_splits)
  then show "int_in 0 255 x" by (simp add: int_in_def)
next
  assume "int_in 0 255 x"
  then obtain i where i: "int_value x = Some i" "0 \<le> i" "i \<le> 255"
    by (auto simp: int_in_def split: option.splits)
  then show "checkuint8 x" using int_value_trunc [OF i(1)] by (simp add: checkuint8_def)
qed

subsection \<open>Converting a basic value\<close>

definition ranged :: "int \<Rightarrow> int \<Rightarrow> (int \<Rightarrow> basic) \<Rightarrow> janet \<Rightarrow> basic option" where
  "ranged lo hi mk x = (if int_in lo hi x then map_option mk (int_value x) else None)"

definition conv :: "'w env \<Rightarrow> 'w world \<Rightarrow> char \<Rightarrow> janet \<Rightarrow> basic option" where
  "conv e s ch x =
     (if ch = CHR ''y'' then ranged 0 255 (\<lambda>i. Byte (word_of_int i)) x
      else if ch = CHR ''b'' then (case x of JBoolean b \<Rightarrow> Some (Boolean b) | _ \<Rightarrow> None)
      else if ch = CHR ''n'' then ranged (- 32768) 32767 (\<lambda>i. Int16 (word_of_int i)) x
      else if ch = CHR ''q'' then ranged 0 65535 (\<lambda>i. Uint16 (word_of_int i)) x
      else if ch = CHR ''i'' then ranged (- 2147483648) 2147483647 (\<lambda>i. Int32 (word_of_int i)) x
      else if ch = CHR ''u'' then ranged 0 4294967295 (\<lambda>i. Uint32 (word_of_int i)) x
      else if ch = CHR ''x'' then
        (if janet_int_types e
         then (case janet_unwrap_s64 e x of Inr w \<Rightarrow> Some (Int64 w) | Inl _ \<Rightarrow> None)
         else if janet_checkint64 e x
         then map_option (\<lambda>i. Int64 (word_of_int i)) (int_value x) else None)
      else if ch = CHR ''t'' then
        (if janet_int_types e
         then (case janet_unwrap_u64 e x of Inr w \<Rightarrow> Some (Uint64 w) | Inl _ \<Rightarrow> None)
         else if janet_checkuint64 e x
         then map_option (\<lambda>i. Uint64 (word_of_int i)) (int_value x) else None)
      else if ch = CHR ''d'' then (case x of JNumber d \<Rightarrow> Some (Double d) | _ \<Rightarrow> None)
      else if ch \<in> {CHR ''s'', CHR ''o'', CHR ''g''} then
        (case x of
           JString _ \<Rightarrow> (case janet_getcbytes e x of Inr str \<Rightarrow> Some (Str ch str) | Inl _ \<Rightarrow> None)
         | _ \<Rightarrow> None)
      else if ch = CHR ''h'' then
        (case x of
           JAbstract AbsFile a \<Rightarrow> if f_closed (files s a) then None else Some (Fd (f_fileno (files s a)))
         | JAbstract AbsStream a \<Rightarrow>
             if StreamClosed \<in> s_flags (streams s a) then None else Some (Fd (s_handle (streams s a)))
         | _ \<Rightarrow> None)
      else None)"

text \<open>A panicking getter leaves the state alone.\<close>

definition panics_at :: "('w, 'a) prog \<Rightarrow> 'w world \<Rightarrow> bool" where
  "panics_at m s \<longleftrightarrow> (\<exists>p. m s = (Inl p, s))"

lemma format_errctx_same_state: "format_errctx buf c n s = (r, t) \<Longrightarrow> t = s"
  by (auto simp: format_errctx_def bnd_apply Let_def dest: ld_bytes_same_state
      split: if_splits prod.splits sum.splits)

lemma dbus_type_error_panics: "panics_at (dbus_type_error jt x :: ('w, 'a) prog) s"
proof -
  obtain r t where rt: "(dbus_type_error jt x :: ('w, 'a) prog) s = (r, t)" by fastforce
  have "\<exists>p. r = Inl p"
    using rt by (auto simp: dbus_type_error_def bnd_apply
        split: prod.splits sum.splits option.splits if_splits)
  moreover have "t = s"
    using rt by (auto simp: dbus_type_error_def bnd_apply dest!: format_errctx_same_state
        split: prod.splits sum.splits option.splits if_splits)
  ultimately show ?thesis using rt by (auto simp: panics_at_def)
qed

lemma dbus_type_error_ex [simp]: "\<exists>p. dbus_type_error jt x s = (Inl p, s)"
  using dbus_type_error_panics [of jt x s] by (simp add: panics_at_def)

lemma panics_at_bnd: "panics_at m s \<Longrightarrow> panics_at (bnd m f) s"
  by (auto simp: panics_at_def bnd_Inl)

lemma panics_at_type_error: "panics_at (bnd (dbus_type_error jt x) f) s"
  by (rule panics_at_bnd) (rule dbus_type_error_panics)

lemma cast_number_int:
  "int_value x = Some i \<Longrightarrow> lo \<le> i \<Longrightarrow> i \<le> hi \<Longrightarrow> cast_number lo hi x = ret i"
  by (rule ext) (auto simp: cast_number_def dest!: int_value_trunc)

lemma int_in_value: "int_in lo hi x \<Longrightarrow> \<exists>i. int_value x = Some i \<and> lo \<le> i \<and> i \<le> hi"
  by (auto simp: int_in_def split: option.splits)

text \<open>
  Each getter agrees with \<open>conv\<close>: it returns the converted value with the state unchanged,
  or it panics with the state unchanged.
\<close>

definition getter_ok :: "('w world \<Rightarrow> 'b option) \<Rightarrow> ('a \<Rightarrow> 'b) \<Rightarrow> ('w, 'a) prog \<Rightarrow> bool" where
  "getter_ok f mk m \<longleftrightarrow> (\<forall>s. case f s of
      Some b \<Rightarrow> \<exists>x. m s = (Inr x, s) \<and> b = mk x
    | None \<Rightarrow> panics_at m s)"

lemma ranged_getter:
  assumes "\<And>y. chk y \<longleftrightarrow> int_in lo hi y"
  shows "getter_ok (\<lambda>_. ranged lo hi (\<lambda>i. mk (word_of_int i)) x) mk
     (bnd (if \<not> chk x then dbus_type_error jt x else ret ()) (\<lambda>_.
      bnd (cast_number lo hi x) (\<lambda>i. ret (word_of_int i))))"
proof (cases "int_in lo hi x")
  case True
  then obtain i where "int_value x = Some i" "lo \<le> i" "i \<le> hi" using int_in_value by blast
  then show ?thesis using True assms by (simp add: getter_ok_def ranged_def cast_number_int)
next
  case False
  then show ?thesis
    using assms by (simp add: getter_ok_def ranged_def panics_at_type_error)
qed

lemma getter64:
  assumes "chk x \<Longrightarrow> int_in lo hi x" and "\<And>p. u = Inl p \<Longrightarrow> \<not> is_ub p"
  shows "getter_ok (\<lambda>_. if it then (case u of Inr w \<Rightarrow> Some (mk w) | Inl _ \<Rightarrow> None)
      else if chk x then map_option (\<lambda>i. mk (word_of_int i)) (int_value x) else None) mk
     (if it then lift u
      else bnd (if \<not> chk x then dbus_type_error jt x else ret ()) (\<lambda>_.
           bnd (cast_number lo hi x) (\<lambda>i. ret (word_of_int i))))"
proof (cases it)
  case True
  then show ?thesis by (auto simp: getter_ok_def panics_at_def split: sum.split)
next
  case False
  show ?thesis
  proof (cases "chk x")
    case True
    then obtain i where "int_value x = Some i" "lo \<le> i" "i \<le> hi"
      using assms(1) int_in_value by blast
    then show ?thesis using True False by (simp add: getter_ok_def cast_number_int)
  next
    case no: False
    then show ?thesis using False by (simp add: getter_ok_def panics_at_type_error)
  qed
qed

lemma getuinteger8_ok:
  "getter_ok (\<lambda>_. ranged 0 255 (\<lambda>i. Byte (word_of_int i)) x) Byte (getuinteger8 x)"
  unfolding getuinteger8_def by (rule ranged_getter [OF checkuint8_int_in])

lemma getinteger16_ok:
  "janet_laws e \<Longrightarrow>
     getter_ok (\<lambda>_. ranged (- 32768) 32767 (\<lambda>i. Int16 (word_of_int i)) x) Int16 (getinteger16 e x)"
  unfolding getinteger16_def by (rule ranged_getter) (simp add: janet_laws_def)

lemma getuinteger16_ok:
  "janet_laws e \<Longrightarrow>
     getter_ok (\<lambda>_. ranged 0 65535 (\<lambda>i. Uint16 (word_of_int i)) x) Uint16 (getuinteger16 e x)"
  unfolding getuinteger16_def by (rule ranged_getter) (simp add: janet_laws_def)

lemma getinteger_ok:
  "janet_laws e \<Longrightarrow>
     getter_ok (\<lambda>_. ranged (- 2147483648) 2147483647 (\<lambda>i. Int32 (word_of_int i)) x) Int32
       (getinteger e x)"
  unfolding getinteger_def by (rule ranged_getter) (simp add: janet_laws_def)

lemma getuinteger_ok:
  "janet_laws e \<Longrightarrow>
     getter_ok (\<lambda>_. ranged 0 4294967295 (\<lambda>i. Uint32 (word_of_int i)) x) Uint32 (getuinteger e x)"
  unfolding getuinteger_def by (rule ranged_getter) (simp add: janet_laws_def)

lemma getinteger64_ok:
  "janet_laws e \<Longrightarrow> getter_ok (\<lambda>_.
      if janet_int_types e then (case janet_unwrap_s64 e x of Inr w \<Rightarrow> Some (Int64 w) | Inl _ \<Rightarrow> None)
      else if janet_checkint64 e x then map_option (\<lambda>i. Int64 (word_of_int i)) (int_value x)
      else None) Int64 (getinteger64 e x)"
  unfolding getinteger64_def by (rule getter64) (simp_all add: janet_laws_def)

lemma getuinteger64_ok:
  "janet_laws e \<Longrightarrow> getter_ok (\<lambda>_.
      if janet_int_types e then (case janet_unwrap_u64 e x of Inr w \<Rightarrow> Some (Uint64 w) | Inl _ \<Rightarrow> None)
      else if janet_checkuint64 e x then map_option (\<lambda>i. Uint64 (word_of_int i)) (int_value x)
      else None) Uint64 (getuinteger64 e x)"
  unfolding getuinteger64_def by (rule getter64) (simp_all add: janet_laws_def)

lemma getboolean_ok:
  "getter_ok (\<lambda>_. case x of JBoolean b \<Rightarrow> Some (Boolean b) | _ \<Rightarrow> None) Boolean (getboolean x)"
  by (cases x) (simp_all add: getter_ok_def getboolean_def dbus_type_error_panics)

lemma getnumber_ok:
  "getter_ok (\<lambda>_. case x of JNumber b \<Rightarrow> Some (Double b) | _ \<Rightarrow> None) Double (getnumber x)"
  by (cases x) (simp_all add: getter_ok_def getnumber_def dbus_type_error_panics)

lemma getcstring_ok:
  "getter_ok (\<lambda>_. case x of
      JString _ \<Rightarrow> (case janet_getcbytes e x of Inr str \<Rightarrow> Some (Str ch str) | Inl _ \<Rightarrow> None)
    | _ \<Rightarrow> None) (Str ch) (getcstring e x)"
  by (cases x) (auto simp add: getter_ok_def getcstring_def dbus_type_error_panics panics_at_def
      split: sum.split)

lemma getfd_ok:
  "getter_ok (\<lambda>s. case x of
      JAbstract AbsFile a \<Rightarrow> if f_closed (files s a) then None else Some (Fd (f_fileno (files s a)))
    | JAbstract AbsStream a \<Rightarrow>
        if StreamClosed \<in> s_flags (streams s a) then None else Some (Fd (s_handle (streams s a)))
    | _ \<Rightarrow> None) Fd (getfd x)"
proof (cases x)
  case (JAbstract k a)
  then show ?thesis
    by (cases k) (auto simp add: getter_ok_def getfd_def dbus_type_error_panics bnd_apply panics_at_def)
qed (simp_all add: getter_ok_def getfd_def dbus_type_error_panics)

lemma getter_okD:
  "getter_ok f mk m \<Longrightarrow> (case f s of
      Some b \<Rightarrow> \<exists>x. m s = (Inr x, s) \<and> b = mk x
    | None \<Rightarrow> panics_at m s)"
  by (simp only: getter_ok_def)

lemma getter_then:
  assumes "getter_ok f mk m"
  shows "(case f s of
      Some b \<Rightarrow> bnd m (\<lambda>x. k (mk x)) s = k b s
    | None \<Rightarrow> panics_at (bnd m (\<lambda>x. k (mk x))) s)"
proof (cases "f s")
  case None
  then have "panics_at m s" using getter_okD [OF assms, of s] by simp
  then show ?thesis using None by (simp add: panics_at_bnd)
next
  case (Some b)
  then obtain x where "m s = (Inr x, s)" "b = mk x" using getter_okD [OF assms, of s] by auto
  then show ?thesis using Some by (simp add: bnd_Inr)
qed

lemma basic_by_getter:
  assumes "append_basic_type e p x s = bnd m (\<lambda>x. k (mk x)) s" "getter_ok f mk m"
    "f s = conv e s ch x"
  shows "(case conv e s ch x of
      Some b \<Rightarrow> append_basic_type e p x s = k b s
    | None \<Rightarrow> panics_at (append_basic_type e p x) s)"
  using getter_then [OF assms(2), where s = s and k = k] assms(1,3)
  by (auto simp: panics_at_def split: option.splits)

text \<open>\<open>append_basic_type\<close> converts and then appends, or panics before any call.\<close>

lemma append_basic_spec:
  assumes laws: "janet_laws e" and c: "ch \<in> set basic_codes"
    and cur: "ld (p_cursor p) s = (Inr ch, s)"
  shows "(case conv e s ch x of
      Some b \<Rightarrow> append_basic_type e p x s
        = bnd (write_call e (p_msg p) (AppendBasic b)) (\<lambda>_. ret ()) s
    | None \<Rightarrow> panics_at (append_basic_type e p x) s)"
proof -
  let ?k = "\<lambda>b. bnd (write_call e (p_msg p) (AppendBasic b)) (\<lambda>_. ret ())"
  note app = append_basic_type_def cursor_def Let_def bnd_Inr [where m = "ld (p_cursor p)", OF cur]
  note by_getter = basic_by_getter [where k = ?k and e = e and p = p and x = x and s = s and ch = ch]
  from c have "ch = CHR ''y'' \<or> ch = CHR ''b'' \<or> ch = CHR ''n'' \<or> ch = CHR ''q'' \<or> ch = CHR ''i''
    \<or> ch = CHR ''u'' \<or> ch = CHR ''x'' \<or> ch = CHR ''t'' \<or> ch = CHR ''d''
    \<or> ch \<in> {CHR ''s'', CHR ''o'', CHR ''g''} \<or> ch = CHR ''h''"
    by (auto simp: basic_codes_iff)
  then consider (y) "ch = CHR ''y''" | (b) "ch = CHR ''b''" | (n) "ch = CHR ''n''"
    | (q) "ch = CHR ''q''" | (i) "ch = CHR ''i''" | (u) "ch = CHR ''u''" | (x) "ch = CHR ''x''"
    | (t) "ch = CHR ''t''" | (d) "ch = CHR ''d''"
    | (str) "ch \<in> {CHR ''s'', CHR ''o'', CHR ''g''}" | (h) "ch = CHR ''h''"
    by satx
  then show ?thesis
  proof cases
    case y show ?thesis
      by (rule by_getter [OF _ getuinteger8_ok])
        (simp_all add: y conv_def app)
  next
    case b show ?thesis by (rule by_getter [OF _ getboolean_ok]) (simp_all add: b conv_def app)
  next
    case n show ?thesis
      by (rule by_getter [OF _ getinteger16_ok [OF laws]]) (simp_all add: n conv_def app)
  next
    case q show ?thesis
      by (rule by_getter [OF _ getuinteger16_ok [OF laws]]) (simp_all add: q conv_def app)
  next
    case i show ?thesis
      by (rule by_getter [OF _ getinteger_ok [OF laws]]) (simp_all add: i conv_def app)
  next
    case u show ?thesis
      by (rule by_getter [OF _ getuinteger_ok [OF laws]]) (simp_all add: u conv_def app)
  next
    case x show ?thesis
      by (rule by_getter [OF _ getinteger64_ok [OF laws]]) (simp_all add: x conv_def app)
  next
    case t show ?thesis
      by (rule by_getter [OF _ getuinteger64_ok [OF laws]]) (simp_all add: t conv_def app)
  next
    case d show ?thesis by (rule by_getter [OF _ getnumber_ok]) (simp_all add: d conv_def app)
  next
    case str
    then have ne: "ch \<noteq> CHR ''y'' \<and> ch \<noteq> CHR ''b'' \<and> ch \<noteq> CHR ''n'' \<and> ch \<noteq> CHR ''q'' \<and> ch \<noteq> CHR ''i''
      \<and> ch \<noteq> CHR ''u'' \<and> ch \<noteq> CHR ''x'' \<and> ch \<noteq> CHR ''t'' \<and> ch \<noteq> CHR ''d''" by auto
    have "conv e s ch x = (case x of
        JString _ \<Rightarrow> (case janet_getcbytes e x of Inr str \<Rightarrow> Some (Str ch str) | Inl _ \<Rightarrow> None)
      | _ \<Rightarrow> None)"
      using str unfolding conv_def by (simp only: ne if_False if_True)
    moreover have "append_basic_type e p x s = bnd (getcstring e x) (\<lambda>x. ?k (Str ch x)) s"
      using str unfolding app by (simp only: ne if_False if_True)
    ultimately show ?thesis
      by (intro by_getter [OF _ getcstring_ok [where ch = ch]]) simp_all
  next
    case h show ?thesis by (rule by_getter [OF _ getfd_ok]) (simp_all add: h conv_def app)
  qed
qed

subsection \<open>The reference encoding\<close>

inductive enc :: "'w env \<Rightarrow> 'w world \<Rightarrow> ty \<Rightarrow> janet \<Rightarrow> wcall list \<Rightarrow> bool"
  and enc_fields :: "'w env \<Rightarrow> 'w world \<Rightarrow> ty list \<Rightarrow> janet list \<Rightarrow> wcall list \<Rightarrow> bool"
  and enc_elems :: "'w env \<Rightarrow> 'w world \<Rightarrow> ty \<Rightarrow> janet list \<Rightarrow> wcall list \<Rightarrow> bool"
  and enc_entries ::
    "'w env \<Rightarrow> 'w world \<Rightarrow> char \<Rightarrow> ty \<Rightarrow> (janet \<times> janet) list \<Rightarrow> wcall list \<Rightarrow> bool"
  for e :: "'w env" and s :: "'w world"
where
  basic: "ch \<in> set basic_codes \<Longrightarrow> conv e s ch v = Some b \<Longrightarrow> enc e s (TBasic ch) v [AppendBasic b]"
| variant: "janet_getcbytes e (JString sg) = Inr (sig_of t) \<Longrightarrow> wf_ty t \<Longrightarrow> enc e s t v cs \<Longrightarrow>
     enc e s TVariant (JTuple [JString sg, v])
       (OpenContainer (CHR ''v'') (sig_of t) # cs @ [CloseContainer])"
| struct: "indexed_view v = Some vs \<Longrightarrow> ts \<noteq> [] \<Longrightarrow> enc_fields e s ts vs cs \<Longrightarrow>
     enc e s (TStruct ts) v (OpenContainer (CHR ''r'') (sigs_of ts) # cs @ [CloseContainer])"
| bytes: "bytes_view v = Some bs \<Longrightarrow>
     enc e s (TArray (TBasic (CHR ''y''))) v [AppendArray (CHR ''y'') bs]"
| array: "t \<noteq> TBasic (CHR ''y'') \<Longrightarrow> wf_ty t \<Longrightarrow> indexed_view v = Some vs \<Longrightarrow>
     enc_elems e s t vs cs \<Longrightarrow>
     enc e s (TArray t) v (OpenContainer (CHR ''a'') (sig_of t) # cs @ [CloseContainer])"
| dict: "k \<in> set basic_codes \<Longrightarrow> wf_ty t \<Longrightarrow> dictionary_view v = Some kvs \<Longrightarrow>
     enc_entries e s k t kvs cs \<Longrightarrow>
     enc e s (TDict k t) v
       (OpenContainer (CHR ''a'') (CHR ''{'' # k # sig_of t @ [CHR ''}'']) # cs @ [CloseContainer])"
| fields_Nil: "enc_fields e s [] [] []"
| fields_Cons: "wf_ty t \<Longrightarrow> enc e s t v cs \<Longrightarrow> enc_fields e s ts vs cs' \<Longrightarrow>
     enc_fields e s (t # ts) (v # vs) (cs @ cs')"
| elems_Nil: "enc_elems e s t [] []"
| elems_Cons: "enc e s t v cs \<Longrightarrow> enc_elems e s t vs cs' \<Longrightarrow> enc_elems e s t (v # vs) (cs @ cs')"
| entries_Nil: "enc_entries e s k t [] []"
| entries_Cons: "conv e s k key = Some b \<Longrightarrow> enc e s t v cs \<Longrightarrow> enc_entries e s k t kvs cs' \<Longrightarrow>
     enc_entries e s k t ((key, v) # kvs)
       ((OpenContainer (CHR ''e'') (k # sig_of t) # AppendBasic b # cs @ [CloseContainer]) @ cs')"

inductive_cases enc_basicE: "enc e s (TBasic ch) v cs"
inductive_cases enc_variantE: "enc e s TVariant v cs"
inductive_cases enc_structE: "enc e s (TStruct ts) v cs"
inductive_cases enc_arrayE: "enc e s (TArray t) v cs"
inductive_cases enc_dictE: "enc e s (TDict k t) v cs"

lemma enc_fields_wf: "enc_fields e s ts vs cs \<Longrightarrow> \<forall>t \<in> set ts. wf_ty t"
proof -
  have "(enc e s t v cs' \<longrightarrow> True) \<and> (enc_fields e s ts vs cs \<longrightarrow> (\<forall>t \<in> set ts. wf_ty t))
    \<and> (enc_elems e s t vs cs' \<longrightarrow> True) \<and> (enc_entries e s k t kvs cs' \<longrightarrow> True)" for t v cs' k kvs
    by (induction rule: enc_enc_fields_enc_elems_enc_entries.induct) auto
  then show "enc_fields e s ts vs cs \<Longrightarrow> \<forall>t \<in> set ts. wf_ty t" by blast
qed

lemma enc_wf: "enc e s t v cs \<Longrightarrow> wf_ty t"
  by (erule enc.cases) (auto dest: enc_fields_wf simp: basic_codes_def)

subsection \<open>Running a sequence of calls\<close>

fun run_calls :: "'w env \<Rightarrow> ptr \<Rightarrow> wcall list \<Rightarrow> 'w \<Rightarrow> (panic + unit) \<times> 'w" where
  "run_calls e m [] w = (Inr (), w)"
| "run_calls e m (c # cs) w =
     (let (rv, w') = sd_write e m c w in
      if rv < 0
      then (Inl (Panicf ''failed to call %s: %s'' [PStr (wcall_name c), PInt (- rv)]), w')
      else run_calls e m cs w')"

lemma run_calls_append:
  "run_calls e m (cs @ cs') w = (case run_calls e m cs w of
      (Inl p, w') \<Rightarrow> (Inl p, w')
    | (Inr _, w') \<Rightarrow> run_calls e m cs' w')"
  by (induction cs arbitrary: w) (auto split: prod.split)

text \<open>
  \<open>frame s t\<close>: everything but the outside world and newly allocated scratch memory is the
  same, and the error context is at the same depth and argument. \<open>appends e m cs x s0 s r\<close>:
  the outcome \<open>r\<close> of a computation started in \<open>s\<close> is that of the calls \<open>cs\<close> on the outside
  world; if they all succeed, it returns \<open>x\<close> in a state that is framed by \<open>s0\<close>.
\<close>

definition frame :: "'w world \<Rightarrow> 'w world \<Rightarrow> bool" where
  "frame s t \<longleftrightarrow> mem_ext s t \<and> files t = files s \<and> streams t = streams s \<and> pend t = pend s
     \<and> asyncs t = asyncs s \<and> exports t = exports s \<and> conns t = conns s \<and> msgs t = msgs s
     \<and> slots t = slots s \<and> trace t = trace s \<and> fibers t = fibers s \<and> roots t = roots s
     \<and> ec_depth (errctx t) = ec_depth (errctx s) \<and> ec_argc (errctx t) = ec_argc (errctx s)
     \<and> (0 < ec_depth (errctx s) \<longrightarrow>
          ec_sig0 (errctx t) = ec_sig0 (errctx s) \<and> ec_len0 (errctx t) = ec_len0 (errctx s))"

definition appends ::
  "'w env \<Rightarrow> ptr \<Rightarrow> wcall list \<Rightarrow> 'a \<Rightarrow> 'w world \<Rightarrow> 'w world \<Rightarrow> (panic + 'a) \<times> 'w world \<Rightarrow> bool" where
  "appends e m cs x s0 s r \<longleftrightarrow>
     ext (snd r) = snd (run_calls e m cs (ext s)) \<and>
     (case fst (run_calls e m cs (ext s)) of
        Inl p \<Rightarrow> fst r = Inl p
      | Inr _ \<Rightarrow> fst r = Inr x \<and> frame s0 (snd r))"

lemma frame_refl [simp, intro]: "frame s s"
  by (simp add: frame_def)

lemma frame_trans [trans]: "frame s t \<Longrightarrow> frame t u \<Longrightarrow> frame s u"
  by (auto simp: frame_def intro: mem_ext_trans)

lemma frame_ext [simp]: "frame s (s\<lparr>ext := w\<rparr>)"
  by (simp add: frame_def mem_ext_def)

lemma frame_points_to: "frame s t \<Longrightarrow> points_to s c str \<Longrightarrow> points_to t c str"
  by (auto simp: frame_def intro: mem_ext_points_to)

lemma conv_same:
  assumes "files t = files s" and "streams t = streams s"
  shows "conv e t = conv e s"
  by (rule HOL.ext)+ (unfold conv_def assms, rule refl)

lemma frame_conv: "frame s t \<Longrightarrow> conv e t = conv e s"
  by (rule conv_same) (simp_all add: frame_def)

lemma appends_ret: "appends e m [] x s0 s (Inr x, t) \<longleftrightarrow> ext t = ext s \<and> frame s0 t"
  by (auto simp: appends_def)

lemma appends_bnd:
  assumes 1: "appends e m cs x s s (m1 s)"
    and 2: "\<And>t. frame s t \<Longrightarrow> appends e m cs' y s0 t (f x t)"
  shows "appends e m (cs @ cs') y s0 s (bnd m1 f s)"
proof (cases "fst (run_calls e m cs (ext s))")
  case (Inl p)
  obtain t where "m1 s = (Inl p, t)" "ext t = snd (run_calls e m cs (ext s))"
    using 1 Inl by (cases "m1 s") (auto simp: appends_def)
  then show ?thesis
    using Inl by (auto simp: appends_def run_calls_append bnd_Inl split: prod.split sum.split)
next
  case (Inr u)
  obtain t where t: "m1 s = (Inr x, t)" "frame s t" "ext t = snd (run_calls e m cs (ext s))"
    using 1 Inr by (cases "m1 s") (auto simp: appends_def)
  have "run_calls e m (cs @ cs') (ext s) = run_calls e m cs' (ext t)"
    using Inr t(3) by (auto simp: run_calls_append split: prod.split)
  moreover have "appends e m cs' y s0 t (f x t)" by (rule 2 [OF t(2)])
  ultimately show ?thesis using t by (auto simp: appends_def bnd_Inr split: sum.split)
qed

text \<open>A step that makes no call: evaluate it and go on from the state it reaches.\<close>

lemma appends_step:
  "m1 s = (Inr z, t) \<Longrightarrow> ext t = ext s \<Longrightarrow> appends e m cs y s0 t (f z t)
     \<Longrightarrow> appends e m cs y s0 s (bnd m1 f s)"
  by (simp add: appends_def bnd_Inr)

lemma appends_same:
  "m1 s = (Inr z, s) \<Longrightarrow> appends e m cs y s0 s (f z s) \<Longrightarrow> appends e m cs y s0 s (bnd m1 f s)"
  by (rule appends_step) auto

lemma appends_write:
  assumes "\<And>rv t. frame s t \<Longrightarrow> appends e m cs y s0 t (f rv t)"
  shows "appends e m (c # cs) y s0 s (bnd (write_call e m c) f s)"
proof -
  obtain rv w where rw: "sd_write e m c (ext s) = (rv, w)" by fastforce
  have "appends e m cs y s0 (s\<lparr>ext := w\<rparr>) (f rv (s\<lparr>ext := w\<rparr>))" by (rule assms) simp
  then show ?thesis
    using rw by (auto simp: appends_def bnd_apply write_call_def Let_def split: sum.split)
qed

lemma appends_start:
  "ext t = ext s \<Longrightarrow> appends e m cs x s0 t r \<Longrightarrow> appends e m cs x s0 s r"
  by (simp add: appends_def)

lemma appends_weaken: "appends e m cs y s1 s r \<Longrightarrow> frame s0 s1 \<Longrightarrow> appends e m cs y s0 s r"
  by (auto simp: appends_def intro: frame_trans split: sum.splits)

text \<open>A block allocated after \<open>s0\<close> can be freed within the frame of \<open>s0\<close>.\<close>

lemma appends_sfree:
  "frame s0 s \<Longrightarrow> next_id s0 \<le> b \<Longrightarrow>
     appends e m [] x s0 s (bnd (janet_sfree (Some (b, i))) (\<lambda>_. ret x) s)"
  by (auto simp: appends_def bnd_apply janet_sfree_def frame_def mem_ext_def)

subsection \<open>Copying a signature\<close>

text \<open>The state after a block with the given bytes was allocated.\<close>

definition copied :: "string \<Rightarrow> 'w world \<Rightarrow> 'w world" where
  "copied bytes s = s\<lparr>scratch := (scratch s)(next_id s \<mapsto> bytes), next_id := Suc (next_id s)\<rparr>"

lemma copied_simps [simp]:
  "ext (copied bytes s) = ext s" "next_id (copied bytes s) = Suc (next_id s)"
  "scratch (copied bytes s) (next_id s) = Some bytes" "errctx (copied bytes s) = errctx s"
  by (simp_all add: copied_def)

lemma frame_copied [simp]: "frame s (copied bytes s)"
  by (simp add: copied_def frame_def mem_ext_def)

lemma points_to_copied: "NUL \<notin> set str \<Longrightarrow> points_to (copied (str @ NUL # rest) s) (Some (next_id s, 0)) str"
  using points_toI [of "copied (str @ NUL # rest) s" "next_id s" "[]" str rest] by simp

lemma scalloc_copy:
  assumes "points_to s c str" and "n \<le> length str"
  shows "bnd (janet_scalloc (Suc n)) (\<lambda>sg. bnd (memcpy sg c n) (\<lambda>_. k sg)) s
    = k (Some (next_id s, 0)) (copied (take n str @ [NUL]) s)"
proof -
  define s1 where "s1 = copied (replicate (Suc n) NUL) s"
  have alloc: "janet_scalloc (Suc n) s = (Inr (Some (next_id s, 0)), s1)"
    by (simp add: janet_scalloc_def alloc_bytes_def s1_def copied_def)
  have "points_to s1 c str" unfolding s1_def by (rule frame_points_to [OF frame_copied assms(1)])
  then have rd: "ld_bytes c n s1 = (Inr (take n str), s1)" using assms(2) by (rule points_to_ld_bytes)
  have last: "drop n (NUL # replicate n NUL) = [NUL]"
    using drop_replicate [of n "Suc n" NUL] by (simp del: drop_replicate)
  have "st_bytes (Some (next_id s, 0)) (take n str) s1 = (Inr (), copied (take n str @ [NUL]) s)"
    using assms(2) last by (simp add: st_bytes_def deref_def bnd_apply s1_def)
      (simp add: copied_def)
  then show ?thesis using alloc rd by (simp add: bnd_Inr memcpy_def)
qed

subsection \<open>The cursor at a complete type\<close>

definition at_type :: "'w world \<Rightarrow> parser \<Rightarrow> ty \<Rightarrow> string \<Rightarrow> bool" where
  "at_type s p t rest \<longleftrightarrow> points_to s (p_cursor p) (sig_of t @ rest)"

text \<open>The parser with its cursor on the last character of the type.\<close>

definition at_end :: "parser \<Rightarrow> ty \<Rightarrow> parser" where
  "at_end p t = p\<lparr>p_cursor := cadd (p_cursor p) (length (sig_of t) - 1)\<rparr>"

lemma points_to_not_None: "points_to s c str \<Longrightarrow> c \<noteq> None"
  by (auto simp: points_to_def)

lemma skip_points_to:
  assumes "points_to s (p_cursor p) str" and "n \<le> length str"
  shows "skip p n s = (Inr (p\<lparr>p_cursor := cadd (p_cursor p) n\<rparr>), s)"
  using points_to_ld [OF points_to_drop [OF assms]] by (simp add: skip_def Let_def bnd_Inr)

lemma next_points_to:
  assumes "points_to s (p_cursor p) (x # str)"
  shows "next_c p s = (Inr (p\<lparr>p_cursor := cadd (p_cursor p) 1\<rparr>), s)"
  using points_to_ld [OF points_to_cadd1 [OF assms]] by (simp add: next_c_def Let_def bnd_Inr)

lemma cursor_points_to:
  "points_to s (p_cursor p) (x # str) \<Longrightarrow> cursor p s = (Inr x, s)"
  by (simp add: cursor_def points_to_ld_Cons)

lemma cursor_points_to_end: "points_to s (p_cursor p) [] \<Longrightarrow> cursor p s = (Inr NUL, s)"
  by (simp add: cursor_def points_to_ld_Nil)

lemma peek_points_to: "points_to s (p_cursor p) (x # y # str) \<Longrightarrow> peek p s = (Inr y, s)"
  unfolding peek_def by (drule points_to_cadd1) (simp add: points_to_ld_Cons)

text \<open>After a complete type, \<open>next\<close> moves the cursor to what follows it.\<close>

lemma next_after_type:
  assumes "points_to s (p_cursor p) (sig_of t @ rest)"
  shows "next_c (at_end p t) s = (Inr (p\<lparr>p_cursor := cadd (p_cursor p) (length (sig_of t))\<rparr>), s)"
    and "points_to s (cadd (p_cursor p) (length (sig_of t))) rest"
proof -
  obtain xs x where sig: "sig_of t = xs @ [x]" by (metis sig_of_nonempty rev_exhaust)
  have "points_to s (cadd (p_cursor p) (length xs)) (x # rest)"
    using assms points_to_cadd [of s "p_cursor p" xs "x # rest"] by (simp add: sig)
  then have "points_to s (p_cursor (at_end p t)) (x # rest)" by (simp add: at_end_def sig)
  from next_points_to [OF this]
  show "next_c (at_end p t) s = (Inr (p\<lparr>p_cursor := cadd (p_cursor p) (length (sig_of t))\<rparr>), s)"
    by (simp add: at_end_def sig)
  show "points_to s (cadd (p_cursor p) (length (sig_of t))) rest"
    using assms by (rule points_to_cadd)
qed

text \<open>
  \<open>span_next_type\<close> returns the length of the next complete type, except for a structure, for
  which it returns one less: the offset of the closing parenthesis.
\<close>

definition span_len :: "ty \<Rightarrow> nat" where
  "span_len t = (case t of TStruct ts \<Rightarrow> length (sig_of t) - 1 | _ \<Rightarrow> length (sig_of t))"

lemma span_next_type_sig_of:
  assumes p: "points_to s (p_cursor p) (sig_of t @ rest)" and wf: "wf_ty t"
  shows "span_next_type p s = (Inr (span_len t), s)"
proof -
  have c: "p_cursor p \<noteq> None" using p by (rule points_to_not_None)
  have str: "ld_str (p_cursor p) s = (Inr (sig_of t @ rest), s)" using p by (rule points_to_ld_str)
  obtain x xs where sig: "sig_of t = x # xs" by (cases "sig_of t") auto
  have cur: "cursor p s = (Inr x, s)" using p sig by (simp add: cursor_points_to)
  have sub: "find_subtype (sig_of t @ rest) = Inr (length (sig_of t) - 1)"
    using wf by (rule find_subtype_sig_of)
  note run = span_next_type_def bnd_apply cur str sub span_len_def
  show ?thesis
  proof (cases t)
    case (TBasic ch)
    then have "is_basic_type x" using wf sig by simp
    then show ?thesis using c TBasic by (simp add: run)
  next
    case TVariant
    then have "x = CHR ''v''" using sig by simp
    then show ?thesis using c TVariant by (simp add: run)
  next
    case (TStruct ts)
    then have "x = CHR ''(''" using sig by simp
    then show ?thesis using c wf match_struct [of ts rest] TStruct by (simp add: run)
  next
    case (TArray u)
    then have "x = CHR ''a''" using sig by simp
    then show ?thesis using c TArray sub by (simp add: run)
  next
    case (TDict k u)
    then have "x = CHR ''a''" using sig by simp
    then show ?thesis using c TDict sub by (simp add: run)
  qed
qed

subsection \<open>The C code makes the calls of the encoding\<close>

text \<open>The dispatch of \<open>append_complete_type\<close> on the first character of the type.\<close>

definition dispatch :: "'w env \<Rightarrow> parser \<Rightarrow> janet \<Rightarrow> char \<Rightarrow> ('w, parser) prog" where
  "dispatch e p arg ch =
     (if is_basic_type ch then bnd (append_basic_type e p arg) (\<lambda>_. ret p)
      else if ch = CHR ''v'' then append_variant_type e p arg
      else if ch = CHR ''('' then append_struct_type e p arg
      else if ch = CHR ''a'' then append_array_type e p arg
      else raise (Panicf ''Unsupported argument type: %c'' [PChar ch]))"

lemma append_complete_dispatch:
  "append_complete_type e p arg =
     bnd (span_next_type p) (\<lambda>len.
     bnd (dbus_errctx_set (p_cursor p) len) (\<lambda>_.
     bnd (cursor p) (\<lambda>ch.
     bnd (dispatch e p arg ch) (\<lambda>p'.
     bnd dbus_errctx_exit (\<lambda>_.
     ret p')))))"
  by (simp add: append_complete_type.simps dispatch_def)

lemma errctx_set_depth [simp]:
  "ec_depth (errctx_set c n g) = Suc (ec_depth g)" "ec_argc (errctx_set c n g) = ec_argc g"
  by (simp_all add: errctx_set_def Let_def)

lemma errctx_set_sig0 [simp]:
  "0 < ec_depth g \<Longrightarrow> ec_sig0 (errctx_set c n g) = ec_sig0 g \<and> ec_len0 (errctx_set c n g) = ec_len0 g"
  by (simp add: errctx_set_def Let_def)

lemma complete_wrap:
  assumes p: "points_to s (p_cursor p) (sig_of t @ rest)" and wf: "wf_ty t"
    and body: "\<And>s1. points_to s1 (p_cursor p) (sig_of t @ rest) \<Longrightarrow> conv e s1 = conv e s \<Longrightarrow>
      appends e (p_msg p) cs (at_end p t) s1 s1 (dispatch e p v (hd (sig_of t)) s1)"
  shows "appends e (p_msg p) cs (at_end p t) s s (append_complete_type e p v s)"
proof -
  obtain x xs where sig: "sig_of t = x # xs" by (cases "sig_of t") auto
  define s1 where "s1 = s\<lparr>errctx := errctx_set (p_cursor p) (span_len t) (errctx s)\<rparr>"
  have p1: "points_to s1 (p_cursor p) (sig_of t @ rest)"
    using p by (simp add: points_to_def s1_def)
  have conv1: "conv e s1 = conv e s" by (rule conv_same) (simp_all add: s1_def)
  have exit: "appends e (p_msg p) [] y s u (bnd dbus_errctx_exit (\<lambda>_. ret y) u)"
    if "frame s1 u" for u y
    using that by (auto simp: appends_def bnd_apply dbus_errctx_exit_def frame_def mem_ext_def
        s1_def Let_def)
  have main: "appends e (p_msg p) (cs @ []) (at_end p t) s s1
      (bnd (dispatch e p v x) (\<lambda>p'. bnd dbus_errctx_exit (\<lambda>_. ret p')) s1)"
    by (rule appends_bnd [OF _ exit]) (use body [OF p1 conv1] sig in simp_all)
  have cur: "cursor p s1 = (Inr x, s1)" using p1 sig by (simp add: cursor_points_to)
  have set: "dbus_errctx_set (p_cursor p) (span_len t) s = (Inr (), s1)"
    by (simp add: dbus_errctx_set_def s1_def)
  have ext1: "ext s1 = ext s" by (simp add: s1_def)
  show ?thesis
    unfolding append_complete_dispatch
    by (rule appends_same, rule span_next_type_sig_of [OF p wf], rule appends_step, rule set,
        rule ext1, rule appends_same, rule cur)
      (use main in simp)
qed

lemma append_basic_appends:
  assumes laws: "janet_laws e" and c: "ch \<in> set basic_codes"
    and p: "points_to s (p_cursor p) (ch # rest)" and conv: "conv e s ch v = Some b"
  shows "appends e (p_msg p) [AppendBasic b] () s s (append_basic_type e p v s)"
proof -
  have "append_basic_type e p v s = bnd (write_call e (p_msg p) (AppendBasic b)) (\<lambda>_. ret ()) s"
    using append_basic_spec [OF laws c points_to_ld_Cons [OF p], of v] conv by simp
  then show ?thesis by (simp add: appends_write appends_ret)
qed

text \<open>The main induction: one statement for each judgement of the encoding.\<close>

lemma append_variant_appends:
  assumes laws: "janet_laws e" and p: "points_to s (p_cursor p) (sig_of TVariant @ rest)"
    and sg: "janet_getcbytes e (JString sg) = Inr (sig_of t)" and wf: "wf_ty t"
    and IH: "\<And>s1 q. conv e s1 = conv e s \<Longrightarrow> points_to s1 (p_cursor q) (sig_of t @ []) \<Longrightarrow>
      appends e (p_msg q) cs (at_end q t) s1 s1 (append_complete_type e q v s1)"
  shows "appends e (p_msg p) (OpenContainer (CHR ''v'') (sig_of t) # cs @ [CloseContainer]) p s s
     (append_variant_type e p (JTuple [JString sg, v]) s)"
proof -
  obtain c s1 where new: "janet_cstring (sig_of t) s = (Inr c, s1)"
    by (simp add: janet_cstring_def alloc_bytes_def)
  have c: "points_to s1 c (sig_of t)"
    using janet_cstring_points_to [OF new sig_of_no_NUL [OF wf]] by blast
  have fr: "frame s s1" and ext1: "ext s1 = ext s"
    using new by (auto simp: janet_cstring_def alloc_bytes_def frame_def mem_ext_def)
  let ?q = "\<lparr>p_msg = p_msg p, p_cursor = c\<rparr>"
  have close: "appends e (p_msg p) [CloseContainer] p s u
      (bnd (write_call e (p_msg p) CloseContainer) (\<lambda>_. ret p) u)" if "frame s u" for u
    using frame_trans [OF that] by (intro appends_write) (simp add: appends_ret)
  have body: "appends e (p_msg p) (cs @ [CloseContainer]) p s u
      (bnd (append_complete_type e ?q v) (\<lambda>_.
       bnd (write_call e (p_msg p) CloseContainer) (\<lambda>_. ret p)) u)" if "frame s1 u" for u
  proof (rule appends_bnd)
    have "frame s u" using fr that by (rule frame_trans)
    then have "conv e u = conv e s" by (rule frame_conv)
    then show "appends e (p_msg p) cs (at_end ?q t) u u (append_complete_type e ?q v u)"
      using IH [of u ?q] frame_points_to [OF that c] by simp
    show "appends e (p_msg p) [CloseContainer] p s u'
        (bnd (write_call e (p_msg p) CloseContainer) (\<lambda>_. ret p) u')" if "frame u u'" for u'
      by (rule close) (rule frame_trans [OF \<open>frame s u\<close> that])
  qed
  show ?thesis
    unfolding append_variant_type.simps gettuple_def
    by (simp add: sg) (rule appends_step, rule new, rule ext1, rule appends_write, rule body)
qed

text \<open>The closing of a container whose signature was copied to a scratch block.\<close>

lemma close_and_free:
  assumes "frame s0 s" and "next_id s0 \<le> b"
  shows "appends e m [CloseContainer] x s0 s
     (bnd (write_call e m CloseContainer) (\<lambda>_. bnd (janet_sfree (Some (b, i))) (\<lambda>_. ret x)) s)"
  by (rule appends_write) (rule appends_sfree [OF frame_trans [OF assms(1)] assms(2)])

lemma append_struct_run:
  fixes s :: "'w world"
  assumes p: "points_to s (p_cursor p) (sig_of (TStruct ts) @ rest)"
    and ts: "ts \<noteq> []" "\<forall>t \<in> set ts. wf_ty t"
  defines "sg \<equiv> Some (next_id s, 0 :: nat)"
  shows "append_struct_type e p v s =
     bnd (write_call e (p_msg p) (OpenContainer (CHR ''r'') (sigs_of ts))) (\<lambda>_.
     bnd (getindexed v) (\<lambda>items.
     bnd (guard (items \<noteq> []) (Panicf ''Empty struct: missing arguments'' [])) (\<lambda>_.
     bnd (append_struct_items e \<lparr>p_msg = p_msg p, p_cursor = sg\<rparr> sg items) (\<lambda>sp.
     bnd (cursor sp) (\<lambda>ch.
     bnd (if ch \<noteq> NUL then panic_sig ''Arguments missing for struct signature: %s'' sg
          else ret ()) (\<lambda>_.
     bnd (write_call e (p_msg p) CloseContainer) (\<lambda>_.
     bnd (janet_sfree sg) (\<lambda>_.
     ret (at_end p (TStruct ts))))))))))
       (copied (sigs_of ts @ [NUL]) s)" (is "_ = ?rhs")
    and "points_to (copied (sigs_of ts @ [NUL]) s) sg (sigs_of ts)"
proof -
  let ?n = "length (sigs_of ts)"
  let ?t = "copied (sigs_of ts @ [NUL]) s"
  have n: "1 \<le> ?n" using ts(1) by (cases ts) (auto simp: Suc_le_eq)
  have str: "ld_str (p_cursor p) s = (Inr (sig_of (TStruct ts) @ rest), s)"
    using p by (rule points_to_ld_str)
  have p1: "points_to s (cadd (p_cursor p) 1) (sigs_of ts @ CHR '')'' # rest)"
    using p points_to_cadd1 by simp
  have copy: "bnd (janet_scalloc (Suc ?n)) (\<lambda>sg. bnd (memcpy sg (cadd (p_cursor p) (Suc 0)) ?n) (\<lambda>_. k sg)) s
      = k sg ?t" for k :: "cptr \<Rightarrow> ('w, parser) prog"
    using scalloc_copy [OF p1, of ?n k] by (simp add: sg_def)
  show sg: "points_to ?t sg (sigs_of ts)"
    using points_to_copied [OF sigs_of_no_NUL [OF ts(2)]] by (simp add: sg_def)
  have skip: "skip p (Suc ?n) ?t = (Inr (at_end p (TStruct ts)), ?t)"
    using skip_points_to [OF frame_points_to [OF frame_copied p], of "Suc ?n"]
    by (simp add: at_end_def)
  show "append_struct_type e p v s = ?rhs"
    unfolding append_struct_type.simps bnd_Inr [where m = "ld_str (p_cursor p)", OF str]
    by (simp add: match_struct [OF ts(2)] n ts(1) copy
        bnd_Inr [where m = "skip p (Suc (length (sigs_of ts)))", OF skip]
        bnd_Inr [where m = "ld_str sg", OF points_to_ld_str [OF sg]]
        del: match.simps sig_of.simps)
qed

lemma append_struct_appends:
  assumes p: "points_to s (p_cursor p) (sig_of (TStruct ts) @ rest)"
    and ix: "indexed_view v = Some vs" and ts: "ts \<noteq> []" "\<forall>t \<in> set ts. wf_ty t"
    and vs: "vs \<noteq> []"
    and IH: "\<And>s1 q c. conv e s1 = conv e s \<Longrightarrow> points_to s1 (p_cursor q) (sigs_of ts) \<Longrightarrow>
      appends e (p_msg q) cs (q\<lparr>p_cursor := cadd (p_cursor q) (length (sigs_of ts))\<rparr>) s1 s1
        (append_struct_items e q c vs s1)"
  shows "appends e (p_msg p) (OpenContainer (CHR ''r'') (sigs_of ts) # cs @ [CloseContainer])
     (at_end p (TStruct ts)) s s (append_struct_type e p v s)"
proof -
  define sg where "sg = Some (next_id s, 0 :: nat)"
  define t where "t = copied (sigs_of ts @ [NUL]) s"
  note run = append_struct_run [OF p ts, folded sg_def t_def]
  have fr: "frame s t" and ext1: "ext t = ext s" by (simp_all add: t_def)
  let ?q = "\<lparr>p_msg = p_msg p, p_cursor = sg\<rparr>"
  let ?q' = "?q\<lparr>p_cursor := cadd sg (length (sigs_of ts))\<rparr>"
  have finish: "appends e (p_msg p) [CloseContainer] (at_end p (TStruct ts)) s u
      (bnd (cursor ?q') (\<lambda>ch.
       bnd (if ch \<noteq> NUL then panic_sig f sg else ret ()) (\<lambda>_.
       bnd (write_call e (p_msg p) CloseContainer) (\<lambda>_.
       bnd (janet_sfree sg) (\<lambda>_. ret (at_end p (TStruct ts)))))) u)" if u: "frame t u" for u f
  proof (rule appends_same, rule cursor_points_to_end)
    show "points_to u (p_cursor ?q') []"
      using points_to_cadd [of u sg "sigs_of ts" "[]"] frame_points_to [OF u run(2)] by simp
    show "appends e (p_msg p) [CloseContainer] (at_end p (TStruct ts)) s u
      (bnd (if NUL \<noteq> NUL then panic_sig f sg else ret ()) (\<lambda>_.
       bnd (write_call e (p_msg p) CloseContainer) (\<lambda>_.
       bnd (janet_sfree sg) (\<lambda>_. ret (at_end p (TStruct ts))))) u)"
      using close_and_free [OF frame_trans [OF fr u] order_refl] sg_def by simp
  qed
  have items: "appends e (p_msg p) cs ?q' u u (append_struct_items e ?q sg vs u)" if "frame t u" for u
    using IH [of u ?q sg] frame_conv [OF frame_trans [OF fr that]] frame_points_to [OF that run(2)]
    by simp
  have main: "appends e (p_msg p) (OpenContainer (CHR ''r'') (sigs_of ts) # cs @ [CloseContainer])
      (at_end p (TStruct ts)) s t
      (bnd (write_call e (p_msg p) (OpenContainer (CHR ''r'') (sigs_of ts))) (\<lambda>_.
       bnd (append_struct_items e ?q sg vs) (\<lambda>sp.
       bnd (cursor sp) (\<lambda>ch.
       bnd (if ch \<noteq> NUL then panic_sig f sg else ret ()) (\<lambda>_.
       bnd (write_call e (p_msg p) CloseContainer) (\<lambda>_.
       bnd (janet_sfree sg) (\<lambda>_. ret (at_end p (TStruct ts)))))))) t)" for f
    by (rule appends_write, rule appends_bnd, erule items) (rule finish, rule frame_trans)
  show ?thesis
    unfolding run(1) getindexed_def by (simp add: ix vs appends_start [OF ext1 main])
qed

lemma append_array_run:
  fixes s :: "'w world"
  assumes p: "points_to s (p_cursor p) (sig_of (TArray t) @ rest)"
    and t: "wf_ty t" "t \<noteq> TBasic (CHR ''y'')"
  defines "sg \<equiv> Some (next_id s, 0 :: nat)"
  shows "append_array_type e p v s =
     bnd (write_call e (p_msg p) (OpenContainer (CHR ''a'') (sig_of t))) (\<lambda>_.
     bnd (getindexed v) (\<lambda>items.
     bnd (append_array_items e \<lparr>p_msg = p_msg p, p_cursor = sg\<rparr> items) (\<lambda>_.
     bnd (write_call e (p_msg p) CloseContainer) (\<lambda>_.
     bnd (janet_sfree sg) (\<lambda>_.
     ret (at_end p (TArray t))))))) (copied (sig_of t @ [NUL]) s)" (is "_ = ?rhs")
    and "points_to (copied (sig_of t @ [NUL]) s) sg (sig_of t)"
proof -
  let ?n = "length (sig_of t)"
  let ?u = "copied (sig_of t @ [NUL]) s"
  obtain x xs where sig: "sig_of t = x # xs" by (cases "sig_of t") auto
  have peek: "peek p s = (Inr x, s)" using p sig by (simp add: peek_points_to)
  have x: "x \<noteq> CHR ''{''" "x \<noteq> CHR ''y''" using hd_sig_of [OF t(1)] t(2) sig by auto
  have str: "ld_str (p_cursor p) s = (Inr (sig_of (TArray t) @ rest), s)"
    using p by (rule points_to_ld_str)
  have sub: "find_subtype (sig_of (TArray t) @ rest) = Inr ?n"
    using find_subtype_sig_of [of "TArray t" rest] t(1) by simp
  have p1: "points_to s (cadd (p_cursor p) 1) (sig_of t @ rest)"
    using p points_to_cadd1 by simp
  have copy: "bnd (janet_scalloc (Suc ?n)) (\<lambda>sg. bnd (memcpy sg (cadd (p_cursor p) (Suc 0)) ?n) (\<lambda>_. k sg)) s
      = k sg ?u" for k :: "cptr \<Rightarrow> ('w, parser) prog"
    using scalloc_copy [OF p1, of ?n k] by (simp add: sg_def)
  show sg: "points_to ?u sg (sig_of t)"
    using points_to_copied [OF sig_of_no_NUL [OF t(1)]] by (simp add: sg_def)
  have skip: "skip p ?n ?u = (Inr (at_end p (TArray t)), ?u)"
    using skip_points_to [OF frame_points_to [OF frame_copied p], of ?n] by (simp add: at_end_def)
  show "append_array_type e p v s = ?rhs"
    unfolding append_array_type.simps bnd_Inr [where m = "peek p", OF peek]
    by (simp add: x bnd_Inr [where m = "ld_str (p_cursor p)", OF str] sub copy
        bnd_Inr [where m = "skip p ?n", OF skip]
        bnd_Inr [where m = "ld_str sg", OF points_to_ld_str [OF sg]]
        del: find_subtype.simps sig_of.simps)
qed

lemma append_array_appends:
  assumes p: "points_to s (p_cursor p) (sig_of (TArray t) @ rest)"
    and ix: "indexed_view v = Some vs" and t: "wf_ty t" "t \<noteq> TBasic (CHR ''y'')"
    and IH: "\<And>s1 q. conv e s1 = conv e s \<Longrightarrow> points_to s1 (p_cursor q) (sig_of t) \<Longrightarrow>
      appends e (p_msg q) cs () s1 s1 (append_array_items e q vs s1)"
  shows "appends e (p_msg p) (OpenContainer (CHR ''a'') (sig_of t) # cs @ [CloseContainer])
     (at_end p (TArray t)) s s (append_array_type e p v s)"
proof -
  define sg where "sg = Some (next_id s, 0 :: nat)"
  define u where "u = copied (sig_of t @ [NUL]) s"
  note run = append_array_run [OF p t, folded sg_def u_def]
  have fr: "frame s u" and ext1: "ext u = ext s" by (simp_all add: u_def)
  let ?q = "\<lparr>p_msg = p_msg p, p_cursor = sg\<rparr>"
  have items: "appends e (p_msg p) cs () z z (append_array_items e ?q vs z)" if "frame u z" for z
    using IH [of z ?q] frame_conv [OF frame_trans [OF fr that]] frame_points_to [OF that run(2)]
    by simp
  have finish: "appends e (p_msg p) [CloseContainer] (at_end p (TArray t)) s z
      (bnd (write_call e (p_msg p) CloseContainer) (\<lambda>_.
       bnd (janet_sfree sg) (\<lambda>_. ret (at_end p (TArray t)))) z)" if "frame u z" for z
    using close_and_free [OF frame_trans [OF fr that] order_refl] by (simp add: sg_def)
  have main: "appends e (p_msg p) (OpenContainer (CHR ''a'') (sig_of t) # cs @ [CloseContainer])
      (at_end p (TArray t)) s u
      (bnd (write_call e (p_msg p) (OpenContainer (CHR ''a'') (sig_of t))) (\<lambda>_.
       bnd (append_array_items e ?q vs) (\<lambda>_.
       bnd (write_call e (p_msg p) CloseContainer) (\<lambda>_.
       bnd (janet_sfree sg) (\<lambda>_. ret (at_end p (TArray t)))))) u)"
    by (rule appends_write, rule appends_bnd, erule items) (rule finish, rule frame_trans)
  show ?thesis unfolding run(1) getindexed_def by (simp add: ix appends_start [OF ext1 main])
qed

lemma append_bytes_appends:
  assumes p: "points_to s (p_cursor p) (sig_of (TArray (TBasic (CHR ''y''))) @ rest)"
    and bs: "bytes_view v = Some bs"
  shows "appends e (p_msg p) [AppendArray (CHR ''y'') bs]
     (at_end p (TArray (TBasic (CHR ''y'')))) s s (append_array_type e p v s)"
proof -
  have peek: "peek p s = (Inr (CHR ''y''), s)" using p by (simp add: peek_points_to)
  have nxt: "next_c p s = (Inr (at_end p (TArray (TBasic (CHR ''y'')))), s)"
    using next_points_to [of s p] p by (simp add: at_end_def)
  show ?thesis
    unfolding append_array_type.simps getbytes_def
    by (rule appends_same, rule peek)
      (simp add: bs bnd_Inr [where m = "next_c p", OF nxt] appends_write appends_ret)
qed

text \<open>The scratch block of a dictionary, once the braces are stripped from it.\<close>

definition stripped :: "nat \<Rightarrow> string \<Rightarrow> 'w world \<Rightarrow> 'w world" where
  "stripped b str s = s\<lparr>scratch := (scratch s)(b \<mapsto> str @ NUL # [CHR ''}'', NUL])\<rparr>"

lemma stripped:
  assumes "frame s u" and "next_id s < next_id u" and "frame u z" and "NUL \<notin> set str"
  shows "frame s (stripped (next_id s) str z)"
    and "points_to (stripped (next_id s) str z) (Some (next_id s, 0)) str"
    and "ext (stripped (next_id s) str z) = ext z"
proof -
  have z: "frame s z" "next_id s < next_id z"
    using frame_trans [OF assms(1,3)] assms(2,3) by (auto simp: frame_def mem_ext_def)
  then show "frame s (stripped (next_id s) str z)" by (auto simp: stripped_def frame_def mem_ext_def)
  show "points_to (stripped (next_id s) str z) (Some (next_id s, 0)) str"
    using points_toI [of "stripped (next_id s) str z" "next_id s" "[]" str "[CHR ''}'', NUL]"]
      assms(4) z(2) by (simp add: stripped_def)
  show "ext (stripped (next_id s) str z) = ext z" by (simp add: stripped_def)
qed

lemma append_dict_run:
  fixes s :: "'w world"
  assumes p: "points_to s (p_cursor p) (sig_of (TDict k t) @ rest)"
    and k: "k \<in> set basic_codes" and t: "wf_ty t"
  defines "sg \<equiv> Some (next_id s, 0 :: nat)"
  shows "append_array_type e p v s =
     bnd (write_call e (p_msg p)
            (OpenContainer (CHR ''a'') (CHR ''{'' # k # sig_of t @ [CHR ''}'']))) (\<lambda>_.
     bnd (upd (stripped (next_id s) (k # sig_of t))) (\<lambda>_.
     bnd (getdictionary v) (\<lambda>dict.
     bnd (append_dict_entries e \<lparr>p_msg = p_msg p, p_cursor = sg\<rparr> dict) (\<lambda>_.
     bnd (write_call e (p_msg p) CloseContainer) (\<lambda>_.
     bnd (janet_sfree sg) (\<lambda>_.
     ret (at_end p (TDict k t)))))))) (copied ((CHR ''{'' # k # sig_of t @ [CHR ''}'']) @ [NUL]) s)"
    (is "_ = ?rhs")
    and "points_to (copied ((CHR ''{'' # k # sig_of t @ [CHR ''}'']) @ [NUL]) s) sg
       (CHR ''{'' # k # sig_of t @ [CHR ''}''])"
proof -
  let ?m = "length (sig_of t)"
  let ?sig = "CHR ''{'' # k # sig_of t @ [CHR ''}'']"
  define u where "u = copied (?sig @ [NUL]) s"
  have peek: "peek p s = (Inr (CHR ''{''), s)" using p by (simp add: peek_points_to)
  define p1 where "p1 = p\<lparr>p_cursor := cadd (p_cursor p) 1\<rparr>"
  have pm: "p_msg p1 = p_msg p" by (simp add: p1_def)
  have nxt: "next_c p s = (Inr p1, s)" using next_points_to [of s p] p by (simp add: p1_def)
  have at1: "points_to s (p_cursor p1) (?sig @ rest)" using p points_to_cadd1 by (simp add: p1_def)
  have str: "ld_str (p_cursor p1) s = (Inr (?sig @ rest), s)" using at1 by (rule points_to_ld_str)
  note mt = match_entry [OF t k, of rest]
  have m: "1 \<le> ?m" by (cases "sig_of t") auto
  have noNUL: "NUL \<notin> set ?sig"
    using sig_of_no_NUL [OF t] basic_codes_not [OF k] by (auto simp: NUL_def)
  have copy: "bnd (janet_scalloc (Suc (Suc (Suc (Suc ?m))))) (\<lambda>sg.
       bnd (memcpy sg (p_cursor p1) (Suc (Suc (Suc ?m)))) (\<lambda>_. k' sg)) s = k' sg u"
    for k' :: "cptr \<Rightarrow> ('w, parser) prog"
    using scalloc_copy [OF at1, of "Suc (Suc (Suc ?m))" k'] by (simp add: sg_def u_def)
  have sg: "points_to u sg ?sig" using points_to_copied [OF noNUL] by (simp add: sg_def u_def)
  then show "points_to (copied (?sig @ [NUL]) s) sg ?sig" by (simp only: u_def)
  have key: "ld (cadd sg (Suc 0)) u = (Inr k, u)"
    using points_to_ld_Cons [OF points_to_cadd1 [OF sg]] .
  have skip: "skip p1 (Suc (Suc ?m)) u = (Inr (at_end p (TDict k t)), u)"
    using skip_points_to [OF frame_points_to [OF frame_copied [of s "?sig @ [NUL]", folded u_def] at1], of "Suc (Suc ?m)"]
    by (simp add: at_end_def p1_def)
  have strip: "bnd (memmove sg (cadd sg (Suc 0)) (Suc ?m)) (\<lambda>_.
       bnd (st_bytes (cadd sg (Suc ?m)) [NUL]) (\<lambda>_. k')) (u\<lparr>ext := w\<rparr>)
     = bnd (upd (stripped (next_id s) (k # sig_of t))) (\<lambda>_. k') (u\<lparr>ext := w\<rparr>)"
    for w and k' :: "('w, parser) prog"
    by (simp add: memmove_def ld_bytes_def st_bytes_def deref_def bnd_apply sg_def stripped_def u_def)
  have open_strip: "bnd (write_call e (p_msg p) (OpenContainer (CHR ''a'') ?sig)) (\<lambda>_.
       bnd (memmove sg (cadd sg (Suc 0)) (Suc ?m)) (\<lambda>_.
       bnd (st_bytes (cadd sg (Suc ?m)) [NUL]) (\<lambda>_. k'))) u
     = bnd (write_call e (p_msg p) (OpenContainer (CHR ''a'') ?sig)) (\<lambda>_.
       bnd (upd (stripped (next_id s) (k # sig_of t))) (\<lambda>_. k')) u"
    for k' :: "('w, parser) prog"
  proof -
    obtain rv w where "sd_write e (p_msg p) (OpenContainer (CHR ''a'') ?sig) (ext u) = (rv, w)"
      by fastforce
    then show ?thesis
      using strip [of k' w] unfolding write_call_def bnd_apply [where m = "CALL_SD_BUS_FUNC f g" for f g]
      by (simp del: upd_apply bnd_upd)
  qed
  show "append_array_type e p v s = ?rhs"
    unfolding append_array_type.simps u_def [symmetric] bnd_Inr [where m = "peek p", OF peek]
    by (simp add: bnd_Inr [where m = "next_c p", OF nxt] pm append_dict_type.simps
        bnd_Inr [where m = "ld_str (p_cursor p1)", OF str] mt m copy k
        bnd_Inr [where m = "skip p1 (Suc (Suc ?m))", OF skip]
        bnd_Inr [where m = "ld (cadd sg (Suc 0))", OF key]
        bnd_Inr [where m = "ld_str sg", OF points_to_ld_str [OF sg]] open_strip del: match.simps)
qed

lemma append_dict_appends:
  assumes p: "points_to s (p_cursor p) (sig_of (TDict k t) @ rest)"
    and dv: "dictionary_view v = Some kvs" and k: "k \<in> set basic_codes" and t: "wf_ty t"
    and IH: "\<And>s1 q. conv e s1 = conv e s \<Longrightarrow> points_to s1 (p_cursor q) (k # sig_of t) \<Longrightarrow>
      appends e (p_msg q) cs () s1 s1 (append_dict_entries e q kvs s1)"
  shows "appends e (p_msg p)
     (OpenContainer (CHR ''a'') (CHR ''{'' # k # sig_of t @ [CHR ''}'']) # cs @ [CloseContainer])
     (at_end p (TDict k t)) s s (append_array_type e p v s)"
proof -
  let ?sig = "CHR ''{'' # k # sig_of t @ [CHR ''}'']"
  define sg where "sg = Some (next_id s, 0 :: nat)"
  define u where "u = copied (?sig @ [NUL]) s"
  note run = append_dict_run [OF p k t, folded sg_def u_def]
  have noNUL: "NUL \<notin> set (k # sig_of t)" using sig_of_no_NUL [OF t] basic_codes_not [OF k] by auto
  have fr: "frame s u" and ext1: "ext u = ext s" and id: "next_id s < next_id u"
    by (simp_all add: u_def)
  note strip = stripped [OF fr id _ noNUL]
  let ?q = "\<lparr>p_msg = p_msg p, p_cursor = sg\<rparr>"
  let ?st = "stripped (next_id s) (k # sig_of t)"
  have body: "appends e (p_msg p) (cs @ [CloseContainer]) (at_end p (TDict k t)) s z
      (bnd (upd ?st) (\<lambda>_.
       bnd (append_dict_entries e ?q kvs) (\<lambda>_.
       bnd (write_call e (p_msg p) CloseContainer) (\<lambda>_.
       bnd (janet_sfree sg) (\<lambda>_. ret (at_end p (TDict k t)))))) z)" if z: "frame u z" for z
    unfolding bnd_upd
  proof (rule appends_start [OF strip(3) [OF z]], rule appends_bnd)
    show "appends e (p_msg p) cs () (?st z) (?st z) (append_dict_entries e ?q kvs (?st z))"
      using IH [of "?st z" ?q] strip(2) [OF z] frame_conv [OF strip(1) [OF z]] by (simp add: sg_def)
    show "appends e (p_msg p) [CloseContainer] (at_end p (TDict k t)) s y
       (bnd (write_call e (p_msg p) CloseContainer) (\<lambda>_.
        bnd (janet_sfree sg) (\<lambda>_. ret (at_end p (TDict k t)))) y)" if "frame (?st z) y" for y
      using close_and_free [OF frame_trans [OF strip(1) [OF z] that] order_refl]
      by (simp add: sg_def)
  qed
  have main: "appends e (p_msg p) (OpenContainer (CHR ''a'') ?sig # cs @ [CloseContainer])
      (at_end p (TDict k t)) s u
      (bnd (write_call e (p_msg p) (OpenContainer (CHR ''a'') ?sig)) (\<lambda>_.
       bnd (upd ?st) (\<lambda>_.
       bnd (append_dict_entries e ?q kvs) (\<lambda>_.
       bnd (write_call e (p_msg p) CloseContainer) (\<lambda>_.
       bnd (janet_sfree sg) (\<lambda>_. ret (at_end p (TDict k t))))))) u)"
    by (rule appends_write) (rule body)
  show ?thesis unfolding run(1) getdictionary_def by (simp add: dv appends_start [OF ext1 main])
qed

text \<open>The loops over the items of a container.\<close>

lemma append_struct_items_Cons:
  assumes p: "points_to s (p_cursor p) (sig_of t @ rest)" and wf: "wf_ty t"
    and item: "appends e (p_msg p) cs (at_end p t) s s (append_complete_type e p v s)"
    and items: "\<And>s1 q. frame s s1 \<Longrightarrow> p_msg q = p_msg p \<Longrightarrow>
      p_cursor q = cadd (p_cursor p) (length (sig_of t)) \<Longrightarrow> points_to s1 (p_cursor q) rest \<Longrightarrow>
      appends e (p_msg p) cs' y s1 s1 (append_struct_items e q c vs s1)"
  shows "appends e (p_msg p) (cs @ cs') y s s (append_struct_items e p c (v # vs) s)"
proof -
  obtain x xs where sig: "sig_of t = x # xs" by (cases "sig_of t") auto
  have x: "x \<noteq> NUL" using sig_of_no_NUL [OF wf] sig by auto
  let ?q = "p\<lparr>p_cursor := cadd (p_cursor p) (length (sig_of t))\<rparr>"
  have rest: "appends e (p_msg p) cs' y s u
      (bnd (next_c (at_end p t)) (\<lambda>sp. append_struct_items e sp c vs) u)" if "frame s u" for u
  proof -
    have at: "points_to u (p_cursor p) (sig_of t @ rest)" using that p by (rule frame_points_to)
    have "appends e (p_msg p) cs' y s u (append_struct_items e ?q c vs u)"
      by (rule appends_weaken [OF _ that], rule items)
        (use that next_after_type(2) [OF at] in simp_all)
    then show ?thesis using next_after_type(1) [OF at] by (simp add: bnd_Inr)
  qed
  show ?thesis
    unfolding append_struct_items.simps
    by (rule appends_same, rule cursor_points_to, rule p [unfolded sig, simplified],
        simp add: x, rule appends_bnd, rule item, rule rest)
qed

theorem append_encodes:
  fixes e :: "'w env"
  assumes laws: "janet_laws e"
  shows
   "enc e s0 t v cs \<Longrightarrow> conv e s = conv e s0 \<Longrightarrow> points_to s (p_cursor p) (sig_of t @ rest) \<Longrightarrow>
      appends e (p_msg p) cs (at_end p t) s s (append_complete_type e p v s)"
   "enc_fields e s0 ts vs cs \<Longrightarrow> conv e s = conv e s0 \<Longrightarrow> points_to s (p_cursor p) (sigs_of ts) \<Longrightarrow>
      appends e (p_msg p) cs (p\<lparr>p_cursor := cadd (p_cursor p) (length (sigs_of ts))\<rparr>) s s
        (append_struct_items e p c vs s)"
   "enc_elems e s0 t vs cs \<Longrightarrow> conv e s = conv e s0 \<Longrightarrow> points_to s (p_cursor p) (sig_of t) \<Longrightarrow>
      appends e (p_msg p) cs () s s (append_array_items e p vs s)"
   "enc_entries e s0 k t kvs cs \<Longrightarrow> k \<in> set basic_codes \<Longrightarrow> conv e s = conv e s0 \<Longrightarrow>
      points_to s (p_cursor p) (k # sig_of t) \<Longrightarrow>
      appends e (p_msg p) cs () s s (append_dict_entries e p kvs s)"
proof (induction arbitrary: s p rest and s p c and s p and s p
    rule: enc_enc_fields_enc_elems_enc_entries.inducts)
  case (basic ch v b)
  then have at: "points_to s (p_cursor p) (ch # rest)" by simp
  have c: "conv e s ch v = Some b" using basic.IH(1) basic.prems(1) by simp
  show ?case
  proof (rule complete_wrap [OF basic.prems(2)])
    show "wf_ty (TBasic ch)" using basic.hyps(1) by simp
    fix s1 assume at1: "points_to s1 (p_cursor p) (sig_of (TBasic ch) @ rest)"
      and c1: "conv e s1 = conv e s"
    have "appends e (p_msg p) [AppendBasic b] () s1 s1 (append_basic_type e p v s1)"
      using append_basic_appends [OF laws basic.hyps(1)] at1 c c1 by simp
    then have "appends e (p_msg p) ([AppendBasic b] @ []) p s1 s1
        (bnd (append_basic_type e p v) (\<lambda>_. ret p) s1)"
      by (rule appends_bnd) (simp add: appends_ret)
    then show "appends e (p_msg p) [AppendBasic b] (at_end p (TBasic ch)) s1 s1
        (dispatch e p v (hd (sig_of (TBasic ch))) s1)"
      using basic.hyps(1) by (simp add: dispatch_def at_end_def)
  qed
next
  case (variant sg t v cs)
  show ?case
  proof (rule complete_wrap [OF variant.prems(2)])
    fix s1 assume at1: "points_to s1 (p_cursor p) (sig_of TVariant @ rest)"
      and c1: "conv e s1 = conv e s"
    have "appends e (p_msg p) (OpenContainer (CHR ''v'') (sig_of t) # cs @ [CloseContainer]) p s1 s1
        (append_variant_type e p (JTuple [JString sg, v]) s1)"
    proof (rule append_variant_appends [OF laws at1 variant.IH(1) variant.hyps(1)])
      show "appends e (p_msg q) cs (at_end q t) s2 s2 (append_complete_type e q v s2)"
        if "conv e s2 = conv e s1" "points_to s2 (p_cursor q) (sig_of t @ [])" for s2 q
        using variant.IH(3) [of s2 q "[]"] that variant.prems(1) c1 by simp
    qed
    then show "appends e (p_msg p) (OpenContainer (CHR ''v'') (sig_of t) # cs @ [CloseContainer])
        (at_end p TVariant) s1 s1 (dispatch e p (JTuple [JString sg, v]) (hd (sig_of TVariant)) s1)"
      by (simp add: dispatch_def at_end_def)
  qed simp
next
  case (struct v vs ts cs)
  have wf: "\<forall>t \<in> set ts. wf_ty t" using struct.IH(1) by (rule enc_fields_wf)
  have vs: "vs \<noteq> []" using struct.hyps(2) struct.IH(1) by (auto elim: enc_fields.cases)
  show ?case
  proof (rule complete_wrap [OF struct.prems(2)])
    show "wf_ty (TStruct ts)" using wf struct.hyps(2) by simp
    fix s1 assume at1: "points_to s1 (p_cursor p) (sig_of (TStruct ts) @ rest)"
      and c1: "conv e s1 = conv e s"
    show "appends e (p_msg p) (OpenContainer (CHR ''r'') (sigs_of ts) # cs @ [CloseContainer])
        (at_end p (TStruct ts)) s1 s1 (dispatch e p v (hd (sig_of (TStruct ts))) s1)"
      using append_struct_appends [OF at1 struct.hyps(1,2) wf vs] struct.IH(2) struct.prems(1) c1
      by (simp add: dispatch_def)
  qed
next
  case (bytes v bs)
  show ?case
  proof (rule complete_wrap [OF bytes.prems(2)])
    fix s1 :: "'w world"
    assume at1: "points_to s1 (p_cursor p) (sig_of (TArray (TBasic (CHR ''y''))) @ rest)"
    show "appends e (p_msg p) [AppendArray (CHR ''y'') bs] (at_end p (TArray (TBasic (CHR ''y''))))
        s1 s1 (dispatch e p v (hd (sig_of (TArray (TBasic (CHR ''y''))))) s1)"
      using append_bytes_appends [OF at1 bytes.hyps] by (simp add: dispatch_def)
  qed (simp add: basic_codes_def)
next
  case (array t v vs cs)
  show ?case
  proof (rule complete_wrap [OF array.prems(2)])
    show "wf_ty (TArray t)" using array.hyps(2) by simp
    fix s1 assume at1: "points_to s1 (p_cursor p) (sig_of (TArray t) @ rest)"
      and c1: "conv e s1 = conv e s"
    show "appends e (p_msg p) (OpenContainer (CHR ''a'') (sig_of t) # cs @ [CloseContainer])
        (at_end p (TArray t)) s1 s1 (dispatch e p v (hd (sig_of (TArray t))) s1)"
      using append_array_appends [OF at1 array.hyps(3,2,1)] array.IH(2) array.prems(1) c1
      by (simp add: dispatch_def)
  qed
next
  case (dict k t v kvs cs)
  show ?case
  proof (rule complete_wrap [OF dict.prems(2)])
    show "wf_ty (TDict k t)" using dict.hyps(1,2) by simp
    fix s1 assume at1: "points_to s1 (p_cursor p) (sig_of (TDict k t) @ rest)"
      and c1: "conv e s1 = conv e s"
    show "appends e (p_msg p)
        (OpenContainer (CHR ''a'') (CHR ''{'' # k # sig_of t @ [CHR ''}'']) # cs @ [CloseContainer])
        (at_end p (TDict k t)) s1 s1 (dispatch e p v (hd (sig_of (TDict k t))) s1)"
      using append_dict_appends [OF at1 dict.hyps(3,1,2)] dict.IH(2) dict.hyps(1) dict.prems(1) c1
      by (simp add: dispatch_def)
  qed
next
  case fields_Nil
  then show ?case by (simp add: appends_ret)
next
  case (fields_Cons t v cs ts vs cs')
  have at: "points_to s (p_cursor p) (sig_of t @ sigs_of ts)" using fields_Cons.prems(2) by simp
  show ?case
  proof (rule append_struct_items_Cons [OF at fields_Cons.hyps(1)])
    show "appends e (p_msg p) cs (at_end p t) s s (append_complete_type e p v s)"
      using fields_Cons.IH(2) fields_Cons.prems(1) at by blast
    fix s1 :: "'w world" and q :: parser
    assume "frame s s1" and q: "p_msg q = p_msg p"
      "p_cursor q = cadd (p_cursor p) (length (sig_of t))" and "points_to s1 (p_cursor q) (sigs_of ts)"
    then have "appends e (p_msg q) cs' (q\<lparr>p_cursor := cadd (p_cursor q) (length (sigs_of ts))\<rparr>) s1 s1
        (append_struct_items e q c vs s1)"
      using fields_Cons.IH(4) fields_Cons.prems(1) frame_conv by metis
    moreover have "q\<lparr>p_cursor := cadd (p_cursor q) (length (sigs_of ts))\<rparr>
        = p\<lparr>p_cursor := cadd (p_cursor p) (length (sigs_of (t # ts)))\<rparr>"
      using q by simp
    ultimately show "appends e (p_msg p) cs'
        (p\<lparr>p_cursor := cadd (p_cursor p) (length (sigs_of (t # ts)))\<rparr>) s1 s1
        (append_struct_items e q c vs s1)"
      using q(1) by simp
  qed
next
  case (elems_Nil t)
  then show ?case by (simp add: appends_ret)
next
  case (elems_Cons t v cs vs cs')
  have item: "appends e (p_msg p) cs (at_end p t) s s (append_complete_type e p v s)"
    using elems_Cons.IH(2) [of s p "[]"] elems_Cons.prems by simp
  show ?case
    unfolding append_array_items.simps
  proof (rule appends_bnd, rule item)
    fix u assume "frame s u"
    then show "appends e (p_msg p) cs' () s u (append_array_items e p vs u)"
      using elems_Cons.IH(4) [of u p] elems_Cons.prems frame_conv frame_points_to appends_weaken
      by metis
  qed
next
  case (entries_Nil k t)
  then show ?case by (simp add: appends_ret)
next
  case (entries_Cons k key b t v cs kvs cs')
  have p: "points_to s (p_cursor p) (k # sig_of t)" by (rule entries_Cons.prems(3))
  have noNUL: "k \<noteq> NUL" using basic_codes_not [OF entries_Cons.prems(1)] by simp
  let ?vp = "p\<lparr>p_cursor := cadd (p_cursor p) 1\<rparr>"
  have key: "appends e (p_msg p) [AppendBasic b] () u u (append_basic_type e p key u)"
    if "frame s u" for u
    using append_basic_appends [OF laws entries_Cons.prems(1) frame_points_to [OF that p]]
      entries_Cons.IH(1) entries_Cons.prems(2) frame_conv [OF that] by simp
  have val: "appends e (p_msg p) cs (at_end ?vp t) u u (append_complete_type e ?vp v u)"
    if "frame s u" for u
    using entries_Cons.IH(3) [of u ?vp "[]"] entries_Cons.prems(2) frame_conv [OF that]
      points_to_cadd1 [OF frame_points_to [OF that p]] by simp
  have more: "appends e (p_msg p) cs' () s u (append_dict_entries e p kvs u)" if "frame s u" for u
    using entries_Cons.IH(5) [of u p] entries_Cons.prems(1,2) frame_conv [OF that]
      frame_points_to [OF that p] by (intro appends_weaken [OF _ that]) simp
  have tail: "appends e (p_msg p) (CloseContainer # cs') () s u
      (bnd (write_call e (p_msg p) CloseContainer) (\<lambda>_. append_dict_entries e p kvs) u)"
    if "frame s u" for u
    by (rule appends_write, rule more, rule frame_trans, rule that)
  have entry: "appends e (p_msg p) (cs @ CloseContainer # cs') () s u
      (bnd (next_c p) (\<lambda>vp. bnd (append_complete_type e vp v) (\<lambda>_.
       bnd (write_call e (p_msg p) CloseContainer) (\<lambda>_. append_dict_entries e p kvs))) u)"
    if u: "frame s u" for u
    by (rule appends_same, rule next_points_to, rule frame_points_to, rule u, rule p,
        rule appends_bnd, rule val, rule u, rule tail, rule frame_trans, rule u)
  have "appends e (p_msg p) (OpenContainer (CHR ''e'') (k # sig_of t) #
        ([AppendBasic b] @ (cs @ CloseContainer # cs'))) () s s
      (append_dict_entries e p ((key, v) # kvs) s)"
    unfolding append_dict_entries.simps
    by (rule appends_same, rule points_to_ld_str, rule p, rule appends_write, rule appends_bnd,
        rule key, assumption, rule entry, rule frame_trans)
  then show ?case by simp
qed

subsection \<open>The whole argument list\<close>

text \<open>The outcome of the argument loop, which also counts arguments in the error context.\<close>

definition arg_frame :: "'w world \<Rightarrow> 'w world \<Rightarrow> bool" where
  "arg_frame s t \<longleftrightarrow> mem_ext s t \<and> files t = files s \<and> streams t = streams s \<and> pend t = pend s
     \<and> asyncs t = asyncs s \<and> exports t = exports s \<and> conns t = conns s \<and> msgs t = msgs s
     \<and> slots t = slots s \<and> trace t = trace s \<and> fibers t = fibers s \<and> roots t = roots s
     \<and> ec_depth (errctx t) = ec_depth (errctx s)"

lemma arg_frame_trans: "arg_frame s t \<Longrightarrow> arg_frame t u \<Longrightarrow> arg_frame s u"
  by (auto simp: arg_frame_def intro: mem_ext_trans)

lemma frame_arg_frame: "frame s t \<Longrightarrow> arg_frame s t"
  by (simp add: frame_def arg_frame_def)

lemma arg_frame_conv: "arg_frame s t \<Longrightarrow> conv e t = conv e s"
  by (rule conv_same) (simp_all add: arg_frame_def)

lemma arg_frame_points_to: "arg_frame s t \<Longrightarrow> points_to s c str \<Longrightarrow> points_to t c str"
  by (auto simp: arg_frame_def intro: mem_ext_points_to)

definition runs_as ::
  "'w env \<Rightarrow> ptr \<Rightarrow> wcall list \<Rightarrow> 'a \<Rightarrow> 'w world \<Rightarrow> (panic + 'a) \<times> 'w world \<Rightarrow> bool" where
  "runs_as e m cs x s r \<longleftrightarrow>
     ext (snd r) = snd (run_calls e m cs (ext s)) \<and>
     (case fst (run_calls e m cs (ext s)) of
        Inl p \<Rightarrow> fst r = Inl p
      | Inr _ \<Rightarrow> fst r = Inr x \<and> arg_frame s (snd r))"

lemma runs_as_bnd:
  assumes "appends e m cs x s s (m1 s)"
    and "\<And>t. frame s t \<Longrightarrow> runs_as e m cs' y t (f x t)"
  shows "runs_as e m (cs @ cs') y s (bnd m1 f s)"
proof (cases "fst (run_calls e m cs (ext s))")
  case (Inl p)
  obtain t where "m1 s = (Inl p, t)" "ext t = snd (run_calls e m cs (ext s))"
    using assms(1) Inl by (cases "m1 s") (auto simp: appends_def)
  then show ?thesis
    using Inl by (auto simp: runs_as_def run_calls_append bnd_Inl split: prod.split sum.split)
next
  case (Inr u)
  obtain t where t: "m1 s = (Inr x, t)" "frame s t" "ext t = snd (run_calls e m cs (ext s))"
    using assms(1) Inr by (cases "m1 s") (auto simp: appends_def)
  have "run_calls e m (cs @ cs') (ext s) = run_calls e m cs' (ext t)"
    using Inr t(3) by (auto simp: run_calls_append split: prod.split)
  moreover have "runs_as e m cs' y t (f x t)" by (rule assms(2) [OF t(2)])
  ultimately show ?thesis
    using t frame_arg_frame [OF t(2)]
    by (auto simp: runs_as_def bnd_Inr intro: arg_frame_trans split: sum.split)
qed

lemma runs_as_same:
  "m1 s = (Inr z, s) \<Longrightarrow> runs_as e m cs y s (f z s) \<Longrightarrow> runs_as e m cs y s (bnd m1 f s)"
  by (simp add: runs_as_def bnd_Inr)

lemma runs_as_inc:
  assumes "\<And>t. ext t = ext s \<Longrightarrow> arg_frame s t \<Longrightarrow> runs_as e m cs y t (f () t)"
  shows "runs_as e m cs y s (bnd dbus_errctx_inc f s)"
proof -
  define t where "t = s\<lparr>errctx := (errctx s)\<lparr>ec_argc := Suc (ec_argc (errctx s))\<rparr>\<rparr>"
  have t: "ext t = ext s" "arg_frame s t" by (simp_all add: t_def arg_frame_def mem_ext_def)
  have "bnd dbus_errctx_inc f s = f () t" by (simp add: dbus_errctx_inc_def bnd_upd t_def)
  then show ?thesis
    using assms [OF t] t by (auto simp: runs_as_def intro: arg_frame_trans split: sum.splits)
qed

lemma append_args_run:
  assumes "janet_laws e" and "enc_fields e s0 ts vs cs" and "conv e s = conv e s0"
    and "points_to s (p_cursor p) (sigs_of ts)"
  shows "runs_as e (p_msg p) cs (p\<lparr>p_cursor := cadd (p_cursor p) (length (sigs_of ts))\<rparr>) s
     (append_args e p sg vs s)"
  using assms(2-4)
proof (induction vs arbitrary: ts cs s p)
  case Nil
  then have "ts = [] \<and> cs = []" by (auto elim: enc_fields.cases)
  then show ?case by (simp add: runs_as_def arg_frame_def)
next
  case (Cons v vs)
  from Cons.prems(1) obtain t ts' cs1 cs2 where ts: "ts = t # ts'" "cs = cs1 @ cs2"
    and t: "wf_ty t" "enc e s0 t v cs1" and more: "enc_fields e s0 ts' vs cs2"
    by (auto elim: enc_fields.cases)
  obtain x xs where sig: "sig_of t = x # xs" by (cases "sig_of t") auto
  have x: "x \<noteq> NUL" using sig_of_no_NUL [OF t(1)] sig by auto
  have at: "points_to s (p_cursor p) (sig_of t @ sigs_of ts')" using Cons.prems(3) ts by simp
  let ?q = "p\<lparr>p_cursor := cadd (p_cursor p) (length (sig_of t))\<rparr>"
  have rest: "runs_as e (p_msg p) cs2 (p\<lparr>p_cursor := cadd (p_cursor p) (length (sigs_of ts))\<rparr>) u
      (bnd (next_c (at_end p t)) (\<lambda>p. append_args e p sg vs) u)" if u: "arg_frame s u" for u
  proof (rule runs_as_same, rule next_after_type(1), rule arg_frame_points_to [OF u at])
    have "points_to u (p_cursor ?q) (sigs_of ts')"
      using next_after_type(2) [OF arg_frame_points_to [OF u at]] by simp
    then show "runs_as e (p_msg p) cs2 (p\<lparr>p_cursor := cadd (p_cursor p) (length (sigs_of ts))\<rparr>) u
        (append_args e ?q sg vs u)"
      using Cons.IH [OF more, of u ?q] arg_frame_conv [OF u] Cons.prems(2) ts by simp
  qed
  have item: "runs_as e (p_msg p) (cs1 @ cs2)
      (p\<lparr>p_cursor := cadd (p_cursor p) (length (sigs_of ts))\<rparr>) u
      (bnd (append_complete_type e p v) (\<lambda>p. bnd (next_c p) (\<lambda>p. append_args e p sg vs)) u)"
    if u: "arg_frame s u" for u
  proof (rule runs_as_bnd)
    show "appends e (p_msg p) cs1 (at_end p t) u u (append_complete_type e p v u)"
      using append_encodes(1) [OF assms(1) t(2)] arg_frame_conv [OF u] Cons.prems(2)
        arg_frame_points_to [OF u at] by metis
    fix w assume "frame u w"
    then show "runs_as e (p_msg p) cs2 (p\<lparr>p_cursor := cadd (p_cursor p) (length (sigs_of ts))\<rparr>) w
       (bnd (next_c (at_end p t)) (\<lambda>p. append_args e p sg vs) w)"
      by (intro rest arg_frame_trans [OF u frame_arg_frame])
  qed
  show ?case
    unfolding append_args.simps ts(2)
    by (rule runs_as_same, rule cursor_points_to, rule at [unfolded sig, simplified],
        simp add: x, rule runs_as_inc, rule item)
qed

lemma append_data_run:
  assumes laws: "janet_laws e" and enc: "enc_fields e s ts args cs"
    and sig: "points_to s signature (sigs_of ts)"
  shows "runs_as e m cs () (s\<lparr>errctx := empty_errctx\<rparr>) (append_data e m signature args s)"
proof -
  define s1 where "s1 = s\<lparr>errctx := empty_errctx\<rparr>"
  let ?p = "\<lparr>p_msg = m, p_cursor = signature\<rparr>"
  let ?q = "?p\<lparr>p_cursor := cadd signature (length (sigs_of ts))\<rparr>"
  have at: "points_to s1 signature (sigs_of ts)" using sig by (simp add: s1_def points_to_def)
  have conv: "conv e s1 = conv e s" by (rule conv_same) (simp_all add: s1_def)
  have args: "runs_as e m cs ?q s1 (append_args e ?p signature args s1)"
    using append_args_run [OF laws enc conv, of ?p] at by simp
  have finish: "(bnd (cursor ?q) (\<lambda>ch. if ch \<noteq> NUL then panic_sig f signature else ret ())) t
      = (Inr (), t)" if "arg_frame s1 t" for t f
  proof -
    have "points_to t (cadd signature (length (sigs_of ts))) []"
      using points_to_cadd [of t signature "sigs_of ts" "[]"] arg_frame_points_to [OF that at] by simp
    then show ?thesis using cursor_points_to_end [of t ?q] by (simp add: bnd_Inr)
  qed
  have run: "append_data e m signature args s = bnd (append_args e ?p signature args) (\<lambda>p.
      bnd (cursor p) (\<lambda>ch. if ch \<noteq> NUL then panic_sig ''Arguments missing for signature: %s'' signature
        else ret ())) s1"
    by (simp add: append_data_def dbus_errctx_reset_def bnd_upd s1_def)
  show ?thesis
    using args finish unfolding run s1_def [symmetric]
    by (cases "append_args e ?p signature args s1")
      (auto simp: runs_as_def bnd_apply split: sum.splits)
qed

end
