(* ===== verification/Append_Sound.thy ===== *)
theory Append_Sound
  imports Append_Spec
begin

text \<open>
  The converse of \<open>append_encodes\<close>: if \<open>append_data\<close> returns at all, the arguments had an
  encoding. It needs one fact of sd-bus, that \<open>sd_bus_message_open_container\<close> refuses a
  variant whose contents are not one complete type.
\<close>

definition variant_law :: "'w env \<Rightarrow> bool" where
  "variant_law e \<longleftrightarrow> (\<forall>m sg w. 0 \<le> fst (sd_write e m (OpenContainer (CHR ''v'') sg) w)
     \<longrightarrow> (\<exists>t. wf_ty t \<and> sg = sig_of t))"

lemma enc_conv_all:
  assumes "conv e s = conv e s'"
  shows "(enc e s t v cs \<longrightarrow> enc e s' t v cs) \<and> (enc_fields e s ts vs cs1 \<longrightarrow> enc_fields e s' ts vs cs1)
    \<and> (enc_elems e s t vs' cs2 \<longrightarrow> enc_elems e s' t vs' cs2)
    \<and> (enc_entries e s k t kvs cs3 \<longrightarrow> enc_entries e s' k t kvs cs3)"
  by (induction rule: enc_enc_fields_enc_elems_enc_entries.induct)
    (auto simp: assms intro: enc_enc_fields_enc_elems_enc_entries.intros entries_Cons [simplified])

lemma enc_conv: "conv e s' = conv e s \<Longrightarrow> enc e s' t v cs \<Longrightarrow> enc e s t v cs"
  using enc_conv_all [of e s' s t v cs] by blast

lemma enc_fields_conv: "conv e s' = conv e s \<Longrightarrow> enc_fields e s' ts vs cs \<Longrightarrow> enc_fields e s ts vs cs"
  using enc_conv_all [of e s' s] by blast

lemma enc_elems_conv: "conv e s' = conv e s \<Longrightarrow> enc_elems e s' t vs cs \<Longrightarrow> enc_elems e s t vs cs"
  using enc_conv_all [of e s' s] by blast

lemma enc_entries_conv:
  "conv e s' = conv e s \<Longrightarrow> enc_entries e s' k t kvs cs \<Longrightarrow> enc_entries e s k t kvs cs"
  using enc_conv_all [of e s' s] by blast

text \<open>What a run that returned went through.\<close>

lemma dbus_type_error_not_Inr [simp]: "dbus_type_error jt x s \<noteq> (Inr y, t)"
  by (metis dbus_type_error_panics panics_at_def Pair_inject sum.distinct(1))

lemma write_callD:
  "write_call e m c s = (Inr rv, t) \<Longrightarrow>
     0 \<le> fst (sd_write e m c (ext s)) \<and> t = s\<lparr>ext := snd (sd_write e m c (ext s))\<rparr>"
  by (auto simp: write_call_def Let_def split: prod.splits if_splits)

lemma write_call_frame: "write_call e m c s = (Inr rv, t) \<Longrightarrow> frame s t"
  by (drule write_callD) simp

lemma getindexedD: "getindexed v s = (Inr xs, t) \<Longrightarrow> indexed_view v = Some xs \<and> t = s"
  by (auto simp: getindexed_def split: option.splits)

lemma getdictionaryD: "getdictionary v s = (Inr xs, t) \<Longrightarrow> dictionary_view v = Some xs \<and> t = s"
  by (auto simp: getdictionary_def split: option.splits)

lemma getbytesD: "getbytes v s = (Inr bs, t) \<Longrightarrow> bytes_view v = Some bs \<and> t = s"
  by (auto simp: getbytes_def split: option.splits)

lemma gettupleD: "gettuple v s = (Inr xs, t) \<Longrightarrow> v = JTuple xs \<and> t = s"
  by (auto simp: gettuple_def split: janet.splits)

text \<open>\<open>sound e v\<close>: wherever \<open>append_complete_type\<close> returns on \<open>v\<close>, there is an encoding.\<close>

definition sound :: "'w env \<Rightarrow> janet \<Rightarrow> bool" where
  "sound e v \<longleftrightarrow> (\<forall>p s ty rest q t.
     append_complete_type e p v s = (Inr q, t) \<longrightarrow>
     points_to s (p_cursor p) (sig_of ty @ rest) \<longrightarrow> wf_ty ty \<longrightarrow>
     (\<exists>cs. enc e s ty v cs \<and> q = at_end p ty \<and> frame s t))"

lemma soundD:
  assumes "sound e v" and "append_complete_type e p v s = (Inr q, t)"
    and "points_to s (p_cursor p) (sig_of ty @ rest)" and "wf_ty ty"
  obtains cs where "enc e s ty v cs" "q = at_end p ty" "frame s t"
  using assms unfolding sound_def by blast

text \<open>An encoding gives the rest of the conclusion of \<open>sound\<close>.\<close>

lemma enc_frame:
  assumes laws: "janet_laws e" and enc: "enc e s ty v cs"
    and run: "append_complete_type e p v s = (Inr q, t)"
    and p: "points_to s (p_cursor p) (sig_of ty @ rest)"
  shows "q = at_end p ty \<and> frame s t"
  using append_encodes(1) [OF laws enc refl p] run by (auto simp: appends_def split: sum.splits)

lemma soundI:
  assumes "janet_laws e"
    and "\<And>p s ty rest q t. append_complete_type e p v s = (Inr q, t) \<Longrightarrow>
      points_to s (p_cursor p) (sig_of ty @ rest) \<Longrightarrow> wf_ty ty \<Longrightarrow> \<exists>cs. enc e s ty v cs"
  shows "sound e v"
  unfolding sound_def using assms enc_frame by metis

text \<open>The loops, given that the items are sound.\<close>

lemma struct_items_sound:
  assumes "\<forall>v \<in> set vs. sound e v" and "\<forall>t \<in> set ts. wf_ty t"
    and "append_struct_items e p c vs s = (Inr q, t)"
    and "points_to s (p_cursor p) (sigs_of ts)"
  shows "\<exists>ts1 ts2 cs. ts = ts1 @ ts2 \<and> enc_fields e s ts1 vs cs \<and> frame s t
     \<and> points_to t (p_cursor q) (sigs_of ts2)"
  using assms
proof (induction vs arbitrary: ts p s)
  case Nil
  then show ?case by (auto intro: fields_Nil)
next
  case (Cons v vs)
  show ?case
  proof (cases ts)
    case Nil
    then have "cursor p s = (Inr NUL, s)" using Cons.prems(4) by (simp add: cursor_points_to_end)
    then show ?thesis
      using Cons.prems(3) by (auto simp: bnd_Inr panic_sig_def bnd_eq_Inr)
  next
    case (Cons ty tys)
    obtain x xs where sig: "sig_of ty = x # xs" by (cases "sig_of ty") auto
    have wf: "wf_ty ty" using Cons.prems(2) Cons by simp
    have x: "x \<noteq> NUL" using sig_of_no_NUL [OF wf] sig by auto
    have at: "points_to s (p_cursor p) (sig_of ty @ sigs_of tys)" using Cons.prems(4) Cons by simp
    then have "cursor p s = (Inr x, s)" using sig by (simp add: cursor_points_to)
    then obtain q1 s1 where run1: "append_complete_type e p v s = (Inr q1, s1)"
      and more: "bnd (next_c q1) (\<lambda>sp. append_struct_items e sp c vs) s1 = (Inr q, t)"
      using Cons.prems(3) x by (auto simp: bnd_Inr bnd_eq_Inr)
    obtain cs where cs: "enc e s ty v cs" and q1: "q1 = at_end p ty" and fr: "frame s s1"
      by (rule soundD [OF _ run1 at wf]) (use Cons.prems(1) in auto)
    let ?q = "p\<lparr>p_cursor := cadd (p_cursor p) (length (sig_of ty))\<rparr>"
    note at1 = frame_points_to [OF fr at]
    have run2: "append_struct_items e ?q c vs s1 = (Inr q, t)"
      using more next_after_type(1) [OF at1] q1 by (simp add: bnd_Inr)
    have "points_to s1 (p_cursor ?q) (sigs_of tys)" using next_after_type(2) [OF at1] by simp
    then obtain ts1 ts2 cs' where 1: "tys = ts1 @ ts2" "enc_fields e s1 ts1 vs cs'" "frame s1 t"
      "points_to t (p_cursor q) (sigs_of ts2)"
      using Cons.IH [OF _ _ run2, of tys] Cons.prems(1,2) Cons by auto
    have "enc_fields e s ts1 vs cs'"
      by (rule enc_fields_conv [OF frame_conv [OF fr] 1(2)])
    then have "enc_fields e s (ty # ts1) (v # vs) (cs @ cs')" using wf cs by (intro fields_Cons)
    then show ?thesis
      using 1 fr Cons
      by (intro exI [of _ "ty # ts1"] exI [of _ ts2] exI [of _ "cs @ cs'"]) (auto intro: frame_trans)
  qed
qed

lemma array_items_sound:
  assumes "\<forall>v \<in> set vs. sound e v" and "wf_ty ty"
    and "append_array_items e p vs s = (Inr r, t)" and "points_to s (p_cursor p) (sig_of ty)"
  shows "\<exists>cs. enc_elems e s ty vs cs"
  using assms
proof (induction vs arbitrary: s)
  case Nil
  then show ?case by (auto intro: elems_Nil)
next
  case (Cons v vs)
  obtain q s1 where run: "append_complete_type e p v s = (Inr q, s1)"
    and more: "append_array_items e p vs s1 = (Inr r, t)"
    using Cons.prems(3) by (auto simp: bnd_eq_Inr)
  obtain cs where cs: "enc e s ty v cs" and fr: "frame s s1"
    by (rule soundD [OF _ run, of ty "[]"]) (use Cons.prems in auto)
  obtain cs' where "enc_elems e s1 ty vs cs'"
    using Cons.IH [OF _ _ more] Cons.prems frame_points_to [OF fr] by auto
  then have "enc_elems e s ty vs cs'" using enc_conv_all [OF frame_conv [OF fr]] by blast
  then show ?case using cs by (auto intro: elems_Cons)
qed

lemma dict_entries_sound:
  assumes laws: "janet_laws e" and "\<forall>(key, v) \<in> set kvs. sound e v"
    and k: "k \<in> set basic_codes" and wf: "wf_ty ty"
    and "append_dict_entries e p kvs s = (Inr r, t)"
    and "points_to s (p_cursor p) (k # sig_of ty)"
  shows "\<exists>cs. enc_entries e s k ty kvs cs"
  using assms(2,5,6)
proof (induction kvs arbitrary: s)
  case Nil
  then show ?case by (auto intro: entries_Nil)
next
  case (Cons kv kvs)
  obtain key v where kv: "kv = (key, v)" by (cases kv)
  have str: "ld_str (p_cursor p) s = (Inr (k # sig_of ty), s)"
    using Cons.prems(3) by (rule points_to_ld_str)
  obtain rv s1 s2 q1 s3 q2 s4 rv' s5 where
    1: "write_call e (p_msg p) (OpenContainer (CHR ''e'') (k # sig_of ty)) s = (Inr rv, s1)"
    and 2: "append_basic_type e p key s1 = (Inr (), s2)"
    and 3: "next_c p s2 = (Inr q1, s3)"
    and 4: "append_complete_type e q1 v s3 = (Inr q2, s4)"
    and 5: "write_call e (p_msg p) CloseContainer s4 = (Inr rv', s5)"
    and 6: "append_dict_entries e p kvs s5 = (Inr r, t)"
    using Cons.prems(2) by (auto simp: kv bnd_Inr [where m = "ld_str (p_cursor p)", OF str] bnd_eq_Inr)
  have fr1: "frame s s1" using 1 by (rule write_call_frame)
  note at1 = frame_points_to [OF fr1 Cons.prems(3)]
  obtain b where b: "conv e s1 k key = Some b"
    using append_basic_spec [OF laws k points_to_ld_Cons [OF at1], of key] 2
    by (auto simp: panics_at_def split: option.splits)
  then have b': "conv e s k key = Some b" using frame_conv [OF fr1] by simp
  have fr2: "frame s1 s2"
    using append_basic_appends [OF laws k at1 b] 2 by (auto simp: appends_def split: sum.splits)
  note at2 = frame_points_to [OF fr2 at1]
  have q1: "q1 = p\<lparr>p_cursor := cadd (p_cursor p) 1\<rparr>" "s3 = s2"
    using 3 next_points_to [OF at2] by auto
  have at3: "points_to s3 (p_cursor q1) (sig_of ty @ [])"
    using points_to_cadd1 [OF at2] q1 by simp
  obtain cs where cs: "enc e s3 ty v cs" and fr4: "frame s3 s4"
    by (rule soundD [OF _ 4 at3 wf]) (use Cons.prems(1) kv in auto)
  have fr: "frame s s5"
    using fr1 fr2 fr4 write_call_frame [OF 5] q1(2) by (auto intro: frame_trans)
  have "enc e s ty v cs"
    using cs enc_conv frame_conv [OF frame_trans [OF fr1 fr2]] q1(2) by metis
  moreover obtain cs' where "enc_entries e s5 k ty kvs cs'"
    using Cons.IH [OF _ 6] Cons.prems(1) frame_points_to [OF fr Cons.prems(3)] by auto
  then have "enc_entries e s k ty kvs cs'" using enc_conv_all [OF frame_conv [OF fr]] by blast
  ultimately show ?case using b' kv by (blast intro: entries_Cons)
qed

text \<open>The types.\<close>

lemma variant_sound:
  assumes laws: "janet_laws e" "variant_law e"
    and IH: "\<And>w. size w < size v \<Longrightarrow> sound e w"
    and run: "append_variant_type e p v s = (Inr q, t)"
  shows "\<exists>cs. enc e s TVariant v cs"
proof -
  obtain xs where xs: "v = JTuple xs" and "(case xs of
       [sig, variant_arg] \<Rightarrow>
         (case sig of
            JString _ \<Rightarrow>
              bnd (lift (janet_getcbytes e sig)) (\<lambda>variant_sig.
              bnd (janet_cstring variant_sig) (\<lambda>variant_ptr.
              bnd (write_call e (p_msg p) (OpenContainer (CHR ''v'') variant_sig)) (\<lambda>_.
              bnd (append_complete_type e \<lparr>p_msg = p_msg p, p_cursor = variant_ptr\<rparr> variant_arg) (\<lambda>_.
              bnd (write_call e (p_msg p) CloseContainer) (\<lambda>_.
              ret p)))))
          | _ \<Rightarrow> raise (Panicf ''Expected string signature for variant, got %v'' [PVal sig]))
     | _ \<Rightarrow> raise (Panicf ''Variant type expects exactly 2 arguments'' [])) s = (Inr q, t)"
    using run unfolding append_variant_type.simps by (auto simp only: bnd_eq_Inr dest!: gettupleD)
  then obtain sg w vsig c s1 rv s2 q2 s3 where v: "v = JTuple [JString sg, w]"
    and sig: "janet_getcbytes e (JString sg) = Inr vsig"
    and 1: "janet_cstring vsig s = (Inr c, s1)"
    and 2: "write_call e (p_msg p) (OpenContainer (CHR ''v'') vsig) s1 = (Inr rv, s2)"
    and 3: "append_complete_type e \<lparr>p_msg = p_msg p, p_cursor = c\<rparr> w s2 = (Inr q2, s3)"
    by (auto simp: bnd_eq_Inr split: list.splits janet.splits sum.splits)
  obtain ty where ty: "wf_ty ty" "vsig = sig_of ty"
    using write_callD [OF 2] laws(2) unfolding variant_law_def by blast
  have fr1: "frame s s1"
    using 1 by (auto simp: janet_cstring_def alloc_bytes_def frame_def mem_ext_def)
  have "points_to s1 c (sig_of ty)"
    using janet_cstring_points_to [OF 1] sig_of_no_NUL [OF ty(1)] ty(2) by simp
  then have at: "points_to s2 (p_cursor \<lparr>p_msg = p_msg p, p_cursor = c\<rparr>) (sig_of ty @ [])"
    using frame_points_to [OF write_call_frame [OF 2]] by simp
  obtain cs where cs: "enc e s2 ty w cs" by (rule soundD [OF IH 3 at ty(1)]) (use v in auto)
  have "enc e s ty w cs"
    by (rule enc_conv [OF frame_conv [OF frame_trans [OF fr1 write_call_frame [OF 2]]] cs])
  then show ?thesis using variant [OF sig [unfolded ty(2)] ty(1)] v by blast
qed

lemma struct_sound:
  assumes IH: "\<And>w. size w < size v \<Longrightarrow> sound e w"
    and p: "points_to s (p_cursor p) (sig_of (TStruct ts) @ rest)"
    and ts: "ts \<noteq> []" "\<forall>t \<in> set ts. wf_ty t"
    and run: "append_struct_type e p v s = (Inr q, t)"
  shows "\<exists>cs. enc e s (TStruct ts) v cs"
proof -
  define sg where "sg = Some (next_id s, 0 :: nat)"
  define s0 where "s0 = copied (sigs_of ts @ [NUL]) s"
  note eq = append_struct_run [OF p ts, folded sg_def s0_def]
  obtain rv s1 vs sp s2 ch s3 where
    1: "write_call e (p_msg p) (OpenContainer (CHR ''r'') (sigs_of ts)) s0 = (Inr rv, s1)"
    and vs: "indexed_view v = Some vs" "vs \<noteq> []"
    and 2: "append_struct_items e \<lparr>p_msg = p_msg p, p_cursor = sg\<rparr> sg vs s1 = (Inr sp, s2)"
    and 3: "cursor sp s2 = (Inr ch, s3)" "ch = NUL"
    using run unfolding eq(1)
    by (auto simp: bnd_eq_Inr panic_sig_def dest!: getindexedD split: if_splits)
  have fr: "frame s s1"
    by (rule frame_trans [OF frame_copied write_call_frame [OF 1 [unfolded s0_def]]])
  have items: "\<forall>w \<in> set vs. sound e w"
    using IH indexed_view_item [OF vs(1)] by blast
  have at: "points_to s1 sg (sigs_of ts)" using frame_points_to [OF write_call_frame [OF 1] eq(2)] .
  obtain ts1 ts2 cs where 4: "ts = ts1 @ ts2" "enc_fields e s1 ts1 vs cs"
    "points_to s2 (p_cursor sp) (sigs_of ts2)"
    using struct_items_sound [OF items ts(2) 2] at by auto
  have "ts2 = []"
  proof (cases ts2)
    case (Cons u us)
    then obtain x xs where sig: "sig_of u = x # xs" and wf: "wf_ty u"
      using ts(2) 4(1) by (cases "sig_of u") auto
    have "x \<noteq> NUL" using sig_of_no_NUL [OF wf] sig by auto
    moreover have "cursor sp s2 = (Inr x, s2)" using 4(3) Cons sig by (simp add: cursor_points_to)
    ultimately show ?thesis using 3 by simp
  qed simp
  then have "enc_fields e s ts vs cs" using 4 enc_conv_all [OF frame_conv [OF fr]] by auto
  then show ?thesis using struct [OF vs(1) ts(1)] by blast
qed

lemma array_sound:
  assumes IH: "\<And>w. size w < size v \<Longrightarrow> sound e w"
    and p: "points_to s (p_cursor p) (sig_of (TArray ty) @ rest)" and wf: "wf_ty ty"
    and run: "append_array_type e p v s = (Inr q, t)"
  shows "\<exists>cs. enc e s (TArray ty) v cs"
proof (cases "ty = TBasic (CHR ''y'')")
  case True
  then have peek: "peek p s = (Inr (CHR ''y''), s)" using p by (simp add: peek_points_to)
  obtain bs where "bytes_view v = Some bs"
    using run unfolding append_array_type.simps bnd_Inr [where m = "peek p", OF peek]
    by (auto simp: bnd_eq_Inr dest!: getbytesD)
  then show ?thesis using True by (auto intro: bytes)
next
  case False
  define sg where "sg = Some (next_id s, 0 :: nat)"
  define s0 where "s0 = copied (sig_of ty @ [NUL]) s"
  note eq = append_array_run [OF p wf False, folded sg_def s0_def]
  obtain rv s1 vs r s2 where
    1: "write_call e (p_msg p) (OpenContainer (CHR ''a'') (sig_of ty)) s0 = (Inr rv, s1)"
    and vs: "indexed_view v = Some vs"
    and 2: "append_array_items e \<lparr>p_msg = p_msg p, p_cursor = sg\<rparr> vs s1 = (Inr r, s2)"
    using run unfolding eq(1) by (auto simp: bnd_eq_Inr dest!: getindexedD)
  have fr: "frame s s1"
    by (rule frame_trans [OF frame_copied write_call_frame [OF 1 [unfolded s0_def]]])
  have items: "\<forall>w \<in> set vs. sound e w"
    using IH indexed_view_item [OF vs] by blast
  have at: "points_to s1 sg (sig_of ty)" using frame_points_to [OF write_call_frame [OF 1] eq(2)] .
  obtain cs where "enc_elems e s1 ty vs cs" using array_items_sound [OF items wf 2] at by auto
  then have "enc_elems e s ty vs cs" using enc_conv_all [OF frame_conv [OF fr]] by blast
  then show ?thesis using array [OF False wf vs] by blast
qed

lemma dict_sound:
  assumes laws: "janet_laws e" and IH: "\<And>w. size w < size v \<Longrightarrow> sound e w"
    and p: "points_to s (p_cursor p) (sig_of (TDict k ty) @ rest)"
    and k: "k \<in> set basic_codes" and wf: "wf_ty ty"
    and run: "append_array_type e p v s = (Inr q, t)"
  shows "\<exists>cs. enc e s (TDict k ty) v cs"
proof -
  let ?sig = "CHR ''{'' # k # sig_of ty @ [CHR ''}'']"
  define sg where "sg = Some (next_id s, 0 :: nat)"
  define s0 where "s0 = copied (?sig @ [NUL]) s"
  note eq = append_dict_run [OF p k wf, folded sg_def s0_def]
  let ?st = "stripped (next_id s) (k # sig_of ty)"
  obtain rv s1 kvs r s2 where
    1: "write_call e (p_msg p) (OpenContainer (CHR ''a'') ?sig) s0 = (Inr rv, s1)"
    and kvs: "dictionary_view v = Some kvs"
    and 2: "append_dict_entries e \<lparr>p_msg = p_msg p, p_cursor = sg\<rparr> kvs (?st s1) = (Inr r, s2)"
    using run unfolding eq(1) by (auto simp: bnd_eq_Inr dest!: getdictionaryD)
  have noNUL: "NUL \<notin> set (k # sig_of ty)"
    using sig_of_no_NUL [OF wf] basic_codes_not [OF k] by auto
  have fr0: "frame s s0" "next_id s < next_id s0" by (simp_all add: s0_def)
  note st = stripped [OF fr0 write_call_frame [OF 1] noNUL, folded sg_def]
  have items: "\<forall>(key, w) \<in> set kvs. sound e w"
    using IH dictionary_view_item(2) [OF kvs] by blast
  obtain cs where "enc_entries e (?st s1) k ty kvs cs"
    using dict_entries_sound [OF laws items k wf 2] st(2) by auto
  then have "enc_entries e s k ty kvs cs" using enc_conv_all [OF frame_conv [OF st(1)]] by blast
  then show ?thesis using dict [OF k wf kvs] by blast
qed

lemma all_sound:
  assumes laws: "janet_laws e" "variant_law e"
  shows "sound e v"
proof (induction v rule: measure_induct_rule [of size])
  case (less v)
  show ?case
  proof (rule soundI [OF laws(1)])
    fix p s ty rest q t
    assume run: "append_complete_type e p v s = (Inr q, t)"
      and p: "points_to s (p_cursor p) (sig_of ty @ rest)" and wf: "wf_ty ty"
    obtain x xs where sig: "sig_of ty = x # xs" by (cases "sig_of ty") auto
    define s1 where "s1 = s\<lparr>errctx := errctx_set (p_cursor p) (span_len ty) (errctx s)\<rparr>"
    have p1: "points_to s1 (p_cursor p) (sig_of ty @ rest)"
      using p by (simp add: points_to_def s1_def)
    have conv1: "conv e s1 = conv e s" by (rule conv_same) (simp_all add: s1_def)
    have cur: "cursor p s1 = (Inr x, s1)" using p1 sig by (simp add: cursor_points_to)
    have set: "dbus_errctx_set (p_cursor p) (span_len ty) s = (Inr (), s1)"
      by (simp add: dbus_errctx_set_def s1_def)
    obtain p' s2 where run1: "dispatch e p v x s1 = (Inr p', s2)"
      using run unfolding append_complete_dispatch
      by (auto simp: bnd_Inr [where m = "span_next_type p", OF span_next_type_sig_of [OF p wf]]
          bnd_Inr [where m = "dbus_errctx_set c n" for c n, OF set]
          bnd_Inr [where m = "cursor p", OF cur] bnd_eq_Inr)
    have "\<exists>cs. enc e s1 ty v cs"
    proof (cases ty)
      case (TBasic ch)
      then have ch: "ch \<in> set basic_codes" "x = ch" using wf sig by auto
      have "append_basic_type e p v s1 = (Inr (), s2)"
        using run1 ch by (auto simp: dispatch_def bnd_eq_Inr)
      then obtain b where "conv e s1 ch v = Some b"
        using append_basic_spec [OF laws(1) ch(1), of p s1 v] points_to_ld_Cons [of s1 "p_cursor p" ch]
          p1 TBasic by (auto simp: panics_at_def split: option.splits)
      then show ?thesis using basic [OF ch(1)] TBasic by blast
    next
      case TVariant
      then show ?thesis
        using variant_sound [OF laws less.IH, of v p s1 p' s2] run1 sig by (auto simp: dispatch_def)
    next
      case (TStruct ts)
      then show ?thesis
        using struct_sound [OF less.IH, of v s1 p ts rest p' s2] run1 sig p1 wf
        by (auto simp: dispatch_def)
    next
      case (TArray u)
      then show ?thesis
        using array_sound [OF less.IH, of v s1 p u rest p' s2] run1 sig p1 wf
        by (auto simp: dispatch_def)
    next
      case (TDict k u)
      then show ?thesis
        using dict_sound [OF laws(1) less.IH, of v s1 p k u rest p' s2] run1 sig p1 wf
        by (auto simp: dispatch_def)
    qed
    then show "\<exists>cs. enc e s ty v cs" using enc_conv [OF conv1] by blast
  qed
qed

text \<open>The argument loop of \<open>append_data\<close>.\<close>

lemma inc_frame: "dbus_errctx_inc s = (Inr r, t) \<Longrightarrow> arg_frame s t"
  by (auto simp: dbus_errctx_inc_def arg_frame_def mem_ext_def)

lemma args_sound:
  assumes laws: "janet_laws e" "variant_law e" and "\<forall>t \<in> set ts. wf_ty t"
    and "append_args e p sg vs s = (Inr q, t)" and "points_to s (p_cursor p) (sigs_of ts)"
  shows "\<exists>ts1 ts2 cs. ts = ts1 @ ts2 \<and> enc_fields e s ts1 vs cs
     \<and> arg_frame s t \<and> points_to t (p_cursor q) (sigs_of ts2)"
  using assms(3-)
proof (induction vs arbitrary: ts p s)
  case Nil
  then show ?case by (auto intro: fields_Nil simp: arg_frame_def)
next
  case (Cons v vs)
  show ?case
  proof (cases ts)
    case Nil
    then have "cursor p s = (Inr NUL, s)" using Cons.prems(3) by (simp add: cursor_points_to_end)
    then show ?thesis
      using Cons.prems(2) by (auto simp: bnd_Inr panic_sig_def bnd_eq_Inr)
  next
    case (Cons ty tys)
    obtain x xs where sig: "sig_of ty = x # xs" by (cases "sig_of ty") auto
    have wf: "wf_ty ty" using Cons.prems(1) Cons by simp
    have x: "x \<noteq> NUL" using sig_of_no_NUL [OF wf] sig by auto
    have at: "points_to s (p_cursor p) (sig_of ty @ sigs_of tys)" using Cons.prems(3) Cons by simp
    then have "cursor p s = (Inr x, s)" using sig by (simp add: cursor_points_to)
    then obtain s0 q1 s1 where inc: "dbus_errctx_inc s = (Inr (), s0)"
      and run1: "append_complete_type e p v s0 = (Inr q1, s1)"
      and more: "bnd (next_c q1) (\<lambda>p. append_args e p sg vs) s1 = (Inr q, t)"
      using Cons.prems(2) x by (auto simp: bnd_Inr bnd_eq_Inr)
    have fr0: "arg_frame s s0" using inc by (rule inc_frame)
    note at0 = arg_frame_points_to [OF fr0 at]
    obtain cs where cs: "enc e s0 ty v cs" and q1: "q1 = at_end p ty" and fr: "frame s0 s1"
      by (rule soundD [OF all_sound [OF laws] run1 at0 wf])
    let ?q = "p\<lparr>p_cursor := cadd (p_cursor p) (length (sig_of ty))\<rparr>"
    note at1 = frame_points_to [OF fr at0]
    have run2: "append_args e ?q sg vs s1 = (Inr q, t)"
      using more next_after_type(1) [OF at1] q1 by (simp add: bnd_Inr)
    have "points_to s1 (p_cursor ?q) (sigs_of tys)" using next_after_type(2) [OF at1] by simp
    then obtain ts1 ts2 cs' where 1: "tys = ts1 @ ts2" "enc_fields e s1 ts1 vs cs'"
      "points_to t (p_cursor q) (sigs_of ts2)" and fr1: "arg_frame s1 t"
      using Cons.IH [OF _ run2, of tys] Cons.prems(1) Cons by auto
    have "arg_frame s t"
      by (rule arg_frame_trans [OF fr0 arg_frame_trans [OF frame_arg_frame [OF fr] fr1]])
    moreover have conv1: "conv e s1 = conv e s"
      using frame_conv [OF fr, of e] arg_frame_conv [OF fr0, of e] by simp
    moreover have "enc_fields e s ts1 vs cs'" by (rule enc_fields_conv [OF conv1 1(2)])
    moreover have "enc e s ty v cs" by (rule enc_conv [OF arg_frame_conv [OF fr0] cs])
    ultimately have "enc_fields e s (ty # ts1) (v # vs) (cs @ cs')" "arg_frame s t"
      using wf by (auto intro: fields_Cons)
    then show ?thesis using 1 Cons by (intro exI [of _ "ty # ts1"] exI [of _ ts2]) auto
  qed
qed

lemma append_data_sound:
  assumes laws: "janet_laws e" "variant_law e" and wf: "\<forall>t \<in> set ts. wf_ty t"
    and sig: "points_to s signature (sigs_of ts)"
    and run: "append_data e m signature args s = (Inr (), t)"
  shows "\<exists>cs. enc_fields e s ts args cs"
proof -
  define s1 where "s1 = s\<lparr>errctx := empty_errctx\<rparr>"
  have at: "points_to s1 signature (sigs_of ts)" using sig by (simp add: s1_def points_to_def)
  have conv: "conv e s1 = conv e s" by (rule conv_same) (simp_all add: s1_def)
  obtain q s2 ch s3 where
    1: "append_args e \<lparr>p_msg = m, p_cursor = signature\<rparr> signature args s1 = (Inr q, s2)"
    and 2: "cursor q s2 = (Inr ch, s3)" "ch = NUL"
    using run by (auto simp: append_data_def dbus_errctx_reset_def bnd_upd s1_def [symmetric]
        bnd_eq_Inr panic_sig_def split: if_splits)
  obtain ts1 ts2 cs where 3: "ts = ts1 @ ts2" "enc_fields e s1 ts1 args cs"
    "points_to s2 (p_cursor q) (sigs_of ts2)"
    using args_sound [OF laws wf 1] at by auto
  have "ts2 = []"
  proof (cases ts2)
    case (Cons u us)
    then obtain x xs where sig: "sig_of u = x # xs" and wu: "wf_ty u"
      using wf 3(1) by (cases "sig_of u") auto
    have "x \<noteq> NUL" using sig_of_no_NUL [OF wu] sig by auto
    moreover have "cursor q s2 = (Inr x, s2)" using 3(3) Cons sig by (simp add: cursor_points_to)
    ultimately show ?thesis using 2 by simp
  qed simp
  then show ?thesis using 3 enc_fields_conv [OF conv] by auto
qed

subsection \<open>An encoding is unique\<close>

inductive_cases enc_fieldsE: "enc_fields e s ts vs cs"
inductive_cases enc_elemsE: "enc_elems e s t vs cs"
inductive_cases enc_entriesE: "enc_entries e s k t kvs cs"

lemma enc_unique:
  "enc e s t v cs \<Longrightarrow> enc e s t v cs' \<Longrightarrow> cs = cs'"
  "enc_fields e s ts vs ds \<Longrightarrow> enc_fields e s ts vs ds' \<Longrightarrow> ds = ds'"
  "enc_elems e s t vs ds \<Longrightarrow> enc_elems e s t vs ds' \<Longrightarrow> ds = ds'"
  "enc_entries e s k t kvs ds \<Longrightarrow> enc_entries e s k t kvs ds' \<Longrightarrow> ds = ds'"
proof (induction arbitrary: cs' and ds' and ds' and ds'
    rule: enc_enc_fields_enc_elems_enc_entries.inducts)
  case (basic ch v b)
  then show ?case by (auto elim: enc_basicE)
next
  case (variant sg t v cs)
  from variant.prems obtain t' cs2 where t': "sig_of t' = sig_of t" "wf_ty t'" "enc e s t' v cs2"
    and cs': "cs' = OpenContainer (CHR ''v'') (sig_of t') # cs2 @ [CloseContainer]"
    by (rule enc_variantE) (use variant.IH(1) in auto)
  have "t' = t" using sig_of_inject [OF t'(2) variant.hyps(1) t'(1)] .
  then show ?case using t' cs' variant.IH(3) by simp
next
  case (struct v vs ts cs)
  from struct.prems show ?case by (rule enc_structE) (use struct.IH struct.hyps in auto)
next
  case (bytes v bs)
  from bytes.prems show ?case by (rule enc_arrayE) (use bytes.hyps in auto)
next
  case (array t v vs cs)
  from array.prems show ?case by (rule enc_arrayE) (simp_all add: array.IH array.hyps)
next
  case (dict k t v kvs cs)
  from dict.prems show ?case by (rule enc_dictE) (simp_all add: dict.IH dict.hyps)
next
  case fields_Nil
  then show ?case by (auto elim: enc_fieldsE)
next
  case (fields_Cons t v cs ts vs cs1)
  from fields_Cons.prems obtain cs2 ds2 where "ds' = cs2 @ ds2" "enc e s t v cs2"
    "enc_fields e s ts vs ds2" by (rule enc_fieldsE) auto
  then show ?case using fields_Cons.IH by blast
next
  case (elems_Nil t)
  then show ?case by (auto elim: enc_elemsE)
next
  case (elems_Cons t v cs vs cs1)
  from elems_Cons.prems obtain cs2 ds2 where "ds' = cs2 @ ds2" "enc e s t v cs2"
    "enc_elems e s t vs ds2" by (rule enc_elemsE) auto
  then show ?case using elems_Cons.IH by blast
next
  case (entries_Nil k t)
  then show ?case by (auto elim: enc_entriesE)
next
  case (entries_Cons k key b t v cs kvs cs1)
  from entries_Cons.prems obtain b2 cs2 ds2 where
    "ds' = (OpenContainer (CHR ''e'') (k # sig_of t) # AppendBasic b2 # cs2 @ [CloseContainer]) @ ds2"
    "conv e s k key = Some b2" "enc e s t v cs2" "enc_entries e s k t kvs ds2"
    by (rule enc_entriesE) auto
  then show ?case using entries_Cons.IH by auto
qed

end
