(* ===== verification/Append_Safety.thy ===== *)
theory Append_Safety
  imports Append_Sound
begin

text \<open>
  Memory safety of the append half. Every access of the model is checked, so an invalid one
  is the panic \<open>UB\<close>; the lemmas say when there is none, whatever the arguments are. The one
  exception is the error context: after the value of a dictionary entry it may point into
  scratch memory that is already freed, and a key of the wrong type then reads it. \<open>keyed\<close>
  excludes exactly that: below the top level, the second and later keys of a dictionary must
  fit the key type.
\<close>

function keyed ::
  "'w env \<Rightarrow> (char \<Rightarrow> janet \<Rightarrow> basic option) \<Rightarrow> bool \<Rightarrow> ty \<Rightarrow> janet \<Rightarrow> bool" where
  "keyed e cv nested (TBasic c) v \<longleftrightarrow> True"
| "keyed e cv nested TVariant v \<longleftrightarrow> (case v of
      JTuple [JString sg, w] \<Rightarrow>
        (\<forall>t. wf_ty t \<and> janet_getcbytes e (JString sg) = Inr (sig_of t) \<longrightarrow> keyed e cv True t w)
    | _ \<Rightarrow> True)"
| "keyed e cv nested (TStruct ts) v \<longleftrightarrow> (case indexed_view v of
      Some vs \<Rightarrow> \<forall>x \<in> set (zip ts vs). keyed e cv True (fst x) (snd x)
    | None \<Rightarrow> True)"
| "keyed e cv nested (TArray t) v \<longleftrightarrow> (case indexed_view v of
      Some vs \<Rightarrow> \<forall>w \<in> set vs. keyed e cv True t w
    | None \<Rightarrow> True)"
| "keyed e cv nested (TDict k t) v \<longleftrightarrow> (case dictionary_view v of
      Some kvs \<Rightarrow> (nested \<longrightarrow> (\<forall>kv \<in> set (tl kvs). cv k (fst kv) \<noteq> None))
        \<and> (\<forall>kv \<in> set kvs. keyed e cv True t (snd kv))
    | None \<Rightarrow> True)"
  by pat_completeness auto

termination
  by (relation "measure (\<lambda>(e, cv, nested, t, v). size v)")
    (auto dest: indexed_view_item dictionary_view_item(2) in_set_zipE set_zip_rightD)

lemma clean_write_call [simp]: "clean_at (write_call e m c) s"
  by (simp add: clean_at_def write_call_def Let_def split: prod.split)

lemma clean_panic_sig: "points_to s c str \<Longrightarrow> clean_at (panic_sig f c) s"
  by (simp add: panic_sig_def clean_at_def bnd_Inr [where m = "ld_str c", OF points_to_ld_str])

text \<open>The error context can be read: the signatures it points at are live.\<close>

definition ctx0_ok :: "'w world \<Rightarrow> bool" where
  "ctx0_ok s \<longleftrightarrow> (\<exists>str. ctx_at s (ec_sig0 (errctx s)) (ec_len0 (errctx s)) str)"

definition ctx_ok :: "'w world \<Rightarrow> bool" where
  "ctx_ok s \<longleftrightarrow> ctx0_ok s \<and>
     (1 < ec_depth (errctx s) \<longrightarrow> (\<exists>str. ctx_at s (ec_sig1 (errctx s)) (ec_len1 (errctx s)) str))"

lemma type_error_message_no_ub [simp]: "\<not> is_ub (type_error_message g str0 str1 jt x)"
  by (simp add: type_error_message_def)

lemma clean_type_error:
  assumes "ctx_ok s"
  shows "clean_at (dbus_type_error jt x :: ('w, 'a) prog) s"
proof -
  obtain str0 where 0: "ctx_at s (ec_sig0 (errctx s)) (ec_len0 (errctx s)) str0"
    using assms by (auto simp: ctx_ok_def ctx0_ok_def)
  obtain str1 where 1: "1 < ec_depth (errctx s) \<longrightarrow> ctx_at s (ec_sig1 (errctx s)) (ec_len1 (errctx s)) str1"
    using assms by (auto simp: ctx_ok_def)
  have "(dbus_type_error jt x :: ('w, 'a) prog) s = (Inl (type_error_message (errctx s) str0 str1 jt x), s)"
    by (rule dbus_type_error_message [OF 0]) (use 1 in simp)
  then show ?thesis by (simp add: clean_at_def)
qed

lemma frame_ctx0: "frame s t \<Longrightarrow> 0 < ec_depth (errctx s) \<Longrightarrow> ctx0_ok s \<Longrightarrow> ctx0_ok t"
  unfolding ctx0_ok_def ctx_at_def using frame_points_to [of s t] by (auto simp: frame_def)

lemma clean_getter:
  assumes "ctx_ok s" and "\<And>y. chk y \<longleftrightarrow> int_in lo hi y"
  shows "clean_at (bnd (if \<not> chk x then dbus_type_error jt x else ret ()) (\<lambda>_.
      bnd (cast_number lo hi x) (\<lambda>i. ret (word_of_int i)))) s"
proof (cases "int_in lo hi x")
  case True
  then obtain i where "int_value x = Some i" "lo \<le> i" "i \<le> hi" using int_in_value by blast
  then show ?thesis using True assms by (simp add: cast_number_int clean_at_def)
next
  case False
  then show ?thesis
    using assms(2) clean_type_error [OF assms(1)] by (auto intro!: clean_bnd)
qed

lemma clean_then_write:
  "clean_at m s \<Longrightarrow> clean_at (bnd m (\<lambda>y. bnd (write_call e msg (AppendBasic (mk y))) (\<lambda>_. ret ()))) s"
  by (erule clean_bnd) (auto intro!: clean_bnd)

lemma clean_basic:
  assumes laws: "janet_laws e" and ch: "ch \<in> set basic_codes"
    and p: "points_to s (p_cursor p) (ch # rest)" and ok: "ctx_ok s"
  shows "clean_at (append_basic_type e p x) s"
proof -
  note err = clean_type_error [OF ok]
  note ints = clean_getter [OF ok checkuint8_int_in]
    clean_getter [OF ok, where chk = "janet_checkint16 e" and lo = "- 32768" and hi = 32767]
    clean_getter [OF ok, where chk = "janet_checkuint16 e" and lo = 0 and hi = 65535]
    clean_getter [OF ok, where chk = "janet_checkint e" and lo = "- 2147483648" and hi = 2147483647]
    clean_getter [OF ok, where chk = "janet_checkuint e" and lo = 0 and hi = 4294967295]
  have y: "clean_at (getuinteger8 x) s" unfolding getuinteger8_def by (rule ints(1))
  have n: "clean_at (getinteger16 e x) s"
    unfolding getinteger16_def by (rule ints(2)) (use laws in \<open>simp add: janet_laws_def\<close>)
  have q: "clean_at (getuinteger16 e x) s"
    unfolding getuinteger16_def by (rule ints(3)) (use laws in \<open>simp add: janet_laws_def\<close>)
  have i: "clean_at (getinteger e x) s"
    unfolding getinteger_def by (rule ints(4)) (use laws in \<open>simp add: janet_laws_def\<close>)
  have u: "clean_at (getuinteger e x) s"
    unfolding getuinteger_def by (rule ints(5)) (use laws in \<open>simp add: janet_laws_def\<close>)
  have x64: "clean_at (if it then lift r
      else bnd (if \<not> chk x then dbus_type_error jt x else ret ()) (\<lambda>_.
           bnd (cast_number lo hi x) (\<lambda>i. ret (word_of_int i)))) s"
    if r: "\<And>p. r = Inl p \<Longrightarrow> \<not> is_ub p" and chk: "chk x \<Longrightarrow> int_in lo hi x" for it r chk jt lo hi
  proof (cases "chk x")
    case True
    then obtain i where "int_value x = Some i" "lo \<le> i" "i \<le> hi"
      using chk [OF True] int_in_value by blast
    then show ?thesis using True r by (auto simp: cast_number_int clean_at_def)
  next
    case False
    then show ?thesis using r err by (auto intro!: clean_bnd clean_lift)
  qed
  have x: "clean_at (getinteger64 e x) s"
    unfolding getinteger64_def by (rule x64) (use laws in \<open>auto simp: janet_laws_def\<close>)
  have t: "clean_at (getuinteger64 e x) s"
    unfolding getuinteger64_def by (rule x64) (use laws in \<open>auto simp: janet_laws_def\<close>)
  have b: "clean_at (getboolean x) s" using err by (cases x) (simp_all add: getboolean_def)
  have d: "clean_at (getnumber x) s" using err by (cases x) (simp_all add: getnumber_def)
  have str: "clean_at (getcstring e x) s"
    using err laws
    by (cases x) (auto simp: getcstring_def janet_laws_def intro!: clean_lift)
  have h: "clean_at (getfd x) s"
  proof (cases x)
    case (JAbstract k a)
    then show ?thesis using err by (cases k) (auto simp: getfd_def intro!: clean_bnd)
  qed (use err in \<open>simp_all add: getfd_def\<close>)
  have cur: "cursor p s = (Inr ch, s)" using p by (rule cursor_points_to)
  show ?thesis
    unfolding append_basic_type_def Let_def
    by (rule clean_Inr, rule cur) (intro clean_if clean_then_write y b n q i u x t d str h clean_ret)
qed

subsection \<open>The containers\<close>

text \<open>\<open>safe e v\<close>: \<open>append_complete_type\<close> is clean on \<open>v\<close>, wherever it is called.\<close>

definition safe :: "'w env \<Rightarrow> janet \<Rightarrow> bool" where
  "safe e v \<longleftrightarrow> (\<forall>p s ty rest. points_to s (p_cursor p) (sig_of ty @ rest) \<longrightarrow> wf_ty ty \<longrightarrow>
     (0 < ec_depth (errctx s) \<longrightarrow> ctx0_ok s) \<longrightarrow>
     keyed e (conv e s) (0 < ec_depth (errctx s)) ty v \<longrightarrow>
     clean_at (append_complete_type e p v) s)"

lemma safeD:
  "safe e v \<Longrightarrow> points_to s (p_cursor p) (sig_of ty @ rest) \<Longrightarrow> wf_ty ty \<Longrightarrow>
     (0 < ec_depth (errctx s) \<Longrightarrow> ctx0_ok s) \<Longrightarrow>
     keyed e (conv e s) (0 < ec_depth (errctx s)) ty v \<Longrightarrow>
     clean_at (append_complete_type e p v) s"
  unfolding safe_def
  by (drule spec [of _ p], drule spec [of _ s], drule spec [of _ ty], drule spec [of _ rest]) simp

text \<open>The state inside a container: some context is set, and its first signature is live.\<close>

definition inside :: "'w world \<Rightarrow> bool" where
  "inside s \<longleftrightarrow> 0 < ec_depth (errctx s) \<and> ctx0_ok s"

lemma inside_frame: "inside s \<Longrightarrow> frame s t \<Longrightarrow> inside t"
  using frame_ctx0 [of s t] by (auto simp: inside_def frame_def)

lemma inside_safe:
  "safe e v \<Longrightarrow> inside s \<Longrightarrow> points_to s (p_cursor p) (sig_of ty @ rest) \<Longrightarrow> wf_ty ty \<Longrightarrow>
     keyed e (conv e s) True ty v \<Longrightarrow> clean_at (append_complete_type e p v) s"
  by (rule safeD) (auto simp: inside_def)

lemma ctx_ok_frame_write: "ctx_ok s \<Longrightarrow> write_call e m c s = (Inr rv, t) \<Longrightarrow> ctx_ok t"
  by (drule write_callD) (auto simp: ctx_ok_def ctx0_ok_def ctx_at_def points_to_def)

lemma clean_cursor:
  assumes "points_to s (p_cursor p) str"
  shows "clean_at (cursor p) s"
  using points_to_ld [OF assms] by (simp add: cursor_def clean_at_def)

lemma complete_success:
  assumes laws: "janet_laws e" "variant_law e"
    and run: "append_complete_type e p v s = (Inr q, t)"
    and p: "points_to s (p_cursor p) (sig_of ty @ rest)" and wf: "wf_ty ty"
  shows "q = at_end p ty \<and> frame s t"
  by (rule soundD [OF all_sound [OF laws] run p wf]) simp

lemma struct_items_clean:
  assumes laws: "janet_laws e" "variant_law e"
    and "\<forall>v \<in> set vs. safe e v" and "\<forall>t \<in> set ts. wf_ty t" and "inside s"
    and "points_to s (p_cursor p) (sigs_of ts)" and "points_to s c str"
    and "\<forall>x \<in> set (zip ts vs). keyed e (conv e s) True (fst x) (snd x)"
  shows "clean_at (append_struct_items e p c vs) s"
  using assms(3-)
proof (induction vs arbitrary: ts p s)
  case Nil
  then show ?case by (simp add: clean_at_def)
next
  case (Cons v vs)
  show ?case
  proof (cases ts)
    case Nil
    then have "cursor p s = (Inr NUL, s)" using Cons.prems(4) by (simp add: cursor_points_to_end)
    then show ?thesis
      using points_to_ld_str [OF Cons.prems(5)]
      by (simp add: clean_at_def panic_sig_def bnd_apply)
  next
    case (Cons ty tys)
    obtain x xs where sig: "sig_of ty = x # xs" by (cases "sig_of ty") auto
    have wf: "wf_ty ty" using Cons.prems(2) Cons by simp
    have x: "x \<noteq> NUL" using sig_of_no_NUL [OF wf] sig by auto
    have at: "points_to s (p_cursor p) (sig_of ty @ sigs_of tys)" using Cons.prems(4) Cons by simp
    have cur: "cursor p s = (Inr x, s)" using at sig by (simp add: cursor_points_to)
    have item: "clean_at (append_complete_type e p v) s"
      by (rule inside_safe [OF _ Cons.prems(3) at wf]) (use Cons.prems(1,6) Cons in auto)
    have rest: "clean_at (bnd (next_c q) (\<lambda>sp. append_struct_items e sp c vs)) t"
      if run: "append_complete_type e p v s = (Inr q, t)" for q t
    proof -
      have q: "q = at_end p ty" and fr: "frame s t"
        using complete_success [OF laws run at wf] by auto
      note at1 = frame_points_to [OF fr at]
      let ?q = "p\<lparr>p_cursor := cadd (p_cursor p) (length (sig_of ty))\<rparr>"
      have "clean_at (append_struct_items e ?q c vs) t"
        by (rule Cons.IH [of tys])
          (use Cons.prems Cons next_after_type(2) [OF at1] fr inside_frame frame_points_to
             frame_conv [OF fr] in auto)
      then show ?thesis unfolding q by - (rule clean_Inr, rule next_after_type(1) [OF at1])
    qed
    show ?thesis
      unfolding append_struct_items.simps
      by (rule clean_Inr, rule cur, simp add: x, rule clean_bnd, rule item, rule rest)
  qed
qed

lemma array_items_clean:
  assumes laws: "janet_laws e" "variant_law e"
    and "\<forall>v \<in> set vs. safe e v" and wf: "wf_ty ty" and "inside s"
    and "points_to s (p_cursor p) (sig_of ty)" and "\<forall>v \<in> set vs. keyed e (conv e s) True ty v"
  shows "clean_at (append_array_items e p vs) s"
  using assms(3,5-)
proof (induction vs arbitrary: s)
  case Nil
  then show ?case by (simp add: clean_at_def)
next
  case (Cons v vs)
  have at: "points_to s (p_cursor p) (sig_of ty @ [])" using Cons.prems(3) by simp
  have item: "clean_at (append_complete_type e p v) s"
    by (rule inside_safe [OF _ Cons.prems(2) at wf]) (use Cons.prems in auto)
  have rest: "clean_at (append_array_items e p vs) t"
    if run: "append_complete_type e p v s = (Inr q, t)" for q t
  proof -
    have fr: "frame s t" using complete_success [OF laws run at wf] by auto
    show ?thesis
      by (rule Cons.IH) (use Cons.prems fr inside_frame frame_points_to frame_conv [OF fr] in auto)
  qed
  show ?case unfolding append_array_items.simps by (rule clean_bnd, rule item, rule rest)
qed

lemma dict_entries_clean:
  assumes laws: "janet_laws e" "variant_law e"
    and "\<forall>kv \<in> set kvs. safe e (snd kv)" and k: "k \<in> set basic_codes" and wf: "wf_ty ty"
    and "inside s" and "points_to s (p_cursor p) (k # sig_of ty)"
    and "\<forall>kv \<in> set kvs. keyed e (conv e s) True ty (snd kv)"
    and "1 < ec_depth (errctx s) \<longrightarrow> (\<forall>kv \<in> set (tl kvs). conv e s k (fst kv) \<noteq> None)"
    and "kvs \<noteq> [] \<longrightarrow> ctx_ok s \<or> conv e s k (fst (hd kvs)) \<noteq> None"
  shows "clean_at (append_dict_entries e p kvs) s"
  using assms(3,6-)
proof (induction kvs arbitrary: s)
  case Nil
  then show ?case by (simp add: clean_at_def)
next
  case (Cons kv kvs)
  obtain key v where kv: "kv = (key, v)" by (cases kv)
  note at = Cons.prems(3)
  have key: "clean_at (append_basic_type e p key) t"
    if run: "write_call e (p_msg p) c s = (Inr rv, t)" for c rv t
  proof -
    note at1 = frame_points_to [OF write_call_frame [OF run] at]
    from Cons.prems(6) kv consider "ctx_ok s" | b where "conv e s k key = Some b" by auto
    then show ?thesis
    proof cases
      case 1
      show ?thesis by (rule clean_basic [OF laws(1) k at1 ctx_ok_frame_write [OF 1 run]])
    next
      case 2
      then have "append_basic_type e p key t = bnd (write_call e (p_msg p) (AppendBasic b)) (\<lambda>_. ret ()) t"
        using append_basic_spec [OF laws(1) k points_to_ld_Cons [OF at1], of key]
          frame_conv [OF write_call_frame [OF run]] by simp
      moreover have "clean_at (bnd (write_call e (p_msg p) (AppendBasic b)) (\<lambda>_. ret ())) t"
        by (rule clean_bnd) simp_all
      ultimately show ?thesis by (simp add: clean_at_def)
    qed
  qed
  have key_frame: "frame s u"
    if 1: "write_call e (p_msg p) c s = (Inr rv, t)" and 2: "append_basic_type e p key t = (Inr r, u)"
    for c rv t r u
  proof -
    note at1 = frame_points_to [OF write_call_frame [OF 1] at]
    obtain b where b: "conv e t k key = Some b"
      using append_basic_spec [OF laws(1) k points_to_ld_Cons [OF at1], of key] 2
      by (auto simp: panics_at_def split: option.splits)
    have "frame t u"
      using append_basic_appends [OF laws(1) k at1 b] 2 by (auto simp: appends_def split: sum.splits)
    then show ?thesis by (rule frame_trans [OF write_call_frame [OF 1]])
  qed
  let ?vp = "p\<lparr>p_cursor := cadd (p_cursor p) 1\<rparr>"
  have more: "clean_at (bnd (append_complete_type e ?vp v) (\<lambda>_.
      bnd (write_call e (p_msg p) CloseContainer) (\<lambda>_. append_dict_entries e p kvs))) u"
    if fr: "frame s u" for u
  proof (rule clean_bnd)
    have at3: "points_to u (p_cursor ?vp) (sig_of ty @ [])"
      using points_to_cadd1 [OF frame_points_to [OF fr at]] by simp
    show "clean_at (append_complete_type e ?vp v) u"
      by (rule inside_safe [OF _ inside_frame [OF Cons.prems(2) fr] at3 wf])
        (use Cons.prems(1,4) kv frame_conv [OF fr, of e] in auto)
    fix q w assume run: "append_complete_type e ?vp v u = (Inr q, w)"
    then have fr2: "frame s w" using complete_success [OF laws run at3 wf] fr frame_trans by blast
    show "clean_at (bnd (write_call e (p_msg p) CloseContainer) (\<lambda>_. append_dict_entries e p kvs)) w"
    proof (rule clean_bnd)
      fix rv z assume "write_call e (p_msg p) CloseContainer w = (Inr rv, z)"
      then have fr3: "frame s z" using fr2 write_call_frame frame_trans by blast
      have cz: "conv e z = conv e s" by (rule frame_conv [OF fr3])
      have in3: "inside z" by (rule inside_frame [OF Cons.prems(2) fr3])
      have dz: "ec_depth (errctx z) = ec_depth (errctx s)" using fr3 by (simp add: frame_def)
      show "clean_at (append_dict_entries e p kvs) z"
      proof (rule Cons.IH)
        show "1 < ec_depth (errctx z) \<longrightarrow> (\<forall>kv \<in> set (tl kvs). conv e z k (fst kv) \<noteq> None)"
          using Cons.prems(5) unfolding cz dz by (cases kvs) auto
        show "kvs \<noteq> [] \<longrightarrow> ctx_ok z \<or> conv e z k (fst (hd kvs)) \<noteq> None"
          using Cons.prems(5) in3 unfolding cz ctx_ok_def inside_def
          by (cases "1 < ec_depth (errctx z)") (auto simp: dz)
      qed (use Cons.prems in3 cz frame_points_to [OF fr3] in auto)
    qed simp
  qed
  show ?case
    unfolding kv append_dict_entries.simps
  proof (rule clean_Inr, rule points_to_ld_str, rule at, rule clean_bnd, simp, rule clean_bnd,
      erule key)
    fix rv t r u
    assume "write_call e (p_msg p) (OpenContainer (CHR ''e'') (k # sig_of ty)) s = (Inr rv, t)"
      and "append_basic_type e p key t = (Inr r, u)"
    then have fr: "frame s u" by (rule key_frame)
    show "clean_at (bnd (next_c p) (\<lambda>vp. bnd (append_complete_type e vp v) (\<lambda>_.
        bnd (write_call e (p_msg p) CloseContainer) (\<lambda>_. append_dict_entries e p kvs)))) u"
      by (rule clean_Inr, rule next_points_to, rule frame_points_to, rule fr, rule at,
          rule more, rule fr)
  qed
qed

subsection \<open>The types\<close>

lemma frame_copied_write:
  "write_call e m c (copied bytes s) = (Inr rv, t) \<Longrightarrow> frame s t"
  by (rule frame_trans [OF frame_copied write_call_frame])

lemma inside_of: "0 < ec_depth (errctx s) \<Longrightarrow> ctx_ok s \<Longrightarrow> inside s"
  by (simp add: inside_def ctx_ok_def)

lemma ctx_ok_mem:
  assumes "ctx_ok s" and "errctx t = errctx s" and "mem_ext s t"
  shows "ctx_ok t"
  using assms mem_ext_points_to [OF assms(3)] unfolding ctx_ok_def ctx0_ok_def ctx_at_def by metis

lemma ctx_ok_copied: "ctx_ok s \<Longrightarrow> ctx_ok (copied bytes s)"
  using frame_copied [of s bytes] by (auto simp: frame_def intro: ctx_ok_mem)

lemma clean_getindexed: "ctx_ok s \<Longrightarrow> clean_at (getindexed v) s"
  by (auto simp: getindexed_def clean_type_error split: option.split)

lemma clean_getdictionary: "ctx_ok s \<Longrightarrow> clean_at (getdictionary v) s"
  by (auto simp: getdictionary_def clean_type_error split: option.split)

lemma clean_getbytes: "ctx_ok s \<Longrightarrow> clean_at (getbytes v) s"
  by (auto simp: getbytes_def clean_type_error split: option.split)

lemma clean_gettuple: "ctx_ok s \<Longrightarrow> clean_at (gettuple v) s"
  by (auto simp: gettuple_def clean_type_error split: janet.split)

lemma clean_close:
  "clean_at (bnd (write_call e m CloseContainer) (\<lambda>_. bnd (janet_sfree sg) (\<lambda>_. ret q))) s"
  by (auto intro!: clean_bnd)

lemma struct_clean:
  assumes laws: "janet_laws e" "variant_law e" and IH: "\<And>w. size w < size v \<Longrightarrow> safe e w"
    and p: "points_to s (p_cursor p) (sig_of (TStruct ts) @ rest)" and wf: "wf_ty (TStruct ts)"
    and d: "0 < ec_depth (errctx s)" and ok: "ctx_ok s"
    and keyed: "keyed e (conv e s) n (TStruct ts) v"
  shows "clean_at (append_struct_type e p v) s"
proof -
  define sg where "sg = Some (next_id s, 0 :: nat)"
  define s0 where "s0 = copied (sigs_of ts @ [NUL]) s"
  have ts: "ts \<noteq> []" "\<forall>t \<in> set ts. wf_ty t" using wf by auto
  note eq = append_struct_run [OF p ts, folded sg_def s0_def]
  let ?q = "\<lparr>p_msg = p_msg p, p_cursor = sg\<rparr>"
  have items: "clean_at (bnd (append_struct_items e ?q sg vs) (\<lambda>sp.
      bnd (cursor sp) (\<lambda>ch.
      bnd (if ch \<noteq> NUL then panic_sig f sg else ret ()) (\<lambda>_.
      bnd (write_call e (p_msg p) CloseContainer) (\<lambda>_.
      bnd (janet_sfree sg) (\<lambda>_. ret r)))))) t"
    if w: "write_call e (p_msg p) c s0 = (Inr rv, t)" and vs: "indexed_view v = Some vs"
    for c rv t vs f and r :: parser
  proof (rule clean_bnd)
    have fr: "frame s t" using w frame_copied_write by (simp add: s0_def)
    have ins: "inside t" by (rule inside_frame [OF inside_of [OF d ok] fr])
    have safe: "\<forall>w \<in> set vs. safe e w" using IH indexed_view_item [OF vs] by blast
    have at: "points_to t sg (sigs_of ts)" by (rule frame_points_to [OF write_call_frame [OF w] eq(2)])
    show "clean_at (append_struct_items e ?q sg vs) t"
      by (rule struct_items_clean [OF laws safe ts(2) ins _ at])
        (use at keyed vs frame_conv [OF fr, of e] in auto)
    fix sp u assume run: "append_struct_items e ?q sg vs t = (Inr sp, u)"
    then obtain ts2 where fr2: "frame t u" and at2: "points_to u (p_cursor sp) (sigs_of ts2)"
      using struct_items_sound [OF _ ts(2) run] all_sound [OF laws] at by auto
    show "clean_at (bnd (cursor sp) (\<lambda>ch. bnd (if ch \<noteq> NUL then panic_sig f sg else ret ()) (\<lambda>_.
        bnd (write_call e (p_msg p) CloseContainer) (\<lambda>_. bnd (janet_sfree sg) (\<lambda>_. ret r))))) u"
    proof (rule clean_bnd [OF clean_cursor [OF at2]])
      fix ch z assume "cursor sp u = (Inr ch, z)"
      then have "z = u" unfolding cursor_def by (rule ld_same_state)
      then show "clean_at (bnd (if ch \<noteq> NUL then panic_sig f sg else ret ()) (\<lambda>_.
          bnd (write_call e (p_msg p) CloseContainer) (\<lambda>_. bnd (janet_sfree sg) (\<lambda>_. ret r)))) z"
        using clean_panic_sig [OF frame_points_to [OF fr2 at]]
        by (intro clean_bnd [OF _ clean_close] clean_if) simp_all
    qed
  qed
  show ?thesis
    unfolding clean_at_def eq(1)
    unfolding clean_at_def [symmetric]
  proof (rule clean_bnd, simp)
    fix rv t assume w: "write_call e (p_msg p) (OpenContainer (CHR ''r'') (sigs_of ts)) s0 = (Inr rv, t)"
    have ok1: "ctx_ok t" using ctx_ok_frame_write [OF ctx_ok_copied [OF ok]] w by (simp add: s0_def)
    show "clean_at (bnd (getindexed v) (\<lambda>items.
       bnd (guard (items \<noteq> []) (Panicf ''Empty struct: missing arguments'' [])) (\<lambda>_.
       bnd (append_struct_items e ?q sg items) (\<lambda>sp.
       bnd (cursor sp) (\<lambda>ch.
       bnd (if ch \<noteq> NUL then panic_sig ''Arguments missing for struct signature: %s'' sg
            else ret ()) (\<lambda>_.
       bnd (write_call e (p_msg p) CloseContainer) (\<lambda>_.
       bnd (janet_sfree sg) (\<lambda>_. ret (at_end p (TStruct ts)))))))))) t"
    proof (rule clean_bnd [OF clean_getindexed [OF ok1]], rule clean_bnd, simp)
      fix vs u r u' assume "getindexed v t = (Inr vs, u)"
        and "guard (vs \<noteq> []) (Panicf ''Empty struct: missing arguments'' []) u = (Inr r, u')"
      then have "indexed_view v = Some vs" "u' = t" by (auto dest: getindexedD split: if_splits)
      then show "clean_at (bnd (append_struct_items e ?q sg vs) (\<lambda>sp.
         bnd (cursor sp) (\<lambda>ch.
         bnd (if ch \<noteq> NUL then panic_sig ''Arguments missing for struct signature: %s'' sg
              else ret ()) (\<lambda>_.
         bnd (write_call e (p_msg p) CloseContainer) (\<lambda>_.
         bnd (janet_sfree sg) (\<lambda>_. ret (at_end p (TStruct ts)))))))) u'"
        using items [OF w, of vs] by simp
    qed
  qed
qed

lemma array_clean:
  assumes laws: "janet_laws e" "variant_law e" and IH: "\<And>w. size w < size v \<Longrightarrow> safe e w"
    and p: "points_to s (p_cursor p) (sig_of (TArray ty) @ rest)" and wf: "wf_ty ty"
    and d: "0 < ec_depth (errctx s)" and ok: "ctx_ok s"
    and keyed: "keyed e (conv e s) n (TArray ty) v"
  shows "clean_at (append_array_type e p v) s"
proof (cases "ty = TBasic (CHR ''y'')")
  case True
  then have peek: "peek p s = (Inr (CHR ''y''), s)"
    and nxt: "next_c p s = (Inr (p\<lparr>p_cursor := cadd (p_cursor p) 1\<rparr>), s)"
    using p next_points_to [of s p] by (simp_all add: peek_points_to)
  show ?thesis
    unfolding append_array_type.simps
    by (rule clean_Inr, rule peek, simp, rule clean_Inr, rule nxt)
      (auto intro!: clean_bnd clean_getbytes [OF ok])
next
  case False
  define sg where "sg = Some (next_id s, 0 :: nat)"
  define s0 where "s0 = copied (sig_of ty @ [NUL]) s"
  note eq = append_array_run [OF p wf False, folded sg_def s0_def]
  let ?q = "\<lparr>p_msg = p_msg p, p_cursor = sg\<rparr>"
  show ?thesis
    unfolding clean_at_def eq(1)
    unfolding clean_at_def [symmetric]
  proof (rule clean_bnd, simp, rule clean_bnd)
    fix rv t assume w: "write_call e (p_msg p) (OpenContainer (CHR ''a'') (sig_of ty)) s0 = (Inr rv, t)"
    have fr: "frame s t" using w frame_copied_write by (simp add: s0_def)
    have ok1: "ctx_ok t" using ctx_ok_frame_write [OF ctx_ok_copied [OF ok]] w by (simp add: s0_def)
    show "clean_at (getindexed v) t" by (rule clean_getindexed [OF ok1])
    fix vs u assume "getindexed v t = (Inr vs, u)"
    then have vs: "indexed_view v = Some vs" "u = t" by (auto dest: getindexedD)
    have safe: "\<forall>w \<in> set vs. safe e w" using IH indexed_view_item [OF vs(1)] by blast
    have "clean_at (append_array_items e ?q vs) t"
      by (rule array_items_clean [OF laws safe wf inside_frame [OF inside_of [OF d ok] fr]])
        (use frame_points_to [OF write_call_frame [OF w] eq(2)] keyed vs frame_conv [OF fr, of e]
         in auto)
    then show "clean_at (bnd (append_array_items e ?q vs) (\<lambda>_.
        bnd (write_call e (p_msg p) CloseContainer) (\<lambda>_.
        bnd (janet_sfree sg) (\<lambda>_. ret (at_end p (TArray ty)))))) u"
      unfolding vs(2) by (rule clean_bnd) (rule clean_close)
  qed
qed

lemma dict_clean:
  assumes laws: "janet_laws e" "variant_law e" and IH: "\<And>w. size w < size v \<Longrightarrow> safe e w"
    and p: "points_to s (p_cursor p) (sig_of (TDict k ty) @ rest)"
    and k: "k \<in> set basic_codes" and wf: "wf_ty ty"
    and d: "0 < ec_depth (errctx s)" and ok: "ctx_ok s"
    and keyed: "keyed e (conv e s) n (TDict k ty) v" and n: "1 < ec_depth (errctx s) \<longrightarrow> n"
  shows "clean_at (append_array_type e p v) s"
proof -
  let ?sig = "CHR ''{'' # k # sig_of ty @ [CHR ''}'']"
  define sg where "sg = Some (next_id s, 0 :: nat)"
  define s0 where "s0 = copied (?sig @ [NUL]) s"
  note eq = append_dict_run [OF p k wf, folded sg_def s0_def]
  let ?st = "stripped (next_id s) (k # sig_of ty)"
  let ?q = "\<lparr>p_msg = p_msg p, p_cursor = sg\<rparr>"
  have noNUL: "NUL \<notin> set (k # sig_of ty)"
    using sig_of_no_NUL [OF wf] basic_codes_not [OF k] by auto
  have fr0: "frame s s0" "next_id s < next_id s0" by (simp_all add: s0_def)
  show ?thesis
    unfolding clean_at_def eq(1)
    unfolding clean_at_def [symmetric]
  proof (rule clean_bnd, simp, rule clean_bnd, simp, rule clean_bnd)
    fix rv t x t'
    assume w: "write_call e (p_msg p) (OpenContainer (CHR ''a'') ?sig) s0 = (Inr rv, t)"
      and "upd ?st t = (Inr x, t')"
    then have t': "t' = ?st t" by simp
    note st = stripped [OF fr0 write_call_frame [OF w] noNUL, folded sg_def]
    have ext: "errctx t' = errctx s"
      using write_callD [OF w] by (simp add: t' stripped_def s0_def)
    have ok1: "ctx_ok t'" by (rule ctx_ok_mem [OF ok ext]) (use st(1) t' in \<open>simp add: frame_def\<close>)
    show "clean_at (getdictionary v) t'" by (rule clean_getdictionary [OF ok1])
    fix kvs u assume "getdictionary v t' = (Inr kvs, u)"
    then have kvs: "dictionary_view v = Some kvs" "u = t'" by (auto dest: getdictionaryD)
    have safe: "\<forall>kv \<in> set kvs. safe e (snd kv)"
      using IH dictionary_view_item(2) [OF kvs(1)] by force
    have fr: "frame s t'" using st(1) t' by simp
    have "clean_at (append_dict_entries e ?q kvs) t'"
    proof (rule dict_entries_clean [OF laws safe k wf inside_frame [OF inside_of [OF d ok] fr]])
      show "points_to t' (p_cursor ?q) (k # sig_of ty)" using st(2) t' by simp
      show "\<forall>kv \<in> set kvs. keyed e (conv e t') True ty (snd kv)"
        and "1 < ec_depth (errctx t') \<longrightarrow> (\<forall>kv \<in> set (tl kvs). conv e t' k (fst kv) \<noteq> None)"
        using keyed n kvs(1) frame_conv [OF fr, of e] ext by auto
      show "kvs \<noteq> [] \<longrightarrow> ctx_ok t' \<or> conv e t' k (fst (hd kvs)) \<noteq> None" using ok1 by simp
    qed
    then show "clean_at (bnd (append_dict_entries e ?q kvs) (\<lambda>_.
        bnd (write_call e (p_msg p) CloseContainer) (\<lambda>_.
        bnd (janet_sfree sg) (\<lambda>_. ret (at_end p (TDict k ty)))))) u"
      unfolding kvs(2) by (rule clean_bnd) (rule clean_close)
  qed
qed

lemma variant_clean:
  assumes laws: "janet_laws e" "variant_law e" and IH: "\<And>w. size w < size v \<Longrightarrow> safe e w"
    and d: "0 < ec_depth (errctx s)" and ok: "ctx_ok s"
    and keyed: "keyed e (conv e s) n TVariant v"
  shows "clean_at (append_variant_type e p v) s"
proof -
  have inner: "clean_at (bnd (append_complete_type e \<lparr>p_msg = p_msg p, p_cursor = c\<rparr> w) (\<lambda>_.
       bnd (write_call e (p_msg p) CloseContainer) (\<lambda>_. ret p))) s2"
    if v: "v = JTuple [JString sg, w]" and sig: "janet_getcbytes e (JString sg) = Inr vsig"
      and 1: "janet_cstring vsig s = (Inr c, s1)"
      and 2: "write_call e (p_msg p) (OpenContainer (CHR ''v'') vsig) s1 = (Inr rv, s2)"
    for sg w vsig c s1 rv s2
  proof -
    obtain ty where ty: "wf_ty ty" "vsig = sig_of ty"
      using write_callD [OF 2] laws(2) unfolding variant_law_def by blast
    have fr1: "frame s s1"
      using 1 by (auto simp: janet_cstring_def alloc_bytes_def frame_def mem_ext_def)
    have fr: "frame s s2" by (rule frame_trans [OF fr1 write_call_frame [OF 2]])
    have "points_to s1 c (sig_of ty)"
      using janet_cstring_points_to [OF 1] sig_of_no_NUL [OF ty(1)] ty(2) by simp
    then have at: "points_to s2 (p_cursor \<lparr>p_msg = p_msg p, p_cursor = c\<rparr>) (sig_of ty @ [])"
      using frame_points_to [OF write_call_frame [OF 2]] by simp
    have "clean_at (append_complete_type e \<lparr>p_msg = p_msg p, p_cursor = c\<rparr> w) s2"
      by (rule inside_safe [OF IH inside_frame [OF inside_of [OF d ok] fr] at ty(1)])
        (use v keyed sig ty frame_conv [OF fr, of e] in auto)
    then show ?thesis by (rule clean_bnd) (auto intro!: clean_bnd)
  qed
  have str: "clean_at (lift (janet_getcbytes e x)) s" for x
    using laws(1) by (auto simp: janet_laws_def intro!: clean_lift)
  have main: "clean_at (bnd (lift (janet_getcbytes e (JString sg))) (\<lambda>variant_sig.
        bnd (janet_cstring variant_sig) (\<lambda>variant_ptr.
        bnd (write_call e (p_msg p) (OpenContainer (CHR ''v'') variant_sig)) (\<lambda>_.
        bnd (append_complete_type e \<lparr>p_msg = p_msg p, p_cursor = variant_ptr\<rparr> w) (\<lambda>_.
        bnd (write_call e (p_msg p) CloseContainer) (\<lambda>_. ret p)))))) s"
    if v: "v = JTuple [JString sg, w]" for sg w
  proof (rule clean_bnd [OF str], rule clean_bnd)
    fix vsig u assume "lift (janet_getcbytes e (JString sg)) s = (Inr vsig, u)"
    then have 1: "janet_getcbytes e (JString sg) = Inr vsig" "u = s" by simp_all
    show "clean_at (janet_cstring vsig) u" by (simp add: clean_at_def janet_cstring_def alloc_bytes_def)
    fix c s1 assume "janet_cstring vsig u = (Inr c, s1)"
    then show "clean_at (bnd (write_call e (p_msg p) (OpenContainer (CHR ''v'') vsig)) (\<lambda>_.
        bnd (append_complete_type e \<lparr>p_msg = p_msg p, p_cursor = c\<rparr> w) (\<lambda>_.
        bnd (write_call e (p_msg p) CloseContainer) (\<lambda>_. ret p)))) s1"
      using inner [OF v 1(1)] 1(2) by (intro clean_bnd [OF clean_write_call]) simp
  qed
  show ?thesis
    unfolding append_variant_type.simps
  proof (rule clean_bnd [OF clean_gettuple [OF ok]])
    fix xs u assume "gettuple v s = (Inr xs, u)"
    then have v: "v = JTuple xs" "u = s" by (auto dest: gettupleD)
    show "clean_at (case xs of
       [sig, variant_arg] \<Rightarrow>
         (case sig of
            JString _ \<Rightarrow>
              bnd (lift (janet_getcbytes e sig)) (\<lambda>variant_sig.
              bnd (janet_cstring variant_sig) (\<lambda>variant_ptr.
              bnd (write_call e (p_msg p) (OpenContainer (CHR ''v'') variant_sig)) (\<lambda>_.
              bnd (append_complete_type e \<lparr>p_msg = p_msg p, p_cursor = variant_ptr\<rparr> variant_arg) (\<lambda>_.
              bnd (write_call e (p_msg p) CloseContainer) (\<lambda>_.
              ret p)))))
          | _ \<Rightarrow> raise (Panicf ''Expected string signature for variant, got %v'' [PVal sig]))
     | _ \<Rightarrow> raise (Panicf ''Variant type expects exactly 2 arguments'' [])) u"
      unfolding v(2) using main v(1) by (auto split: list.splits janet.splits)
  qed
qed

lemma all_safe:
  fixes e :: "'w env"
  assumes laws: "janet_laws e" "variant_law e"
  shows "safe e v"
proof (induction v rule: measure_induct_rule [of size])
  case (less v)
  show ?case
    unfolding safe_def
  proof (intro allI impI)
    fix p :: parser and s :: "'w world" and ty rest
    assume p: "points_to s (p_cursor p) (sig_of ty @ rest)" and wf: "wf_ty ty"
      and ctx0: "0 < ec_depth (errctx s) \<longrightarrow> ctx0_ok s"
      and keyed: "keyed e (conv e s) (0 < ec_depth (errctx s)) ty v"
    obtain x xs where sig: "sig_of ty = x # xs" by (cases "sig_of ty") auto
    define s1 where "s1 = s\<lparr>errctx := errctx_set (p_cursor p) (span_len ty) (errctx s)\<rparr>"
    have pts: "points_to s1 c str \<longleftrightarrow> points_to s c str" for c str
      by (simp add: points_to_def s1_def)
    have p1: "points_to s1 (p_cursor p) (sig_of ty @ rest)" using p pts by simp
    have conv1: "conv e s1 = conv e s" by (rule conv_same) (simp_all add: s1_def)
    have cur: "cursor p s1 = (Inr x, s1)" using p1 sig by (simp add: cursor_points_to)
    have set: "dbus_errctx_set (p_cursor p) (span_len ty) s = (Inr (), s1)"
      by (simp add: dbus_errctx_set_def s1_def)
    have d: "0 < ec_depth (errctx s1)" by (simp add: s1_def)
    have span: "0 < span_len ty" "span_len ty \<le> length (sig_of ty)"
      by (cases ty; simp add: span_len_def)+
    have here: "ctx_at s1 (p_cursor p) (span_len ty) (sig_of ty @ rest)"
      using p1 span by (simp add: ctx_at_def)
    have ok: "ctx_ok s1"
    proof (cases "0 < ec_depth (errctx s)")
      case True
      then have "ctx0_ok s1"
        using ctx0 unfolding ctx0_ok_def ctx_at_def pts by (simp add: s1_def)
      then show ?thesis
        using here True by (auto simp: ctx_ok_def s1_def errctx_set_def Let_def)
    next
      case False
      then show ?thesis
        using here by (auto simp: ctx_ok_def ctx0_ok_def s1_def errctx_set_def Let_def)
    qed
    have keyed1: "keyed e (conv e s1) (0 < ec_depth (errctx s)) ty v" using keyed conv1 by simp
    have deep: "1 < ec_depth (errctx s1) \<longrightarrow> 0 < ec_depth (errctx s)" by (simp add: s1_def)
    have main: "clean_at (dispatch e p v x) s1"
    proof (cases ty)
      case (TBasic ch)
      then have "ch \<in> set basic_codes" "x = ch" using wf sig by auto
      then show ?thesis
        using clean_basic [OF laws(1) _ _ ok, of ch p rest v] p1 TBasic
        by (auto simp: dispatch_def intro!: clean_bnd)
    next
      case TVariant
      then show ?thesis
        using variant_clean [OF laws less.IH d ok] keyed1 sig by (auto simp: dispatch_def)
    next
      case (TStruct ts)
      then show ?thesis
        using struct_clean [OF laws less.IH _ _ d ok, of v p ts rest] keyed1 sig p1 wf
        by (auto simp: dispatch_def)
    next
      case (TArray u)
      then show ?thesis
        using array_clean [OF laws less.IH _ _ d ok, of v p u rest] keyed1 sig p1 wf
        by (auto simp: dispatch_def)
    next
      case (TDict k u)
      then show ?thesis
        using dict_clean [OF laws less.IH _ _ _ d ok _ deep, of v p k u rest] keyed1 sig p1 wf
        by (auto simp: dispatch_def)
    qed
    show "clean_at (append_complete_type e p v) s"
      unfolding append_complete_dispatch
      by (rule clean_Inr, rule span_next_type_sig_of [OF p wf], rule clean_Inr, rule set,
          rule clean_Inr, rule cur, rule clean_bnd, rule main)
        (auto intro!: clean_bnd simp: dbus_errctx_exit_def)
  qed
qed

subsection \<open>The argument list\<close>

lemma args_clean:
  assumes laws: "janet_laws e" "variant_law e"
    and "\<forall>t \<in> set ts. wf_ty t" and "ec_depth (errctx s) = 0"
    and "points_to s (p_cursor p) (sigs_of ts)" and "points_to s sg str"
    and "\<forall>x \<in> set (zip ts vs). keyed e (conv e s) False (fst x) (snd x)"
  shows "clean_at (append_args e p sg vs) s"
  using assms(3-)
proof (induction vs arbitrary: ts p s)
  case Nil
  then show ?case by (simp add: clean_at_def)
next
  case (Cons v vs)
  show ?case
  proof (cases ts)
    case Nil
    then have "cursor p s = (Inr NUL, s)" using Cons.prems(3) by (simp add: cursor_points_to_end)
    then show ?thesis
      using points_to_ld_str [OF Cons.prems(4)] by (simp add: clean_at_def panic_sig_def bnd_apply)
  next
    case (Cons ty tys)
    obtain x xs where sig: "sig_of ty = x # xs" by (cases "sig_of ty") auto
    have wf: "wf_ty ty" using Cons.prems(1) Cons by simp
    have x: "x \<noteq> NUL" using sig_of_no_NUL [OF wf] sig by auto
    have at: "points_to s (p_cursor p) (sig_of ty @ sigs_of tys)" using Cons.prems(3) Cons by simp
    have cur: "cursor p s = (Inr x, s)" using at sig by (simp add: cursor_points_to)
    have item: "clean_at (bnd (append_complete_type e p v) (\<lambda>p.
        bnd (next_c p) (\<lambda>p. append_args e p sg vs))) t"
      if inc: "dbus_errctx_inc s = (Inr r, t)" for r t
    proof (rule clean_bnd)
      have fr0: "arg_frame s t" using inc by (rule inc_frame)
      have d: "ec_depth (errctx t) = 0" using fr0 Cons.prems(2) by (simp add: arg_frame_def)
      note at0 = arg_frame_points_to [OF fr0 at]
      show "clean_at (append_complete_type e p v) t"
        by (rule safeD [OF all_safe [OF laws] at0 wf])
          (use d Cons.prems(5) Cons arg_frame_conv [OF fr0, of e] in auto)
      fix q u assume run: "append_complete_type e p v t = (Inr q, u)"
      have q: "q = at_end p ty" and fr: "frame t u"
        using complete_success [OF laws run at0 wf] by auto
      have fr2: "arg_frame s u" by (rule arg_frame_trans [OF fr0 frame_arg_frame [OF fr]])
      note at1 = arg_frame_points_to [OF fr2 at]
      let ?q = "p\<lparr>p_cursor := cadd (p_cursor p) (length (sig_of ty))\<rparr>"
      have "clean_at (append_args e ?q sg vs) u"
        by (rule Cons.IH [of tys])
          (use Cons.prems Cons next_after_type(2) [OF at1] fr2 arg_frame_points_to [OF fr2]
             arg_frame_conv [OF fr2, of e] in \<open>auto simp: arg_frame_def\<close>)
      then show "clean_at (bnd (next_c q) (\<lambda>p. append_args e p sg vs)) u"
        unfolding q by - (rule clean_Inr, rule next_after_type(1) [OF at1])
    qed
    show ?thesis
      unfolding append_args.simps
      by (rule clean_Inr, rule cur, simp add: x, rule clean_bnd)
        (auto simp: dbus_errctx_inc_def intro: item)
  qed
qed

lemma append_data_clean:
  assumes laws: "janet_laws e" "variant_law e" and wf: "\<forall>t \<in> set ts. wf_ty t"
    and sig: "points_to s signature (sigs_of ts)"
    and keyed: "\<forall>x \<in> set (zip ts args). keyed e (conv e s) False (fst x) (snd x)"
  shows "clean_at (append_data e m signature args) s"
proof -
  define s1 where "s1 = s\<lparr>errctx := empty_errctx\<rparr>"
  let ?p = "\<lparr>p_msg = m, p_cursor = signature\<rparr>"
  have at: "points_to s1 signature (sigs_of ts)" using sig by (simp add: s1_def points_to_def)
  have conv: "conv e s1 = conv e s" by (rule conv_same) (simp_all add: s1_def)
  have args: "clean_at (append_args e ?p signature args) s1"
    by (rule args_clean [OF laws wf _ _ at])
      (use at keyed conv in \<open>auto simp: s1_def empty_errctx_def\<close>)
  have run: "append_data e m signature args s = bnd (append_args e ?p signature args) (\<lambda>p.
      bnd (cursor p) (\<lambda>ch. if ch \<noteq> NUL then panic_sig ''Arguments missing for signature: %s'' signature
        else ret ())) s1"
    by (simp add: append_data_def dbus_errctx_reset_def bnd_upd s1_def)
  have "clean_at (bnd (append_args e ?p signature args) (\<lambda>p.
      bnd (cursor p) (\<lambda>ch. if ch \<noteq> NUL then panic_sig ''Arguments missing for signature: %s'' signature
        else ret ()))) s1"
  proof (rule clean_bnd [OF args])
    fix q t assume run: "append_args e ?p signature args s1 = (Inr q, t)"
    obtain ts2 where fr: "arg_frame s1 t" and at2: "points_to t (p_cursor q) (sigs_of ts2)"
      using args_sound [OF laws wf run] at by auto
    have "points_to t signature (sigs_of ts)" by (rule arg_frame_points_to [OF fr at])
    then show "clean_at (bnd (cursor q) (\<lambda>ch.
        if ch \<noteq> NUL then panic_sig ''Arguments missing for signature: %s'' signature else ret ())) t"
      by (intro clean_bnd [OF clean_cursor [OF at2]] clean_if)
        (auto dest: ld_same_state simp: cursor_def intro: clean_panic_sig)
  qed
  then show ?thesis by (simp add: clean_at_def run)
qed

end
