(* ===== verification/Base_Env.thy ===== *)
theory Base_Env
  imports Append_Spec
begin

text \<open>
  A concrete outside world, in which the hypotheses on the external functions hold. It is
  the instance at which theorems about all outside worlds are applied in their examples:
  every call succeeds and changes nothing, and the Janet functions do what their
  documentation says. An example overrides the functions it exercises.
\<close>

definition check_range :: "int \<Rightarrow> int \<Rightarrow> janet \<Rightarrow> bool" where
  "check_range lo hi x = int_in lo hi x"

definition cbytes :: "janet \<Rightarrow> panic + string" where
  "cbytes x = (case bytes_view x of
      Some str \<Rightarrow> if NUL \<in> set str
        then Inl (Panicf ''string contains embedded 0s'' []) else Inr str
    | None \<Rightarrow> Inl (Panicf ''bad slot #%d, expected %T, got %v'' [PInt 0, PVal x]))"

definition number64 :: "janet \<Rightarrow> panic + 64 word" where
  "number64 x = (if int_in (- 9007199254740992) 9007199254740992 x
     then (case int_value x of
         Some i \<Rightarrow> Inr (word_of_int i)
       | None \<Rightarrow> Inl (Panicf ''can not convert %v to 64 bit integer'' [PVal x]))
     else Inl (Panicf ''can not convert %v to 64 bit integer'' [PVal x]))"

definition unwrap_s64 :: "janet \<Rightarrow> panic + 64 word" where
  "unwrap_s64 x = (case x of JS64 w \<Rightarrow> Inr w | _ \<Rightarrow> number64 x)"

definition unwrap_u64 :: "janet \<Rightarrow> panic + 64 word" where
  "unwrap_u64 x = (case x of JU64 w \<Rightarrow> Inr w | _ \<Rightarrow> number64 x)"

fun table_put :: "(janet \<times> janet) list \<Rightarrow> janet \<Rightarrow> janet \<Rightarrow> (janet \<times> janet) list" where
  "table_put [] k v = (if k = JNil \<or> k = JNumber NaN \<or> v = JNil then [] else [(k, v)])"
| "table_put ((k', v') # kvs) k v =
     (if k = JNil \<or> k = JNumber NaN then (k', v') # kvs
      else if k = k' then (if v = JNil then kvs else (k, v) # kvs)
      else (k', v') # table_put kvs k v)"

definition base_env :: "'w env" where
  "base_env = \<lparr>
     sd_write = \<lambda>_ _ w. (0, w),
     sd_peek_type = \<lambda>_ _. (0, NUL, ''''),
     sd_enter_container = \<lambda>_ _ _ w. (1, w),
     sd_exit_container = \<lambda>_ w. (1, w),
     sd_read_b = \<lambda>_ w. ((1, False), w),
     sd_read_y = \<lambda>_ w. ((1, 0), w),
     sd_read_n = \<lambda>_ w. ((1, 0), w),
     sd_read_q = \<lambda>_ w. ((1, 0), w),
     sd_read_i = \<lambda>_ w. ((1, 0), w),
     sd_read_u = \<lambda>_ w. ((1, 0), w),
     sd_read_x = \<lambda>_ w. ((1, 0), w),
     sd_read_t = \<lambda>_ w. ((1, 0), w),
     sd_read_d = \<lambda>_ w. ((1, Fin 0), w),
     sd_read_str = \<lambda>_ _ w. ((1, ''''), w),
     sd_read_h = \<lambda>_ w. ((1, 3), w),
     sd_rewind = \<lambda>_ w. (1, w),
     sd_seal = \<lambda>_ w. (0, w),
     sd_send = \<lambda>_ w. (1, w),
     sd_dump = \<lambda>_ _ w. (0, w),
     sd_message_ref = \<lambda>m w. (m, w),
     sd_message_unref = \<lambda>_ w. ((), w),
     sd_new_method_call = \<lambda>_ _ _ _ _ w. ((0, Some 1), w),
     sd_new_method_return = \<lambda>_ w. ((0, Some 1), w),
     sd_new_method_error = \<lambda>_ _ w. ((0, Some 1), w),
     sd_new_signal = \<lambda>_ _ _ _ w. ((0, Some 1), w),
     sd_new = \<lambda>_ _ w. ((0, Some 1), w),
     sd_copy = \<lambda>_ _ w. (1, w),
     sd_get_destination = \<lambda>_ _. None,
     sd_get_path = \<lambda>_ _. None,
     sd_get_interface = \<lambda>_ _. None,
     sd_get_member = \<lambda>_ _. None,
     sd_get_sender = \<lambda>_ _. None,
     sd_get_type = \<lambda>_ _. 2,
     sd_get_error = \<lambda>_ _. None,
     sd_is_method_error = \<lambda>_ _. 0,
     sd_call_async = \<lambda>_ _ _ _ w. ((1, Some 1), w),
     sd_add_match_async = \<lambda>_ _ _ w. ((1, Some 1), w),
     sd_add_object_vtable = \<lambda>_ _ _ _ _ w. ((0, Some 1), w),
     sd_slot_set_floating = \<lambda>_ _ w. (1, w),
     sd_slot_set_destroy = \<lambda>_ _ w. (0, w),
     sd_slot_unref = \<lambda>_ w. Done () w,
     sd_process = \<lambda>_ w. Done 0 w,
     sd_get_events = \<lambda>_ w. (1, w),
     sd_get_timeout = \<lambda>_ w. ((1, - 1), w),
     sd_get_fd = \<lambda>_ w. (3, w),
     sd_open_user = \<lambda>w. ((0, Some 1), w),
     sd_open_system = \<lambda>w. ((0, Some 1), w),
     sd_open_user_machine = \<lambda>_ w. ((0, Some 1), w),
     sd_open_system_machine = \<lambda>_ w. ((0, Some 1), w),
     sd_open_system_remote = \<lambda>_ w. ((0, Some 1), w),
     sd_flush_close_unref = \<lambda>_ w. Done () w,
     sd_is_open = \<lambda>_ w. (1, w),
     sd_get_unique_name = \<lambda>_ w. ((0, '':1.1''), w),
     sd_set_allow_interactive = \<lambda>_ _ w. (0, w),
     sd_list_names = \<lambda>_ w. ((0, []), w),
     sd_emit_properties_changed = \<lambda>_ _ _ _ w. (0, w),
     sd_error_setf = \<lambda>_. - 5,
     sd_object_path_is_valid = \<lambda>_. 1,
     sd_interface_name_is_valid = \<lambda>_. 1,
     sd_member_name_is_valid = \<lambda>_. 1,
     sys_malloc = \<lambda>w. (True, w),
     sys_errno = \<lambda>_. 0,
     sys_fcntl_dupfd_cloexec = \<lambda>fd w. (fd + 1, w),
     sys_fcntl_getfl = \<lambda>_ w. (2, w),
     sys_getsockopt_type = \<lambda>_ w. ((- 1, 0), w),
     sys_timerfd_create = \<lambda>w. (4, w),
     sys_timerfd_settime = \<lambda>_ _ _ w. (0, w),
     sys_read_timer = \<lambda>_ w. (8, w),
     janet_int_types = True,
     janet_checkint16 = check_range (- 32768) 32767,
     janet_checkuint16 = check_range 0 65535,
     janet_checkint = check_range (- 2147483648) 2147483647,
     janet_checkuint = check_range 0 4294967295,
     janet_checkint64 = check_range (- 9007199254740992) 9007199254740992,
     janet_checkuint64 = check_range 0 9007199254740992,
     janet_unwrap_s64 = unwrap_s64,
     janet_unwrap_u64 = unwrap_u64,
     janet_getcbytes = cbytes,
     janet_table_put = table_put,
     janet_to_string = \<lambda>v. case bytes_view v of Some str \<Rightarrow> str | None \<Rightarrow> '''',
     janet_pcall = \<lambda>_ _ s. ((False, JNil), s),
     janet_stream_close = \<lambda>_ w. Done () w,
     janet_channel_closed = \<lambda>_ _. False\<rparr>"

definition base_world :: "'w \<Rightarrow> 'w world" where
  "base_world w = \<lparr>ext = w, errctx = empty_errctx, scratch = (\<lambda>_. None), pend = (\<lambda>_. None),
     asyncs = (\<lambda>_. None), exports = (\<lambda>_. None),
     conns = (\<lambda>_. \<lparr>cbus = None, cbus_stream = None, ctimer = None, cqueue = None\<rparr>),
     msgs = (\<lambda>_. None), slots = (\<lambda>_. None),
     streams = (\<lambda>_. \<lparr>s_handle = 3, s_flags = {}\<rparr>),
     files = (\<lambda>_. \<lparr>f_file = Some 0, f_closed = False, f_fileno = 3\<rparr>),
     fibers = (\<lambda>_. 0), callbacks = (\<lambda>_. BusCallback), roots = [], next_id = 0, trace = []\<rparr>"

text \<open>A world whose block 0 holds a signature.\<close>

definition world_with :: "'w \<Rightarrow> string \<Rightarrow> 'w world" where
  "world_with w str = (base_world w)\<lparr>scratch := [0 \<mapsto> str @ [NUL]], next_id := 1\<rparr>"

lemma world_with_points_to:
  "NUL \<notin> set str \<Longrightarrow> points_to (world_with w str) (Some (0, 0)) str"
  by (simp add: world_with_def base_world_def points_to_def)

lemma int_in_mono: "int_in lo hi x \<Longrightarrow> lo' \<le> lo \<Longrightarrow> hi \<le> hi' \<Longrightarrow> int_in lo' hi' x"
  by (auto simp: int_in_def split: option.splits)

lemma number64_Inl: "number64 x = Inl p \<Longrightarrow> \<not> is_ub p"
  by (auto simp: number64_def split: if_splits option.splits)

lemma cbytes_cases:
  "cbytes x = Inr str \<Longrightarrow> NUL \<notin> set str" "cbytes x = Inl p \<Longrightarrow> \<not> is_ub p"
  by (auto simp: cbytes_def split: option.splits if_splits)

text \<open>An environment with the same Janet functions satisfies the same laws.\<close>

definition janet_part where
  "janet_part e = (janet_checkint16 e, janet_checkuint16 e, janet_checkint e, janet_checkuint e,
     janet_checkint64 e, janet_checkuint64 e, janet_unwrap_s64 e, janet_unwrap_u64 e,
     janet_getcbytes e)"

lemma base_env_laws: "janet_laws (base_env :: 'w env)"
  unfolding janet_laws_def base_env_def
  by (simp add: check_range_def unwrap_s64_def unwrap_u64_def cbytes_cases number64_Inl
      split: janet.splits)
    (auto simp: cbytes_def elim: int_in_mono split: if_splits)

lemma janet_laws_part: "janet_part e = janet_part e' \<Longrightarrow> janet_laws e \<Longrightarrow> janet_laws e'"
  unfolding janet_part_def janet_laws_def by (simp only: prod.inject) blast

end
