(* ===== verification/Append_Claims.thy ===== *)
theory Append_Claims
  imports Append_Safety Base_Env
begin

text \<open>
  The properties of the append half of \<open>src/message.c\<close> and of \<open>src/unwrap.c\<close>, with an example
  of each at a concrete outside world: a message that records the calls made on it.
\<close>

definition log_env :: "wcall list env" where
  "log_env = base_env\<lparr>sd_write := \<lambda>_ c w. (0, w @ [c])\<rparr>"

lemma log_env_laws: "janet_laws log_env"
  by (rule janet_laws_part [OF _ base_env_laws]) (simp add: janet_part_def log_env_def)

lemma run_calls_log [simp]: "run_calls log_env m cs w = (Inr (), w @ cs)"
  by (induction cs arbitrary: w) (simp_all add: log_env_def)

text \<open>A dictionary of variants and a structure: \<open>a{sv}(nb)\<close>.\<close>

definition ex_types :: "ty list" where
  "ex_types = [TDict (CHR ''s'') TVariant, TStruct [TBasic (CHR ''n''), TBasic (CHR ''b'')]]"

definition ex_args :: "janet list" where
  "ex_args = [JTable [(JString ''k'', JTuple [JString ''u'', JNumber (Fin 7)])],
     JTuple [JNumber (Fin (- 3)), JBoolean True]]"

definition ex_calls :: "wcall list" where
  "ex_calls =
     [OpenContainer (CHR ''a'') ''{sv}'', OpenContainer (CHR ''e'') ''sv'',
      AppendBasic (Str (CHR ''s'') ''k''), OpenContainer (CHR ''v'') ''u'', AppendBasic (Uint32 7),
      CloseContainer, CloseContainer, CloseContainer,
      OpenContainer (CHR ''r'') ''nb'', AppendBasic (Int16 (- 3)), AppendBasic (Boolean True),
      CloseContainer]"

lemma ex_enc: "enc_fields log_env s ex_types ex_args ex_calls"
proof -
  note conv = conv_def ranged_def int_in_def int_value_def log_env_def base_env_def cbytes_def
    basic_codes_def
  have k: "conv log_env s (CHR ''s'') (JString ''k'') = Some (Str (CHR ''s'') ''k'')"
    by (simp add: conv NUL_def)
  have u: "enc log_env s (TBasic (CHR ''u'')) (JNumber (Fin 7)) [AppendBasic (Uint32 7)]"
    by (rule basic) (simp_all add: conv)
  have v: "enc log_env s TVariant (JTuple [JString ''u'', JNumber (Fin 7)])
     (OpenContainer (CHR ''v'') ''u'' # [AppendBasic (Uint32 7)] @ [CloseContainer])"
    using variant [OF _ _ u, of "''u''"] by (simp add: conv NUL_def)
  have entry: "enc_entries log_env s (CHR ''s'') TVariant
      [(JString ''k'', JTuple [JString ''u'', JNumber (Fin 7)])]
      ((OpenContainer (CHR ''e'') ''sv'' # AppendBasic (Str (CHR ''s'') ''k'') #
        (OpenContainer (CHR ''v'') ''u'' # [AppendBasic (Uint32 7)] @ [CloseContainer])
        @ [CloseContainer]) @ [])"
    using entries_Cons [OF k v entries_Nil] by simp
  have d: "enc log_env s (TDict (CHR ''s'') TVariant)
      (JTable [(JString ''k'', JTuple [JString ''u'', JNumber (Fin 7)])])
      [OpenContainer (CHR ''a'') ''{sv}'', OpenContainer (CHR ''e'') ''sv'',
       AppendBasic (Str (CHR ''s'') ''k''), OpenContainer (CHR ''v'') ''u'', AppendBasic (Uint32 7),
       CloseContainer, CloseContainer, CloseContainer]"
    using dict [OF _ _ _ entry] by (simp add: basic_codes_def)
  have n: "enc log_env s (TBasic (CHR ''n'')) (JNumber (Fin (- 3))) [AppendBasic (Int16 (- 3))]"
    by (rule basic) (simp_all add: conv)
  have b: "enc log_env s (TBasic (CHR ''b'')) (JBoolean True) [AppendBasic (Boolean True)]"
    by (rule basic) (simp_all add: conv)
  have fields: "enc_fields log_env s [TBasic (CHR ''n''), TBasic (CHR ''b'')]
      [JNumber (Fin (- 3)), JBoolean True]
      ([AppendBasic (Int16 (- 3))] @ ([AppendBasic (Boolean True)] @ []))"
    by (intro fields_Cons n b fields_Nil) (simp_all add: basic_codes_def)
  have st: "enc log_env s (TStruct [TBasic (CHR ''n''), TBasic (CHR ''b'')])
      (JTuple [JNumber (Fin (- 3)), JBoolean True])
      [OpenContainer (CHR ''r'') ''nb'', AppendBasic (Int16 (- 3)), AppendBasic (Boolean True),
       CloseContainer]"
    using struct [OF _ _ fields] by simp
  show ?thesis
    using fields_Cons [OF _ d fields_Cons [OF _ st fields_Nil]]
    by (simp add: ex_types_def ex_args_def ex_calls_def basic_codes_def)
qed

lemma ex_sig: "sigs_of ex_types = ''a{sv}(nb)''"
  by (simp add: ex_types_def)

definition ex_world :: "wcall list world" where
  "ex_world = world_with [] ''a{sv}(nb)''"

lemma ex_points_to: "points_to ex_world (Some (0, 0)) (sigs_of ex_types)"
  unfolding ex_sig ex_world_def by (rule world_with_points_to) (simp add: NUL_def)

subsection \<open>Appending\<close>

text \<open>C1: On a signature made of complete types and arguments that fit it, \<open>append_data\<close> makes
  exactly the sd-bus calls of the encoding of the arguments, containers opened and closed in
  matching pairs. It returns if they all succeed, leaving every other part of the state
  alone and the error context at depth 0, and it panics with the first failing call otherwise.\<close>

theorem append_data_correct:
  assumes "janet_laws e" and "enc_fields e s ts args cs"
    and "points_to s signature (sigs_of ts)"
  shows "\<exists>r t. append_data e m signature args s = (r, t) \<and> ext t = snd (run_calls e m cs (ext s))
     \<and> (case fst (run_calls e m cs (ext s)) of
          Inl p \<Rightarrow> r = Inl p
        | Inr _ \<Rightarrow> r = Inr () \<and> mem_ext s t \<and> pend t = pend s \<and> asyncs t = asyncs s
            \<and> exports t = exports s \<and> conns t = conns s \<and> msgs t = msgs s \<and> slots t = slots s
            \<and> streams t = streams s \<and> files t = files s \<and> ec_depth (errctx t) = 0)"
  using append_data_run [OF assms, of m]
  by (cases "append_data e m signature args s")
    (auto simp: runs_as_def arg_frame_def mem_ext_def empty_errctx_def split: sum.splits)

theorem append_data_correct_witness:
  "\<exists>t. append_data log_env (Some 1) (Some (0, 0)) ex_args ex_world = (Inr (), t) \<and> ext t = ex_calls"
  using append_data_correct [OF log_env_laws ex_enc ex_points_to, of "Some 1"]
  by (auto simp: ex_world_def world_with_def base_world_def)

text \<open>C6: \<open>append_data\<close> returns exactly when the arguments have an encoding for the signature and
  sd-bus accepts its calls: ill-typed, missing or superfluous arguments never pass, provided
  sd-bus refuses a variant whose contents are not one complete type.\<close>

theorem append_data_accepts_iff:
  assumes "janet_laws e" and "variant_law e" and "\<forall>t \<in> set ts. wf_ty t"
    and "points_to s signature (sigs_of ts)"
  shows "fst (append_data e m signature args s) = Inr () \<longleftrightarrow>
     (\<exists>cs. enc_fields e s ts args cs \<and> fst (run_calls e m cs (ext s)) = Inr ())"
proof
  assume "fst (append_data e m signature args s) = Inr ()"
  then obtain t where t: "append_data e m signature args s = (Inr (), t)"
    by (metis prod.collapse)
  obtain cs where cs: "enc_fields e s ts args cs"
    using append_data_sound [OF assms t] by blast
  then show "\<exists>cs. enc_fields e s ts args cs \<and> fst (run_calls e m cs (ext s)) = Inr ()"
    using append_data_run [OF assms(1) cs assms(4), where m = m] t
    by (auto simp: runs_as_def split: sum.splits)
next
  assume "\<exists>cs. enc_fields e s ts args cs \<and> fst (run_calls e m cs (ext s)) = Inr ()"
  then obtain cs where cs: "enc_fields e s ts args cs" "fst (run_calls e m cs (ext s)) = Inr ()"
    by blast
  then show "fst (append_data e m signature args s) = Inr ()"
    using append_data_run [OF assms(1) cs(1) assms(4), where m = m] by (simp add: runs_as_def)
qed

text \<open>A message that checks the contents of a variant: here only \<open>u\<close> and \<open>s\<close> are accepted.\<close>

definition strict_env :: "wcall list env" where
  "strict_env = base_env\<lparr>sd_write := \<lambda>_ c w. (case c of
      OpenContainer k sg \<Rightarrow> if k = CHR ''v'' \<and> sg \<noteq> ''u'' \<and> sg \<noteq> ''s'' then (- 22, w) else (0, w @ [c])
    | _ \<Rightarrow> (0, w @ [c]))\<rparr>"

lemma strict_env_laws: "janet_laws strict_env" "variant_law strict_env"
proof -
  show "janet_laws strict_env"
    by (rule janet_laws_part [OF _ base_env_laws]) (simp add: janet_part_def strict_env_def)
  have "wf_ty (TBasic (CHR ''u''))" "wf_ty (TBasic (CHR ''s''))" by (simp_all add: basic_codes_def)
  then show "variant_law strict_env"
    unfolding variant_law_def
    by (auto simp: strict_env_def intro: exI [of _ "TBasic (CHR ''u'')"] exI [of _ "TBasic (CHR ''s'')"]
        split: if_splits)
qed

theorem append_data_accepts_iff_witness:
  "fst (append_data strict_env (Some 1) (Some (0, 0)) [JString ''x''] (world_with [] ''(i)'')) \<noteq> Inr ()"
proof -
  have wf: "\<forall>t \<in> set [TStruct [TBasic (CHR ''i'')]]. wf_ty t" by (simp add: basic_codes_def)
  have at: "points_to (world_with ([] :: wcall list) ''(i)'') (Some (0, 0)) (sigs_of [TStruct [TBasic (CHR ''i'')]])"
    using world_with_points_to [of "''(i)''" "[] :: wcall list"] by (simp add: NUL_def)
  have "\<not> enc_fields strict_env s [TStruct [TBasic (CHR ''i'')]] [JString ''x''] cs" for s cs
    by (auto elim!: enc_fieldsE enc_structE)
  then show ?thesis
    using append_data_accepts_iff [OF strict_env_laws wf at  , of "Some 1" "[JString ''x'']"] by blast
qed

subsection \<open>Scanning signatures\<close>

text \<open>C31: At a complete type, \<open>span_next_type\<close> returns the length of its signature, whatever
  follows it, and moves nothing; at a structure it returns one less, the offset of the closing
  parenthesis, so that an error context shows the structure without it.\<close>

theorem span_next_type_length:
  assumes "points_to s (p_cursor p) (sig_of t @ rest)" and "wf_ty t"
  shows "span_next_type p s =
     (Inr (case t of TStruct _ \<Rightarrow> length (sig_of t) - 1 | _ \<Rightarrow> length (sig_of t)), s)"
  using span_next_type_sig_of [OF assms] by (simp add: span_len_def)

theorem span_next_type_length_witness:
  "span_next_type \<lparr>p_msg = None, p_cursor = Some (0, 0)\<rparr> (world_with () ''(i)s'')
     = (Inr 2, world_with () ''(i)s'')"
  using span_next_type_length [of "world_with () ''(i)s''" "\<lparr>p_msg = None, p_cursor = Some (0, 0)\<rparr>"
      "TStruct [TBasic (CHR ''i'')]" "''s''"] world_with_points_to [of "''(i)s''" "()"]
  by (simp add: NUL_def basic_codes_def)

text \<open>C30: On a complete type followed by anything, \<open>find_subtype\<close> returns the offset of the type's
  last character, and any result of it lies inside the string it was given; it never reads past
  the end of the string.\<close>

theorem find_subtype_correct:
  "(wf_ty t \<longrightarrow> find_subtype (sig_of t @ str) = Inr (length (sig_of t) - 1)) \<and>
   (\<forall>r. find_subtype str = Inr r \<longrightarrow> r < length str) \<and>
   (\<forall>p. find_subtype str = Inl p \<longrightarrow> \<not> is_ub p)"
  using find_subtype_sig_of [of t str] find_subtype_bounds [of str] find_subtype_no_UB [of str]
  by blast

theorem find_subtype_correct_witness:
  "find_subtype ''aa{s(ii)}u'' = Inr 8"
  using find_subtype_correct [of "TArray (TDict (CHR ''s'')
      (TStruct [TBasic (CHR ''i''), TBasic (CHR ''i'')]))" "''u''"]
  by (simp add: basic_codes_def)

text \<open>What \<open>match\<close> returns is the offset of a closing character inside the string, after at
  least one character, and on the signature of a structure it is the offset of the parenthesis
  that closes it, however deeply other structures are nested in it.\<close>

lemma match_correct:
  "(\<forall>r. match str op cl = Inr r \<longrightarrow> 0 < r \<and> r < length str \<and> str ! r = cl) \<and>
   (wf_ty (TStruct ts) \<longrightarrow>
      match (sig_of (TStruct ts) @ rest) (CHR ''('') (CHR '')'')
        = Inr (length (sig_of (TStruct ts)) - 1))"
  using match_bounds [of str op cl] match_struct [of ts rest] by simp

text \<open>A type signature has one reading: no complete type is a prefix of another, and the
  encoding of arguments is determined by the signature string and the arguments.\<close>

lemma signature_unambiguous:
  assumes "sigs_of ts = sigs_of us"
    and "enc_fields e s ts args cs" and "enc_fields e s us args ds"
  shows "ts = us \<and> cs = ds"
proof -
  have "ts = us"
    by (rule sigs_of_inject [OF enc_fields_wf [OF assms(2)] enc_fields_wf [OF assms(3)] assms(1)])
  then show ?thesis using enc_unique(2) [OF assms(2)] assms(3) by simp
qed

subsection \<open>Memory safety\<close>

text \<open>C5: Whatever the arguments are, well-typed or not, \<open>append_data\<close> on a signature of complete
  types never reads or writes outside its scratch blocks, never uses a freed one and never casts
  a number out of range, provided that below the top level the second and later keys of
  a dictionary fit its key type.\<close>

theorem append_data_memory_safe:
  assumes "janet_laws e" and "variant_law e" and "\<forall>t \<in> set ts. wf_ty t"
    and "points_to s signature (sigs_of ts)"
    and "\<forall>x \<in> set (zip ts args). keyed e (conv e s) False (fst x) (snd x)"
    and "append_data e m signature args s = (Inl p, t)"
  shows "\<not> is_ub p"
  using append_data_clean [OF assms(1-5), of m] assms(6) by (auto simp: clean_at_def)

definition bad_key_args :: "janet list" where
  "bad_key_args = [JTable [(JString ''k'', JString ''v''), (JNil, JString ''w'')]]"

theorem append_data_memory_safe_witness:
  "\<exists>p. fst (append_data strict_env (Some 1) (Some (0, 0)) bad_key_args (world_with [] ''a{ss}'')) = Inl p
     \<and> \<not> is_ub p"
proof -
  have wf: "\<forall>t \<in> set [TDict (CHR ''s'') (TBasic (CHR ''s''))]. wf_ty t" by (simp add: basic_codes_def)
  have at: "points_to (world_with ([] :: wcall list) ''a{ss}'') (Some (0, 0))
      (sigs_of [TDict (CHR ''s'') (TBasic (CHR ''s''))])"
    using world_with_points_to [of "''a{ss}''" "[] :: wcall list"] by (simp add: NUL_def)
  have "\<not> isl (fst (append_data strict_env (Some 1) (Some (0, 0)) bad_key_args
      (world_with [] ''a{ss}''))) \<longleftrightarrow> False" by code_simp
  then obtain p t where run: "append_data strict_env (Some 1) (Some (0, 0)) bad_key_args
      (world_with [] ''a{ss}'') = (Inl p, t)"
    by (metis isl_def prod.collapse)
  have "\<not> is_ub p"
    by (rule append_data_memory_safe [OF strict_env_laws wf at _ run]) (simp add: bad_key_args_def)
  then show ?thesis using run by auto
qed

text \<open>Without that proviso the claim fails: with signature \<open>aa{s(s)}\<close>, a second key that is
  not a string makes \<open>dbus_type_error\<close> read the signature of the first entry's value, which was
  already freed.\<close>

definition stale_arg :: janet where
  "stale_arg = JArray [JTable [(JString ''a'', JTuple [JString ''x'']),
     (JBoolean True, JTuple [JString ''y''])]]"

lemma stale_context_read:
  "fst (append_data base_env m (Some (0, 0)) [stale_arg] (world_with w ''aa{s(s)}''))
     = Inl (UB UseAfterFree)"
  by code_simp

subsection \<open>Conversions\<close>

text \<open>C28: The getters of the integer types up to 32 bits return exactly for the integral numbers
  that fit the type, with the value unchanged by the conversion, and keep the state; on
  anything else they panic without changing it.\<close>

definition exact_getter :: "('w, 'a::len word) prog \<Rightarrow> (int \<Rightarrow> bool) \<Rightarrow> janet \<Rightarrow> 'w world \<Rightarrow> bool" where
  "exact_getter m fits x s \<longleftrightarrow>
     (case int_value x of
        Some i \<Rightarrow> if fits i then m s = (Inr (word_of_int i), s) else panics_at m s
      | None \<Rightarrow> panics_at m s)"

lemma exact_getterI:
  assumes "getter_ok (\<lambda>_. ranged lo hi (\<lambda>i. mk (word_of_int i)) x) mk m" and "inj mk"
  shows "exact_getter m (\<lambda>i. lo \<le> i \<and> i \<le> hi) x s"
  using getter_okD [OF assms(1), of s] injD [OF assms(2)]
  by (auto simp: exact_getter_def ranged_def int_in_def split: option.splits if_splits)

theorem integer_getters_exact:
  assumes "janet_laws e"
  shows "exact_getter (getuinteger8 x) (\<lambda>i. 0 \<le> i \<and> i \<le> 255) x s
     \<and> exact_getter (getinteger16 e x) (\<lambda>i. - 32768 \<le> i \<and> i \<le> 32767) x s
     \<and> exact_getter (getuinteger16 e x) (\<lambda>i. 0 \<le> i \<and> i \<le> 65535) x s
     \<and> exact_getter (getinteger e x) (\<lambda>i. - 2147483648 \<le> i \<and> i \<le> 2147483647) x s
     \<and> exact_getter (getuinteger e x) (\<lambda>i. 0 \<le> i \<and> i \<le> 4294967295) x s"
  by (intro conjI)
    (rule exact_getterI [OF getuinteger8_ok] exact_getterI [OF getinteger16_ok [OF assms]]
      exact_getterI [OF getuinteger16_ok [OF assms]] exact_getterI [OF getinteger_ok [OF assms]]
      exact_getterI [OF getuinteger_ok [OF assms]]; simp add: inj_def)+

theorem integer_getters_exact_witness:
  "getinteger base_env (JNumber (Fin (- 7))) (base_world ()) = (Inr (- 7), base_world ())
     \<and> panics_at (getuinteger base_env (JNumber (Fin (- 7)))) (base_world ())"
proof -
  have "int_value (JNumber (Fin (- 7))) = Some (- 7)" by (simp add: int_value_def)
  then show ?thesis
    using integer_getters_exact [OF base_env_laws, of "JNumber (Fin (- 7))" "base_world ()"]
    by (simp add: exact_getter_def)
qed

text \<open>C32: \<open>format_errctx\<close> never writes outside its 16-byte buffer: for a live signature it
  produces a terminated string, the first \<open>len\<close> characters if they are at most 12, and the
  first 12 followed by an ellipsis otherwise.\<close>

theorem format_errctx_correct:
  assumes "points_to s sig str" and "0 < len" and "len \<le> length str"
    and "length buf = ERRCTX_MAX_SIG_LEN"
  shows "\<exists>buf'. format_errctx buf sig len s = (Inr (Some buf'), s) \<and> length buf' = 16
     \<and> c_string buf' = (if len \<le> 12 then take len str else take 12 str @ ''...'')"
  using format_errctx_shown [OF assms] by (auto simp: ERRCTX_MAX_SIG_LEN_def shown_def)

theorem format_errctx_correct_witness:
  "\<exists>buf'. format_errctx uninit_buf (Some (0, 0)) 14 (world_with () ''(iiiiiiiiiiii)'')
       = (Inr (Some buf'), world_with () ''(iiiiiiiiiiii)'') \<and> c_string buf' = ''(iiiiiiiiiii...''"
  using format_errctx_correct [OF world_with_points_to [of "''(iiiiiiiiiiii)''" "()"], of 14 uninit_buf]
  by (auto simp: NUL_def uninit_buf_length)

text \<open>\<open>dbus_type_error\<close> never returns and never changes the state; when the context points
  at live signatures its message has the number of the argument, the signature of the type that
  was expected and, below the top level, that of the argument it is within.\<close>

lemma dbus_type_error_reports:
  assumes "ctx_at s (ec_sig0 (errctx s)) (ec_len0 (errctx s)) str0"
    and "ctx_at s (ec_sig1 (errctx s)) (ec_len1 (errctx s)) str1"
  shows "dbus_type_error jt x s =
     (Inl (if ec_depth (errctx s) > 1
        then Panicf ''bad argument #%d to D-Bus type '%s' (within '%s'), expected %s, got %v''
          [PInt (int (ec_argc (errctx s))), PStr (shown str1 (ec_len1 (errctx s))),
           PStr (shown str0 (ec_len0 (errctx s))), PStr jt, PVal x]
        else Panicf ''bad argument #%d to D-Bus type '%s', expected %s, got %v''
          [PInt (int (ec_argc (errctx s))), PStr (shown str0 (ec_len0 (errctx s))),
           PStr jt, PVal x]), s)"
  using dbus_type_error_message [OF assms(1), of str1 jt x] assms(2)
  by (simp add: type_error_message_def)

end
