(* ===== verification/Read.thy ===== *)
theory Read
  imports Unwrap Signature
begin

unbundle bit_operations_syntax

text \<open>
  The read half of \<open>src/message.c\<close>: taking values out of a message with the read cursor that
  sd-bus keeps in it. How often the loops go round is decided by the message, so the
  functions take fuel; \<open>NoFuel\<close> is the outcome of a run longer than that.
\<close>

definition MESSAGE_PEEK :: "'w env \<Rightarrow> ptr \<Rightarrow> ('w, int \<times> char \<times> string) prog" where
  "MESSAGE_PEEK e msg =
     bnd (gets (\<lambda>s. sd_peek_type e msg (ext s))) (\<lambda>(rv, ty, contents).
     bnd (check_sd_bus_return ''sd_bus_message_peek_type'' rv) (\<lambda>rv.
     ret (rv, ty, contents)))"

text \<open>\<open>janet_stream\<close> makes a new stream object.\<close>

definition janet_stream :: "int \<Rightarrow> stream_flag set \<Rightarrow> ('w, nat) prog" where
  "janet_stream fd flags =
     bnd fresh (\<lambda>a.
     bnd (upd (\<lambda>s. s\<lparr>streams := (streams s)(a := \<lparr>s_handle = fd, s_flags = flags\<rparr>)\<rparr>)) (\<lambda>_.
     ret a))"

definition O_ACCMODE :: int where "O_ACCMODE = 3"
definition O_RDONLY :: int where "O_RDONLY = 0"
definition O_WRONLY :: int where "O_WRONLY = 1"
definition O_RDWR :: int where "O_RDWR = 2"
definition SOCK_STREAM :: int where "SOCK_STREAM = 1"
definition SOCK_DGRAM :: int where "SOCK_DGRAM = 2"

definition mode_flags :: "int \<Rightarrow> stream_flag set" where
  "mode_flags getfl =
     (let mode = getfl AND O_ACCMODE in
      if mode = O_RDONLY then {StreamReadable}
      else if mode = O_WRONLY then {StreamWritable}
      else if mode = O_RDWR then {StreamReadable, StreamWritable}
      else {})"

definition socket_flags :: "int \<times> int \<Rightarrow> stream_flag set" where
  "socket_flags r = (case r of (rv, type) \<Rightarrow>
     if rv = 0 then
       (if type = SOCK_STREAM then {StreamSocket}
        else if type = SOCK_DGRAM then {StreamUdpserver} else {})
     else {})"

definition read_fd_type :: "'w env \<Rightarrow> ptr \<Rightarrow> ('w, janet) prog" where
  "read_fd_type e msg =
     bnd (CALL_SD_BUS_OUT ''sd_bus_message_read_basic'' (sd_read_h e msg)) (\<lambda>fd.
     bnd (extern (sys_fcntl_dupfd_cloexec e fd)) (\<lambda>copy.
     bnd (gets (\<lambda>s. sys_errno e (ext s))) (\<lambda>err.
     bnd (guard (copy \<noteq> - 1)
       (Panicf ''fcntl(F_DUPFD_CLOEXEC) failed for fd=%d: %s'' [PInt fd, PInt err])) (\<lambda>_.
     bnd (extern (sys_fcntl_getfl e copy)) (\<lambda>getfl.
     bnd (gets (\<lambda>s. sys_errno e (ext s))) (\<lambda>err.
     bnd (guard (getfl \<noteq> - 1)
       (Panicf ''fcntl(F_GETFL) failed for fd=%d: %s'' [PInt copy, PInt err])) (\<lambda>_.
     bnd (extern (sys_getsockopt_type e copy)) (\<lambda>sock.
     bnd (janet_stream copy (mode_flags getfl \<union> socket_flags sock)) (\<lambda>stream.
     ret (JAbstract AbsStream stream))))))))))"

text \<open>
  \<open>DBUS_TO_JANET_NUM\<close>: read a C value of the type the code selects and wrap it. Numbers of up
  to 32 bits become Janet numbers, 64-bit ones the boxed integer types.
\<close>

definition DBUS_TO_JANET :: "('w \<Rightarrow> (int \<times> 'a) \<times> 'w) \<Rightarrow> ('a \<Rightarrow> janet) \<Rightarrow> ('w, janet) prog" where
  "DBUS_TO_JANET f wrap =
     bnd (CALL_SD_BUS_OUT ''sd_bus_message_read_basic'' f) (\<lambda>x. ret (wrap x))"

definition wrap_int :: "int \<Rightarrow> janet" where
  "wrap_int i = JNumber (Fin (of_int i))"

definition read_basic_type :: "'w env \<Rightarrow> ptr \<Rightarrow> char \<Rightarrow> ('w, janet) prog" where
  "read_basic_type e msg type =
     (if type = CHR ''b'' then DBUS_TO_JANET (sd_read_b e msg) JBoolean
      else if type = CHR ''y'' then DBUS_TO_JANET (sd_read_y e msg) (\<lambda>x. wrap_int (uint x))
      else if type = CHR ''n'' then DBUS_TO_JANET (sd_read_n e msg) (\<lambda>x. wrap_int (sint x))
      else if type = CHR ''q'' then DBUS_TO_JANET (sd_read_q e msg) (\<lambda>x. wrap_int (uint x))
      else if type = CHR ''i'' then DBUS_TO_JANET (sd_read_i e msg) (\<lambda>x. wrap_int (sint x))
      else if type = CHR ''u'' then DBUS_TO_JANET (sd_read_u e msg) (\<lambda>x. wrap_int (uint x))
      else if type = CHR ''x'' then DBUS_TO_JANET (sd_read_x e msg) JS64
      else if type = CHR ''t'' then DBUS_TO_JANET (sd_read_t e msg) JU64
      else if type = CHR ''d'' then DBUS_TO_JANET (sd_read_d e msg) JNumber
      else if type \<in> {CHR ''s'', CHR ''o'', CHR ''g''} then
        DBUS_TO_JANET (sd_read_str e msg type) JString
      else if type = CHR ''h'' then read_fd_type e msg
      else raise (Panicf ''Unsupported basic type: %c'' [PChar type]))"

text \<open>The first character of a C string, which is its terminator if it is empty.\<close>

definition first_char :: "string \<Rightarrow> char" where
  "first_char str = (case str of [] \<Rightarrow> NUL | c # _ \<Rightarrow> c)"

definition enter_container :: "'w env \<Rightarrow> ptr \<Rightarrow> char \<Rightarrow> string \<Rightarrow> ('w, int) prog" where
  "enter_container e msg type contents =
     CALL_SD_BUS_FUNC ''sd_bus_message_enter_container'' (sd_enter_container e msg type contents)"

definition exit_container :: "'w env \<Rightarrow> ptr \<Rightarrow> ('w, int) prog" where
  "exit_container e msg = CALL_SD_BUS_FUNC ''sd_bus_message_exit_container'' (sd_exit_container e msg)"

text \<open>
  \<open>read_complete_type\<close> returns \<open>None\<close> at the end of the message or container (the C function
  returns 0) and \<open>Some\<close> the value otherwise. \<open>read_items\<close> is the \<open>while\<close> loop of
  \<open>read_struct_type\<close> and \<open>read_array_type\<close>, \<open>read_entries\<close> that of \<open>read_dict_type\<close>.
\<close>

function (sequential) read_complete_type :: "nat \<Rightarrow> 'w env \<Rightarrow> ptr \<Rightarrow> ('w, janet option) prog"
  and read_variant_type :: "nat \<Rightarrow> 'w env \<Rightarrow> ptr \<Rightarrow> string \<Rightarrow> ('w, janet) prog"
  and read_struct_type :: "nat \<Rightarrow> 'w env \<Rightarrow> ptr \<Rightarrow> string \<Rightarrow> ('w, janet) prog"
  and read_dict_type :: "nat \<Rightarrow> 'w env \<Rightarrow> ptr \<Rightarrow> string \<Rightarrow> ('w, janet) prog"
  and read_array_type :: "nat \<Rightarrow> 'w env \<Rightarrow> ptr \<Rightarrow> string \<Rightarrow> ('w, janet) prog"
  and read_items :: "nat \<Rightarrow> 'w env \<Rightarrow> ptr \<Rightarrow> janet list \<Rightarrow> ('w, janet list) prog"
  and read_entries ::
    "nat \<Rightarrow> 'w env \<Rightarrow> ptr \<Rightarrow> (janet \<times> janet) list \<Rightarrow> ('w, (janet \<times> janet) list) prog"
where
  "read_complete_type 0 e msg = raise NoFuel"
| "read_complete_type (Suc n) e msg =
     bnd (MESSAGE_PEEK e msg) (\<lambda>(rv, type, signature).
     if rv = 0 then ret None
     else
       bnd (if is_basic_type type then read_basic_type e msg type
            else if type = CHR ''v'' then read_variant_type n e msg signature
            else if type = CHR ''r'' then read_struct_type n e msg signature
            else if type = CHR ''a'' \<and> first_char signature = CHR ''{''
            then read_dict_type n e msg signature
            else if type = CHR ''a'' then read_array_type n e msg signature
            else raise (Panicf ''Unsupported message type: %c'' [PChar type])) (\<lambda>obj.
       ret (Some obj)))"
| "read_variant_type 0 e msg signature = raise NoFuel"
| "read_variant_type (Suc n) e msg signature =
     bnd (enter_container e msg (CHR ''v'') signature) (\<lambda>_.
     bnd (read_complete_type n e msg) (\<lambda>obj.
     case obj of
       None \<Rightarrow> raise (Panicf ''Unexpected end of variant type'' [])
     | Some obj \<Rightarrow>
         bnd (exit_container e msg) (\<lambda>_.
         ret (JTuple [JString signature, obj]))))"
| "read_struct_type 0 e msg signature = raise NoFuel"
| "read_struct_type (Suc n) e msg signature =
     bnd (enter_container e msg (CHR ''r'') signature) (\<lambda>_.
     bnd (read_items n e msg []) (\<lambda>array.
     bnd (exit_container e msg) (\<lambda>_.
     ret (JTuple array))))"
| "read_dict_type 0 e msg signature = raise NoFuel"
| "read_dict_type (Suc n) e msg signature =
     bnd (enter_container e msg (CHR ''a'') signature) (\<lambda>_.
     bnd (read_entries n e msg []) (\<lambda>tbl.
     bnd (exit_container e msg) (\<lambda>_.
     ret (JTable tbl))))"
| "read_array_type 0 e msg signature = raise NoFuel"
| "read_array_type (Suc n) e msg signature =
     bnd (enter_container e msg (CHR ''a'') signature) (\<lambda>_.
     bnd (read_items n e msg []) (\<lambda>array.
     bnd (exit_container e msg) (\<lambda>_.
     ret (JArray array))))"
| "read_items 0 e msg array = raise NoFuel"
| "read_items (Suc n) e msg array =
     bnd (read_complete_type n e msg) (\<lambda>obj.
     case obj of
       None \<Rightarrow> ret array
     | Some obj \<Rightarrow> read_items n e msg (array @ [obj]))"
| "read_entries 0 e msg tbl = raise NoFuel"
| "read_entries (Suc n) e msg tbl =
     bnd (MESSAGE_PEEK e msg) (\<lambda>(rv, type, dict_sig).
     if rv > 0 then
       bnd (enter_container e msg (CHR ''e'') dict_sig) (\<lambda>_.
       bnd (read_basic_type e msg (first_char dict_sig)) (\<lambda>key.
       bnd (read_complete_type n e msg) (\<lambda>val.
       case val of
         None \<Rightarrow> raise (Panicf ''Unexpected end of dictionary type'' [])
       | Some val \<Rightarrow>
           let tbl = janet_table_put e tbl key val in
           bnd (exit_container e msg) (\<lambda>_.
           read_entries n e msg tbl))))
     else ret tbl)"

  by pat_completeness auto

termination
  by (relation "measure (\<lambda>x. case x of
        Inl (Inl (n, _)) \<Rightarrow> n
      | Inl (Inr (Inl (n, _))) \<Rightarrow> n
      | Inl (Inr (Inr (n, _))) \<Rightarrow> n
      | Inr (Inl (Inl (n, _))) \<Rightarrow> n
      | Inr (Inl (Inr (n, _))) \<Rightarrow> n
      | Inr (Inr (Inl (n, _))) \<Rightarrow> n
      | Inr (Inr (Inr (n, _))) \<Rightarrow> n)")
    simp_all

end
