(* ===== verification/Read_Spec.thy ===== *)
theory Read_Spec
  imports Read
begin

text \<open>
  What the read half of \<open>src/message.c\<close> is for. The contents of a message are a list of
  items, containers as trees; \<open>dec\<close> says which Janet value an item stands for. The reader laws
  describe the read cursor of sd-bus on such contents, and the main lemma says that
  \<open>read_complete_type\<close> returns the value of the next item and moves past it, with
  enough fuel (\<open>cost\<close>). Items that hold a file descriptor make new kernel and Janet objects and
  are treated apart.
\<close>

datatype item = IBasic basic | ICont char string "item list"

fun basic_code :: "basic \<Rightarrow> char" where
  "basic_code (Byte _) = CHR ''y''"
| "basic_code (Boolean _) = CHR ''b''"
| "basic_code (Int16 _) = CHR ''n''"
| "basic_code (Uint16 _) = CHR ''q''"
| "basic_code (Int32 _) = CHR ''i''"
| "basic_code (Uint32 _) = CHR ''u''"
| "basic_code (Int64 _) = CHR ''x''"
| "basic_code (Uint64 _) = CHR ''t''"
| "basic_code (Double _) = CHR ''d''"
| "basic_code (Str c _) = c"
| "basic_code (Fd _) = CHR ''h''"

fun basic_val :: "basic \<Rightarrow> janet option" where
  "basic_val (Byte w) = Some (JNumber (Fin (of_int (uint w))))"
| "basic_val (Boolean b) = Some (JBoolean b)"
| "basic_val (Int16 w) = Some (JNumber (Fin (of_int (sint w))))"
| "basic_val (Uint16 w) = Some (JNumber (Fin (of_int (uint w))))"
| "basic_val (Int32 w) = Some (JNumber (Fin (of_int (sint w))))"
| "basic_val (Uint32 w) = Some (JNumber (Fin (of_int (uint w))))"
| "basic_val (Int64 w) = Some (JS64 w)"
| "basic_val (Uint64 w) = Some (JU64 w)"
| "basic_val (Double d) = Some (JNumber d)"
| "basic_val (Str c str) = (if c \<in> {CHR ''s'', CHR ''o'', CHR ''g''} then Some (JString str) else None)"
| "basic_val (Fd _) = None"

fun dec :: "'w env \<Rightarrow> item \<Rightarrow> janet option"
  and dec_list :: "'w env \<Rightarrow> item list \<Rightarrow> janet list option"
  and dec_entries :: "'w env \<Rightarrow> (janet \<times> janet) list \<Rightarrow> item list \<Rightarrow> (janet \<times> janet) list option"
where
  "dec e (IBasic b) = basic_val b"
| "dec e (ICont k sg xs) =
     (if k = CHR ''v'' then
        (case xs of [x] \<Rightarrow> map_option (\<lambda>v. JTuple [JString sg, v]) (dec e x) | _ \<Rightarrow> None)
      else if k = CHR ''r'' then map_option JTuple (dec_list e xs)
      else if k = CHR ''a'' \<and> first_char sg = CHR ''{'' then map_option JTable (dec_entries e [] xs)
      else if k = CHR ''a'' then map_option JArray (dec_list e xs)
      else None)"
| "dec_list e [] = Some []"
| "dec_list e (x # xs) = (case dec e x of
      None \<Rightarrow> None
    | Some v \<Rightarrow> map_option (Cons v) (dec_list e xs))"
| "dec_entries e tbl [] = Some tbl"
| "dec_entries e tbl (x # xs) = (case x of
      ICont c sg [IBasic b, y] \<Rightarrow>
        if c = CHR ''e'' \<and> first_char sg = basic_code b then
          (case basic_val b of
             None \<Rightarrow> None
           | Some k \<Rightarrow> (case dec e y of
                 None \<Rightarrow> None
               | Some v \<Rightarrow> dec_entries e (janet_table_put e tbl k v) xs))
        else None
    | _ \<Rightarrow> None)"

text \<open>Fuel for reading an item.\<close>

fun cost :: "item \<Rightarrow> nat" where
  "cost (IBasic b) = 1"
| "cost (ICont k sg xs) = 4 + sum_list (map (\<lambda>x. Suc (cost x)) xs)"

abbreviation costs :: "item list \<Rightarrow> nat" where
  "costs xs \<equiv> sum_list (map (\<lambda>x. Suc (cost x)) xs)"

lemma cost_pos [simp]: "0 < cost x"
  by (cases x) auto

text \<open>
  The read cursor of sd-bus, as its manual describes it: \<open>view w\<close> is, from the innermost open
  container outwards, what is left to read. Peeking tells the next item or the end, entering
  opens the container that is next, exiting leaves a container that is read to its end, and
  reading a basic value consumes it.
\<close>

definition reads_as ::
  "('w \<Rightarrow> item list list) \<Rightarrow> ('w \<Rightarrow> (int \<times> 'a) \<times> 'w) \<Rightarrow> ('a \<Rightarrow> basic) \<Rightarrow> bool" where
  "reads_as view f mk \<longleftrightarrow> (\<forall>w x xs st. view w = (IBasic (mk x) # xs) # st \<longrightarrow>
     (\<exists>w'. f w = ((1, x), w') \<and> view w' = xs # st))"

definition reader_laws :: "'w env \<Rightarrow> ptr \<Rightarrow> ('w \<Rightarrow> item list list) \<Rightarrow> bool" where
  "reader_laws e m view \<longleftrightarrow>
     (\<forall>w st. view w = [] # st \<longrightarrow> fst (sd_peek_type e m w) = 0) \<and>
     (\<forall>w b xs st. view w = (IBasic b # xs) # st \<longrightarrow>
        (\<exists>c. sd_peek_type e m w = (1, basic_code b, c))) \<and>
     (\<forall>w k sg ys xs st. view w = (ICont k sg ys # xs) # st \<longrightarrow> sd_peek_type e m w = (1, k, sg)) \<and>
     (\<forall>w k sg ys xs st. view w = (ICont k sg ys # xs) # st \<longrightarrow>
        (\<exists>w'. sd_enter_container e m k sg w = (1, w') \<and> view w' = ys # xs # st)) \<and>
     (\<forall>w xs st. view w = [] # xs # st \<longrightarrow>
        (\<exists>w'. sd_exit_container e m w = (1, w') \<and> view w' = xs # st)) \<and>
     reads_as view (sd_read_b e m) Boolean \<and> reads_as view (sd_read_y e m) Byte \<and>
     reads_as view (sd_read_n e m) Int16 \<and> reads_as view (sd_read_q e m) Uint16 \<and>
     reads_as view (sd_read_i e m) Int32 \<and> reads_as view (sd_read_u e m) Uint32 \<and>
     reads_as view (sd_read_x e m) Int64 \<and> reads_as view (sd_read_t e m) Uint64 \<and>
     reads_as view (sd_read_d e m) Double \<and>
     (\<forall>c. reads_as view (sd_read_str e m c) (Str c)) \<and> reads_as view (sd_read_h e m) Fd"

text \<open>\<open>consumes view s r x xs st\<close>: the outcome is \<open>x\<close>, with only the outside world changed,
  where \<open>xs # st\<close> is left to read.\<close>

definition consumes :: "('w \<Rightarrow> item list list) \<Rightarrow> 'w world \<Rightarrow> (panic + 'a) \<times> 'w world \<Rightarrow> 'a \<Rightarrow>
    item list \<Rightarrow> item list list \<Rightarrow> bool" where
  "consumes view s r x xs st \<longleftrightarrow> (\<exists>w. r = (Inr x, s\<lparr>ext := w\<rparr>) \<and> view w = xs # st)"

lemma consumesI: "r = (Inr x, s\<lparr>ext := w\<rparr>) \<Longrightarrow> view w = xs # st \<Longrightarrow> consumes view s r x xs st"
  by (auto simp: consumes_def)

lemma consumes_bnd:
  assumes "consumes view s (m u) x xs st"
    and "\<And>w. view w = xs # st \<Longrightarrow> consumes view s (f x (s\<lparr>ext := w\<rparr>)) y ys st'"
  shows "consumes view s (bnd m f u) y ys st'"
  using assms by (auto simp: consumes_def bnd_apply)

lemma consumes_ext [simp]:
  "consumes view (s\<lparr>ext := w\<rparr>) r x xs st \<longleftrightarrow> consumes view s r x xs st"
  by (simp add: consumes_def)

lemma DBUS_TO_JANET_consumes:
  assumes "reads_as view f mk" and "view (ext s) = (IBasic (mk x) # xs) # st"
  shows "consumes view s (DBUS_TO_JANET f wrap s) (wrap x) xs st"
proof -
  obtain w where "f (ext s) = ((1, x), w)" "view w = xs # st"
    using assms(1) [unfolded reads_as_def, rule_format, OF assms(2)] by blast
  then show ?thesis
    by (intro consumesI) (simp_all add: DBUS_TO_JANET_def CALL_SD_BUS_OUT_def bnd_apply)
qed

lemma read_basic_consumes:
  assumes laws: "reader_laws e m view" and v: "basic_val b = Some v"
    and at: "view (ext s) = (IBasic b # xs) # st"
  shows "consumes view s (read_basic_type e m (basic_code b) s) v xs st"
proof -
  note laws' = laws [unfolded reader_laws_def]
  note step = DBUS_TO_JANET_consumes [where s = s and xs = xs and st = st and view = view]
  show ?thesis
  proof (cases b)
    case (Byte x) then show ?thesis
      using step [of "sd_read_y e m" Byte x "\<lambda>x. wrap_int (uint x)"] laws' at v
      by (simp add: read_basic_type_def wrap_int_def)
  next
    case (Boolean x) then show ?thesis
      using step [of "sd_read_b e m" Boolean x JBoolean] laws' at v by (simp add: read_basic_type_def)
  next
    case (Int16 x) then show ?thesis
      using step [of "sd_read_n e m" Int16 x "\<lambda>x. wrap_int (sint x)"] laws' at v
      by (simp add: read_basic_type_def wrap_int_def)
  next
    case (Uint16 x) then show ?thesis
      using step [of "sd_read_q e m" Uint16 x "\<lambda>x. wrap_int (uint x)"] laws' at v
      by (simp add: read_basic_type_def wrap_int_def)
  next
    case (Int32 x) then show ?thesis
      using step [of "sd_read_i e m" Int32 x "\<lambda>x. wrap_int (sint x)"] laws' at v
      by (simp add: read_basic_type_def wrap_int_def)
  next
    case (Uint32 x) then show ?thesis
      using step [of "sd_read_u e m" Uint32 x "\<lambda>x. wrap_int (uint x)"] laws' at v
      by (simp add: read_basic_type_def wrap_int_def)
  next
    case (Int64 x) then show ?thesis
      using step [of "sd_read_x e m" Int64 x JS64] laws' at v by (simp add: read_basic_type_def)
  next
    case (Uint64 x) then show ?thesis
      using step [of "sd_read_t e m" Uint64 x JU64] laws' at v by (simp add: read_basic_type_def)
  next
    case (Double x) then show ?thesis
      using step [of "sd_read_d e m" Double x JNumber] laws' at v by (simp add: read_basic_type_def)
  next
    case (Str c x)
    then have c: "c \<in> {CHR ''s'', CHR ''o'', CHR ''g''}" and vx: "v = JString x"
      using v by (auto split: if_splits)
    have "read_basic_type e m c = DBUS_TO_JANET (sd_read_str e m c) JString"
      using c by (auto simp: read_basic_type_def)
    then show ?thesis
      using step [of "sd_read_str e m c" "Str c" x JString] laws' at Str vx by simp
  next
    case (Fd x) then show ?thesis using v by simp
  qed
qed

lemma basic_val_code: "basic_val b = Some v \<Longrightarrow> is_basic_type (basic_code b)"
  by (cases b) (auto simp: is_basic_type_def basic_codes_def split: if_splits)

text \<open>Peeking, entering and leaving.\<close>

lemma reader_lawsD:
  assumes "reader_laws e m view"
  shows "view w = [] # st \<Longrightarrow> fst (sd_peek_type e m w) = 0"
    and "view w = (IBasic b # xs) # st \<Longrightarrow> \<exists>c. sd_peek_type e m w = (1, basic_code b, c)"
    and "view w = (ICont k sg ys # xs) # st \<Longrightarrow> sd_peek_type e m w = (1, k, sg)"
    and "view w = (ICont k sg ys # xs) # st \<Longrightarrow>
      \<exists>w'. sd_enter_container e m k sg w = (1, w') \<and> view w' = ys # xs # st"
    and "view w = [] # xs # st \<Longrightarrow> \<exists>w'. sd_exit_container e m w = (1, w') \<and> view w' = xs # st"
  using assms by (simp_all add: reader_laws_def)

lemma peek_end:
  assumes "reader_laws e m view" and "view (ext s) = [] # st"
  obtains c sg where "MESSAGE_PEEK e m s = (Inr (0, c, sg), s)"
proof -
  have "fst (sd_peek_type e m (ext s)) = 0" using reader_lawsD(1) [OF assms] .
  then obtain c sg where "sd_peek_type e m (ext s) = (0, c, sg)" by (metis fst_conv prod.collapse)
  then show ?thesis by (intro that [of c sg]) (simp add: MESSAGE_PEEK_def bnd_apply)
qed

lemma peek_basic:
  assumes "reader_laws e m view" and "view (ext s) = (IBasic b # xs) # st"
  obtains sg where "MESSAGE_PEEK e m s = (Inr (1, basic_code b, sg), s)"
proof -
  obtain sg where "sd_peek_type e m (ext s) = (1, basic_code b, sg)"
    using reader_lawsD(2) [OF assms] by blast
  then show ?thesis by (intro that [of sg]) (simp add: MESSAGE_PEEK_def bnd_apply)
qed

lemma peek_container:
  assumes "reader_laws e m view" and "view (ext s) = (ICont k sg ys # xs) # st"
  shows "MESSAGE_PEEK e m s = (Inr (1, k, sg), s)"
proof -
  have "sd_peek_type e m (ext s) = (1, k, sg)" using reader_lawsD(3) [OF assms] .
  then show ?thesis by (simp add: MESSAGE_PEEK_def bnd_apply)
qed

lemma enter_consumes:
  assumes "reader_laws e m view" and "view (ext s) = (ICont k sg ys # xs) # st"
  shows "consumes view s (enter_container e m k sg s) 1 ys (xs # st)"
proof -
  obtain w where "sd_enter_container e m k sg (ext s) = (1, w)" "view w = ys # xs # st"
    using reader_lawsD(4) [OF assms] by blast
  then show ?thesis by (intro consumesI) (simp_all add: enter_container_def)
qed

lemma exit_consumes:
  assumes "reader_laws e m view" and "view (ext s) = [] # xs # st"
  shows "consumes view s (exit_container e m s) 1 xs st"
proof -
  obtain w where "sd_exit_container e m (ext s) = (1, w)" "view w = xs # st"
    using reader_lawsD(5) [OF assms] by blast
  then show ?thesis by (intro consumesI) (simp_all add: exit_container_def)
qed

subsection \<open>Reading an item\<close>

lemma not_basic_kinds: "k \<in> {CHR ''v'', CHR ''r'', CHR ''a''} \<Longrightarrow> \<not> is_basic_type k"
  by (auto simp: is_basic_type_def basic_codes_def NUL_def)

lemma in_container:
  assumes laws: "reader_laws e m view" and at: "view (ext s) = (ICont k sg ys # xs) # st"
    and body: "\<And>w. view w = ys # xs # st \<Longrightarrow> consumes view s (body (s\<lparr>ext := w\<rparr>)) y [] (xs # st)"
    and after: "g y = bnd (exit_container e m) (\<lambda>_. f)"
    and rest: "\<And>w. view w = xs # st \<Longrightarrow> consumes view s (f (s\<lparr>ext := w\<rparr>)) r xs' st'"
  shows "consumes view s (bnd (enter_container e m k sg) (\<lambda>_. bnd body g) s) r xs' st'"
proof (rule consumes_bnd, rule enter_consumes [OF laws at], rule consumes_bnd, erule body)
  fix w assume "view w = [] # xs # st"
  then have "consumes view s (exit_container e m (s\<lparr>ext := w\<rparr>)) 1 xs st"
    using exit_consumes [OF laws, of "s\<lparr>ext := w\<rparr>"] by simp
  then show "consumes view s (g y (s\<lparr>ext := w\<rparr>)) r xs' st'"
    unfolding after by (rule consumes_bnd) (rule rest)
qed

lemma read_consumes:
  "reader_laws e m view \<Longrightarrow> dec e x = Some v \<Longrightarrow> cost x \<le> n \<Longrightarrow> view (ext s) = (x # xs) # st \<Longrightarrow>
      consumes view s (read_complete_type n e m s) (Some v) xs st"
  "reader_laws e m view \<Longrightarrow> dec_list e ys = Some vs \<Longrightarrow> costs ys + 2 \<le> n \<Longrightarrow>
      view (ext s) = ys # st \<Longrightarrow> consumes view s (read_items n e m acc s) (acc @ vs) [] st"
  "reader_laws e m view \<Longrightarrow> dec_entries e tbl ys = Some kvs \<Longrightarrow> costs ys + 2 \<le> n \<Longrightarrow>
      view (ext s) = ys # st \<Longrightarrow> consumes view s (read_entries n e m tbl s) kvs [] st"
proof (induction e x and e ys and e tbl ys arbitrary: v n s xs st and vs n s acc st and kvs n s st
    rule: dec_dec_list_dec_entries.induct)
  case (1 e b)
  then obtain n' where n: "n = Suc n'" by (cases n) auto
  have v: "basic_val b = Some v" using "1.prems"(2) by simp
  obtain c where pk: "MESSAGE_PEEK e m s = (Inr (1, basic_code b, c), s)"
    by (rule peek_basic [OF "1.prems"(1,4)])
  have "consumes view s (bnd (read_basic_type e m (basic_code b)) (\<lambda>obj. ret (Some obj)) s) (Some v) xs st"
    by (rule consumes_bnd, rule read_basic_consumes [OF "1.prems"(1) v "1.prems"(4)])
      (auto intro: consumesI)
  then show ?case
    unfolding n read_complete_type.simps bnd_apply [where m = "MESSAGE_PEEK e m"] pk
    by (simp add: basic_val_code [OF v])
next
  case (2 e k sg ys)
  then obtain n1 where n: "n = Suc (Suc n1)" and n1: "costs ys + 2 \<le> n1"
    by (cases n; cases "n - 1") auto
  note laws = "2.prems"(1) and at = "2.prems"(4)
  have pk: "MESSAGE_PEEK e m s = (Inr (1, k, sg), s)" by (rule peek_container [OF laws at])
  have wrap: "consumes view s (read_complete_type n e m s) (Some v) xs st"
    if "k \<in> {CHR ''v'', CHR ''r'', CHR ''a''}"
      and "consumes view s ((if k = CHR ''v'' then read_variant_type (Suc n1) e m sg
            else if k = CHR ''r'' then read_struct_type (Suc n1) e m sg
            else if k = CHR ''a'' \<and> first_char sg = CHR ''{''
            then read_dict_type (Suc n1) e m sg
            else read_array_type (Suc n1) e m sg) s) v xs st"
  proof -
    have nb: "\<not> is_basic_type k" using that(1) by (rule not_basic_kinds)
    have "consumes view s (bnd (if is_basic_type k then read_basic_type e m k
            else if k = CHR ''v'' then read_variant_type (Suc n1) e m sg
            else if k = CHR ''r'' then read_struct_type (Suc n1) e m sg
            else if k = CHR ''a'' \<and> first_char sg = CHR ''{''
            then read_dict_type (Suc n1) e m sg
            else if k = CHR ''a'' then read_array_type (Suc n1) e m sg
            else raise (Panicf ''Unsupported message type: %c'' [PChar k])) (\<lambda>obj. ret (Some obj)) s)
        (Some v) xs st"
      by (rule consumes_bnd [where x = v]) (use that nb in \<open>auto intro: consumesI simp del: read_variant_type.simps
          read_struct_type.simps read_dict_type.simps read_array_type.simps\<close>)
    then show ?thesis
      unfolding n read_complete_type.simps bnd_apply [where m = "MESSAGE_PEEK e m"] pk by simp
  qed
  show ?case
  proof (cases "k = CHR ''v''")
    case True
    then obtain x v' where ys: "ys = [x]" and v': "dec e x = Some v'" and v: "v = JTuple [JString sg, v']"
      using "2.prems"(2) by (auto split: list.splits)
    have c: "cost x \<le> n1" using n1 ys by simp
    have body: "consumes view s (read_complete_type n1 e m (s\<lparr>ext := w\<rparr>)) (Some v') [] (xs # st)"
      if "view w = ys # xs # st" for w
      using "2.IH"(1) [OF True ys refl laws v' c, of "s\<lparr>ext := w\<rparr>"] that ys by simp
    have "consumes view s (read_variant_type (Suc n1) e m sg s) v xs st"
      unfolding read_variant_type.simps
      by (rule in_container, rule laws, rule at [unfolded True], erule body) (auto simp: v intro: consumesI)
    then show ?thesis using True by (intro wrap) simp_all
  next
    case nv: False
    show ?thesis
    proof (cases "k = CHR ''r''")
      case True
      then obtain vs where vs: "dec_list e ys = Some vs" and v: "v = JTuple vs"
        using "2.prems"(2) by auto
      have body: "consumes view s (read_items n1 e m [] (s\<lparr>ext := w\<rparr>)) vs [] (xs # st)"
        if "view w = ys # xs # st" for w
        using "2.IH"(2) [OF nv True laws vs n1, of "s\<lparr>ext := w\<rparr>" "xs # st" "[]"] that by simp
      have "consumes view s (read_struct_type (Suc n1) e m sg s) v xs st"
        unfolding read_struct_type.simps
        by (rule in_container, rule laws, rule at [unfolded True], erule body) (auto simp: v intro: consumesI)
      then show ?thesis using True by (intro wrap) simp_all
    next
      case nr: False
      have k: "k = CHR ''a''" using "2.prems"(2) nv nr by (auto split: if_splits)
      show ?thesis
      proof (cases "first_char sg = CHR ''{''")
        case True
        then obtain kvs where kvs: "dec_entries e [] ys = Some kvs" and v: "v = JTable kvs"
          using "2.prems"(2) k by auto
        have body: "consumes view s (read_entries n1 e m [] (s\<lparr>ext := w\<rparr>)) kvs [] (xs # st)"
          if "view w = ys # xs # st" for w
          using "2.IH"(3) [OF nv nr conjI [OF k True] laws kvs n1, of "s\<lparr>ext := w\<rparr>"] that by simp
        have "consumes view s (read_dict_type (Suc n1) e m sg s) v xs st"
          unfolding read_dict_type.simps
          by (rule in_container, rule laws, rule at [unfolded k], erule body) (auto simp: v intro: consumesI)
        then show ?thesis using True k by (intro wrap) simp_all
      next
        case False
        then obtain vs where vs: "dec_list e ys = Some vs" and v: "v = JArray vs"
          using "2.prems"(2) k by auto
        have no: "\<not> (k = CHR ''a'' \<and> first_char sg = CHR ''{'')" using False by simp
        have body: "consumes view s (read_items n1 e m [] (s\<lparr>ext := w\<rparr>)) vs [] (xs # st)"
          if "view w = ys # xs # st" for w
          using "2.IH"(4) [OF nv nr no k laws vs n1, of "s\<lparr>ext := w\<rparr>" "xs # st" "[]"] that by simp
        have "consumes view s (read_array_type (Suc n1) e m sg s) v xs st"
          unfolding read_array_type.simps
          by (rule in_container, rule laws, rule at [unfolded k], erule body) (auto simp: v intro: consumesI)
        then show ?thesis using False k by (intro wrap) simp_all
      qed
    qed
  qed
next
  case (3 e)
  then obtain n' where n: "n = Suc (Suc n')" by (cases n; cases "n - 1") auto
  obtain c sg where "MESSAGE_PEEK e m s = (Inr (0, c, sg), s)"
    by (rule peek_end [OF "3.prems"(1,4)])
  then have "read_complete_type (Suc n') e m s = (Inr None, s)" by (simp add: bnd_apply)
  then show ?case
    using "3.prems"(2,4) unfolding n read_items.simps
    by (intro consumesI [where w = "ext s"]) (simp_all add: bnd_apply)
next
  case (4 e x xs)
  then obtain n' where n: "n = Suc n'" and c: "cost x \<le> n'" "costs xs + 2 \<le> n'"
    using cost_pos [of x] by (cases n) auto
  obtain v us where v: "dec e x = Some v" and us: "dec_list e xs = Some us" and vs: "vs = v # us"
    using "4.prems"(2) by (auto split: option.splits)
  show ?case
    unfolding n read_items.simps
  proof (rule consumes_bnd)
    show "consumes view s (read_complete_type n' e m s) (Some v) xs st"
      by (rule "4.IH"(1) [OF "4.prems"(1) v c(1) "4.prems"(4)])
    fix w assume "view w = xs # st"
    then have "consumes view (s\<lparr>ext := w\<rparr>) (read_items n' e m (acc @ [v]) (s\<lparr>ext := w\<rparr>))
        ((acc @ [v]) @ us) [] st"
      by (intro "4.IH"(2) [OF v "4.prems"(1) us c(2)]) simp
    then show "consumes view s ((case Some v of None \<Rightarrow> ret acc
        | Some obj \<Rightarrow> read_items n' e m (acc @ [obj])) (s\<lparr>ext := w\<rparr>)) (acc @ vs) [] st"
      by (simp add: vs)
  qed
next
  case (5 e tbl)
  then obtain n' where n: "n = Suc n'" by (cases n) auto
  obtain c sg where "MESSAGE_PEEK e m s = (Inr (0, c, sg), s)"
    by (rule peek_end [OF "5.prems"(1,4)])
  then show ?case
    using "5.prems"(2,4) unfolding n read_entries.simps
    by (intro consumesI [where w = "ext s"]) (simp_all add: bnd_apply)
next
  case (6 e tbl x xs)
  note laws = "6.prems"(1)
  obtain sg b y key v where x: "x = ICont (CHR ''e'') sg [IBasic b, y]"
    and sg: "first_char sg = basic_code b" and key: "basic_val b = Some key"
    and v: "dec e y = Some v" and rest: "dec_entries e (janet_table_put e tbl key v) xs = Some kvs"
    using "6.prems"(2) by (auto split: item.splits list.splits if_splits option.splits)
  obtain n' where n: "n = Suc n'" and c: "cost y \<le> n'" "costs xs + 2 \<le> n'"
    using "6.prems"(3) x by (cases n) auto
  have at: "view (ext s) = (ICont (CHR ''e'') sg [IBasic b, y] # xs) # st" using "6.prems"(4) x by simp
  have keyed: "consumes view s (read_basic_type e m (first_char sg) (s\<lparr>ext := w\<rparr>)) key [y] (xs # st)"
    if "view w = [IBasic b, y] # xs # st" for w
    using read_basic_consumes [OF laws key, of "s\<lparr>ext := w\<rparr>"] that sg by simp
  have valued: "consumes view s (read_complete_type n' e m (s\<lparr>ext := w\<rparr>)) (Some v) [] (xs # st)"
    if "view w = [y] # xs # st" for w
    using "6.IH"(1) [OF x refl refl refl refl conjI [OF refl sg] key laws v c(1), of "s\<lparr>ext := w\<rparr>"] that sg by simp
  have more: "consumes view s (read_entries n' e m (janet_table_put e tbl key v) (s\<lparr>ext := w\<rparr>)) kvs [] st"
    if "view w = xs # st" for w
    using "6.IH"(2) [OF x refl refl refl refl conjI [OF refl sg] key v laws rest c(2), of "s\<lparr>ext := w\<rparr>"] that sg by simp
  have leave: "consumes view s (bnd (exit_container e m) (\<lambda>_.
      read_entries n' e m (janet_table_put e tbl key v)) (s\<lparr>ext := w\<rparr>)) kvs [] st"
    if "view w = [] # xs # st" for w
  proof (rule consumes_bnd)
    show "consumes view s (exit_container e m (s\<lparr>ext := w\<rparr>)) 1 xs st"
      using exit_consumes [OF laws, of "s\<lparr>ext := w\<rparr>"] that by simp
  qed (rule more)
  have "consumes view s (bnd (enter_container e m (CHR ''e'') sg) (\<lambda>_.
       bnd (read_basic_type e m (first_char sg)) (\<lambda>key.
       bnd (read_complete_type n' e m) (\<lambda>val.
       case val of
         None \<Rightarrow> raise (Panicf ''Unexpected end of dictionary type'' [])
       | Some val \<Rightarrow>
           let tbl = janet_table_put e tbl key val in
           bnd (exit_container e m) (\<lambda>_.
           read_entries n' e m tbl)))) s) kvs [] st"
    by (rule consumes_bnd, rule enter_consumes [OF laws at], rule consumes_bnd, erule keyed,
        rule consumes_bnd, erule valued) (use leave in \<open>simp add: Let_def\<close>)
  then show ?case
    unfolding n read_entries.simps bnd_apply [where m = "MESSAGE_PEEK e m"]
      peek_container [OF laws at] by (simp add: Let_def cong: option.case_cong)
qed

end
