(* ===== verification/Round_Trip.thy ===== *)
theory Round_Trip
  imports Append_Sound Read_Spec
begin

text \<open>
  From the writer to the reader. The calls that encode a value build items (\<open>writes\<close>), and
  the value of the items read back is the value that was appended, in the form in which the
  reader hands values out (\<open>comes_back\<close>): numbers, booleans and strings as they were, 64-bit
  integers boxed, structures as tuples, arrays as arrays, byte arrays as arrays of numbers, and
  dictionaries as tables filled in the order of the entries.
\<close>

definition byte_item :: "char \<Rightarrow> item" where
  "byte_item c = IBasic (Byte (word_of_int (of_char c)))"

inductive writes :: "wcall list \<Rightarrow> item list \<Rightarrow> bool" where
  w_done: "writes [] []"
| w_basic: "writes cs xs \<Longrightarrow> writes (AppendBasic b # cs) (IBasic b # xs)"
| w_container: "writes cs ys \<Longrightarrow> writes cs' xs \<Longrightarrow>
     writes (OpenContainer k sg # cs @ CloseContainer # cs') (ICont k sg ys # xs)"
| w_bytes: "writes cs xs \<Longrightarrow>
     writes (AppendArray (CHR ''y'') bs # cs) (ICont (CHR ''a'') ''y'' (map byte_item bs) # xs)"

lemma writes_append: "writes cs xs \<Longrightarrow> writes cs' ys \<Longrightarrow> writes (cs @ cs') (xs @ ys)"
  by (induction rule: writes.induct) (auto intro: writes.intros)

lemma writes_basic1: "writes [AppendBasic b] [IBasic b]"
  by (intro writes.intros)

lemma writes_container1:
  "writes cs ys \<Longrightarrow> writes (OpenContainer k sg # cs @ [CloseContainer]) [ICont k sg ys]"
  using w_container [OF _ w_done] by simp

lemma writes_bytes1: "writes [AppendArray (CHR ''y'') bs] [ICont (CHR ''a'') ''y'' (map byte_item bs)]"
  by (intro writes.intros)

text \<open>Calls that pass no file descriptor.\<close>

definition no_fd :: "wcall list \<Rightarrow> bool" where
  "no_fd cs \<longleftrightarrow> (\<forall>fd. AppendBasic (Fd fd) \<notin> set cs)"

lemma no_fd_simps [simp]:
  "no_fd []" "no_fd (cs @ cs') \<longleftrightarrow> no_fd cs \<and> no_fd cs'"
  "no_fd (OpenContainer k sg # cs) \<longleftrightarrow> no_fd cs" "no_fd (CloseContainer # cs) \<longleftrightarrow> no_fd cs"
  "no_fd (AppendBasic b # cs) \<longleftrightarrow> (\<forall>fd. b \<noteq> Fd fd) \<and> no_fd cs"
  by (auto simp: no_fd_def)

subsection \<open>The value that comes back\<close>

inductive comes_back :: "'w env \<Rightarrow> 'w world \<Rightarrow> ty \<Rightarrow> janet \<Rightarrow> janet \<Rightarrow> bool"
  and back_fields :: "'w env \<Rightarrow> 'w world \<Rightarrow> ty list \<Rightarrow> janet list \<Rightarrow> janet list \<Rightarrow> bool"
  and back_elems :: "'w env \<Rightarrow> 'w world \<Rightarrow> ty \<Rightarrow> janet list \<Rightarrow> janet list \<Rightarrow> bool"
  and back_entries :: "'w env \<Rightarrow> 'w world \<Rightarrow> char \<Rightarrow> ty \<Rightarrow> (janet \<times> janet) list \<Rightarrow>
    (janet \<times> janet) list \<Rightarrow> bool"
  for e :: "'w env" and s :: "'w world"
where
  back_same: "ch \<in> set ''ybnqiudsog'' \<Longrightarrow> comes_back e s (TBasic ch) v v"
| back_signed64: "conv e s (CHR ''x'') v = Some (Int64 w) \<Longrightarrow> comes_back e s (TBasic (CHR ''x'')) v (JS64 w)"
| back_unsigned64: "conv e s (CHR ''t'') v = Some (Uint64 w) \<Longrightarrow> comes_back e s (TBasic (CHR ''t'')) v (JU64 w)"
| back_variant: "comes_back e s t v v' \<Longrightarrow>
     comes_back e s TVariant (JTuple [JString (sig_of t), v]) (JTuple [JString (sig_of t), v'])"
| back_struct: "indexed_view v = Some vs \<Longrightarrow> back_fields e s ts vs vs' \<Longrightarrow>
     comes_back e s (TStruct ts) v (JTuple vs')"
| back_bytes: "bytes_view v = Some bs \<Longrightarrow>
     comes_back e s (TArray (TBasic (CHR ''y''))) v
       (JArray (map (\<lambda>c. JNumber (Fin (of_int (of_char c)))) bs))"
| back_array: "indexed_view v = Some vs \<Longrightarrow> back_elems e s t vs vs' \<Longrightarrow> comes_back e s (TArray t) v (JArray vs')"
| back_dict: "dictionary_view v = Some kvs \<Longrightarrow> back_entries e s k t kvs kvs' \<Longrightarrow>
     comes_back e s (TDict k t) v (JTable (foldl (\<lambda>tbl (k, v). janet_table_put e tbl k v) [] kvs'))"
| back_fields_Nil: "back_fields e s [] [] []"
| back_fields_Cons: "comes_back e s t v v' \<Longrightarrow> back_fields e s ts vs vs' \<Longrightarrow>
     back_fields e s (t # ts) (v # vs) (v' # vs')"
| back_elems_Nil: "back_elems e s t [] []"
| back_elems_Cons: "comes_back e s t v v' \<Longrightarrow> back_elems e s t vs vs' \<Longrightarrow> back_elems e s t (v # vs) (v' # vs')"
| back_entries_Nil: "back_entries e s k t [] []"
| back_entries_Cons: "comes_back e s (TBasic k) key key' \<Longrightarrow> comes_back e s t v v' \<Longrightarrow> back_entries e s k t kvs kvs' \<Longrightarrow>
     back_entries e s k t ((key, v) # kvs) ((key', v') # kvs')"

inductive_cases comes_back_basicE: "comes_back e s (TBasic ch) v v'"
inductive_cases back_fieldsE: "back_fields e s ts vs vs'"

text \<open>A converted basic value reads back as itself.\<close>

lemma ranged_Some:
  "ranged lo hi mk v = Some b \<longleftrightarrow> (\<exists>i. v = JNumber (Fin (of_int i)) \<and> lo \<le> i \<and> i \<le> hi \<and> b = mk i)"
proof
  assume "ranged lo hi mk v = Some b"
  then obtain i where "int_value v = Some i" "lo \<le> i" "i \<le> hi" "b = mk i"
    by (auto simp: ranged_def int_in_def split: if_splits option.splits)
  then show "\<exists>i. v = JNumber (Fin (of_int i)) \<and> lo \<le> i \<and> i \<le> hi \<and> b = mk i"
    using int_value_trunc by blast
qed (auto simp: ranged_def int_in_def)

lemma signed_word_of_int:
  "- 32768 \<le> i \<Longrightarrow> i \<le> 32767 \<Longrightarrow> sint (word_of_int i :: 16 word) = i"
  "- 2147483648 \<le> i \<Longrightarrow> i \<le> 2147483647 \<Longrightarrow> sint (word_of_int i :: 32 word) = i"
  by (simp_all add: sint_sbintrunc' signed_take_bit_int_eq_self)

lemma unsigned_word_of_int:
  "0 \<le> i \<Longrightarrow> i \<le> 255 \<Longrightarrow> uint (word_of_int i :: 8 word) = i"
  "0 \<le> i \<Longrightarrow> i \<le> 65535 \<Longrightarrow> uint (word_of_int i :: 16 word) = i"
  "0 \<le> i \<Longrightarrow> i \<le> 4294967295 \<Longrightarrow> uint (word_of_int i :: 32 word) = i"
  by (simp_all add: uint_word_of_int)

lemma conv_basic_val:
  assumes laws: "janet_laws e" and conv: "conv e s ch v = Some b" and ch: "ch \<in> set basic_codes"
    and nofd: "\<forall>fd. b \<noteq> Fd fd"
  shows "\<exists>v'. basic_val b = Some v' \<and> basic_code b = ch \<and> comes_back e s (TBasic ch) v v'"
proof -
  from ch have "ch = CHR ''y'' \<or> ch = CHR ''b'' \<or> ch = CHR ''n'' \<or> ch = CHR ''q'' \<or> ch = CHR ''i''
    \<or> ch = CHR ''u'' \<or> ch = CHR ''x'' \<or> ch = CHR ''t'' \<or> ch = CHR ''d''
    \<or> ch \<in> {CHR ''s'', CHR ''o'', CHR ''g''} \<or> ch = CHR ''h''"
    by (auto simp: basic_codes_iff)
  then consider (ranged) "ch \<in> {CHR ''y'', CHR ''n'', CHR ''q'', CHR ''i'', CHR ''u''}"
    | (b) "ch = CHR ''b''" | (x) "ch = CHR ''x''" | (t) "ch = CHR ''t''" | (d) "ch = CHR ''d''"
    | (str) "ch \<in> {CHR ''s'', CHR ''o'', CHR ''g''}" | (h) "ch = CHR ''h''"
    by (elim disjE) simp_all
  then show ?thesis
  proof cases
    case ranged
    then have "basic_val b = Some v \<and> basic_code b = ch"
      using conv by (auto simp: conv_def ranged_Some signed_word_of_int unsigned_word_of_int)
    then show ?thesis using ranged by (auto intro!: back_same)
  next
    case b
    then have "basic_val b = Some v \<and> basic_code b = ch"
      using conv by (auto simp: conv_def split: janet.splits)
    then show ?thesis using b by (auto intro!: back_same)
  next
    case x
    then obtain w where "b = Int64 w"
      using conv by (auto simp: conv_def split: if_splits sum.splits option.splits)
    then show ?thesis using conv x by (auto intro: back_signed64)
  next
    case t
    then obtain w where "b = Uint64 w"
      using conv by (auto simp: conv_def split: if_splits sum.splits option.splits)
    then show ?thesis using conv t by (auto intro: back_unsigned64)
  next
    case d
    then have "basic_val b = Some v \<and> basic_code b = ch"
      using conv by (auto simp: conv_def split: janet.splits)
    then show ?thesis using d by (auto intro!: back_same)
  next
    case str
    then have ne: "ch \<noteq> CHR ''y'' \<and> ch \<noteq> CHR ''b'' \<and> ch \<noteq> CHR ''n'' \<and> ch \<noteq> CHR ''q'' \<and> ch \<noteq> CHR ''i''
      \<and> ch \<noteq> CHR ''u'' \<and> ch \<noteq> CHR ''x'' \<and> ch \<noteq> CHR ''t'' \<and> ch \<noteq> CHR ''d''" by auto
    have "conv e s ch v = (case v of
        JString _ \<Rightarrow> (case janet_getcbytes e v of Inr str \<Rightarrow> Some (Str ch str) | Inl _ \<Rightarrow> None)
      | _ \<Rightarrow> None)"
      using str unfolding conv_def by (simp only: ne if_False if_True)
    then obtain str c where "v = JString str" "janet_getcbytes e (JString str) = Inr c" "b = Str ch c"
      using conv by (auto split: janet.splits sum.splits)
    moreover have "c = str" using laws calculation(2) by (auto simp: janet_laws_def)
    ultimately have "basic_val b = Some v \<and> basic_code b = ch" using str by auto
    then show ?thesis using str by (auto intro!: back_same)
  next
    case h
    then show ?thesis
      using conv nofd by (auto simp: conv_def split: janet.splits abs_kind.splits if_splits)
  qed
qed

lemma dec_entry:
  "basic_val b = Some k \<Longrightarrow> first_char sg = basic_code b \<Longrightarrow> dec e y = Some v \<Longrightarrow>
     dec_entries e tbl (ICont (CHR ''e'') sg [IBasic b, y] # xs)
       = dec_entries e (janet_table_put e tbl k v) xs"
  by simp

lemma first_char_sig: "wf_ty t \<Longrightarrow> first_char (sig_of t) \<noteq> CHR ''{''"
  using hd_sig_of [of t] by (cases "sig_of t") (auto simp: first_char_def)

lemma dec_list_bytes:
  "dec_list e (map byte_item bs) = Some (map (\<lambda>c. JNumber (Fin (of_int (of_char c)))) bs)"
proof (induction bs)
  case (Cons c bs)
  have "(0 :: int) \<le> of_char c" "of_char c \<le> (255 :: int)"
    using pos_mod_bound [of 256 "of_char c :: int"] pos_mod_sign [of 256 "of_char c :: int"] by simp_all
  then show ?case using Cons by (simp add: byte_item_def unsigned_word_of_int)
qed simp

text \<open>An encoding writes one item per value, and the item decodes to the value that comes back.\<close>

lemma enc_round_trip:
  assumes laws: "janet_laws e"
  shows
   "enc e s t v cs \<Longrightarrow> no_fd cs \<Longrightarrow>
      \<exists>x v'. writes cs [x] \<and> dec e x = Some v' \<and> comes_back e s t v v'"
   "enc_fields e s ts vs ds \<Longrightarrow> no_fd ds \<Longrightarrow>
      \<exists>xs vs'. writes ds xs \<and> dec_list e xs = Some vs' \<and> back_fields e s ts vs vs'"
   "enc_elems e s t vs ds \<Longrightarrow> no_fd ds \<Longrightarrow>
      \<exists>xs vs'. writes ds xs \<and> dec_list e xs = Some vs' \<and> back_elems e s t vs vs'"
   "enc_entries e s k t kvs ds \<Longrightarrow> k \<in> set basic_codes \<Longrightarrow> no_fd ds \<Longrightarrow>
      \<exists>xs kvs'. writes ds xs \<and> back_entries e s k t kvs kvs' \<and>
        (\<forall>tbl. dec_entries e tbl xs = Some (foldl (\<lambda>tbl (k, v). janet_table_put e tbl k v) tbl kvs'))"
proof (induction rule: enc_enc_fields_enc_elems_enc_entries.inducts)
  case (basic ch v b)
  then obtain v' where "basic_val b = Some v'" "comes_back e s (TBasic ch) v v'"
    using conv_basic_val [OF laws, of s ch v b] by auto
  then show ?case using writes_basic1 by (intro exI [of _ "IBasic b"] exI [of _ v']) simp
next
  case (variant sg t v cs)
  then obtain x v' where x: "writes cs [x]" "dec e x = Some v'" "comes_back e s t v v'" by auto
  have sg: "sg = sig_of t" using variant.IH(1) laws by (auto simp: janet_laws_def)
  show ?case
    using writes_container1 [OF x(1), of "CHR ''v''" "sig_of t"] x back_variant [OF x(3)] sg
    by (intro exI [of _ "ICont (CHR ''v'') (sig_of t) [x]"] exI [of _ "JTuple [JString (sig_of t), v']"])
      simp
next
  case (struct v vs ts cs)
  then obtain xs vs' where x: "writes cs xs" "dec_list e xs = Some vs'" "back_fields e s ts vs vs'" by auto
  show ?case
    using writes_container1 [OF x(1), of "CHR ''r''" "sigs_of ts"] x back_struct [OF struct.hyps(1) x(3)]
    by (intro exI [of _ "ICont (CHR ''r'') (sigs_of ts) xs"] exI [of _ "JTuple vs'"]) simp
next
  case (bytes v bs)
  then show ?case
    using writes_bytes1 [of bs] dec_list_bytes [of e bs] back_bytes [OF bytes.hyps(1), of e s]
    by (intro exI [of _ "ICont (CHR ''a'') ''y'' (map byte_item bs)"] exI) (auto simp: first_char_def)
next
  case (array t v vs cs)
  then obtain xs vs' where x: "writes cs xs" "dec_list e xs = Some vs'" "back_elems e s t vs vs'" by auto
  show ?case
    using writes_container1 [OF x(1), of "CHR ''a''" "sig_of t"] x back_array [OF array.hyps(3) x(3)]
      first_char_sig [OF array.hyps(2)]
    by (intro exI [of _ "ICont (CHR ''a'') (sig_of t) xs"] exI [of _ "JArray vs'"]) simp
next
  case (dict k t v kvs cs)
  then obtain xs kvs' where x: "writes cs xs" "back_entries e s k t kvs kvs'"
    "\<And>tbl. dec_entries e tbl xs = Some (foldl (\<lambda>tbl (k, v). janet_table_put e tbl k v) tbl kvs')"
    by auto
  let ?sig = "CHR ''{'' # k # sig_of t @ [CHR ''}'']"
  show ?case
    using writes_container1 [OF x(1), of "CHR ''a''" ?sig] x back_dict [OF dict.hyps(3) x(2)]
    by (intro exI [of _ "ICont (CHR ''a'') ?sig xs"] exI) (auto simp: first_char_def)
next
  case fields_Nil
  then show ?case by (intro exI [of _ "[]"]) (auto intro: w_done back_fields_Nil)
next
  case (fields_Cons t v cs ts vs cs')
  then obtain x v' xs vs' where
    "writes cs [x]" "dec e x = Some v'" "comes_back e s t v v'"
    "writes cs' xs" "dec_list e xs = Some vs'" "back_fields e s ts vs vs'" by auto
  then show ?case
    using writes_append [of cs "[x]" cs' xs]
    by (intro exI [of _ "x # xs"] exI [of _ "v' # vs'"]) (auto intro: back_fields_Cons)
next
  case (elems_Nil t)
  then show ?case by (intro exI [of _ "[]"]) (auto intro: w_done back_elems_Nil)
next
  case (elems_Cons t v cs vs cs')
  then obtain x v' xs vs' where
    "writes cs [x]" "dec e x = Some v'" "comes_back e s t v v'"
    "writes cs' xs" "dec_list e xs = Some vs'" "back_elems e s t vs vs'" by auto
  then show ?case
    using writes_append [of cs "[x]" cs' xs]
    by (intro exI [of _ "x # xs"] exI [of _ "v' # vs'"]) (auto intro: back_elems_Cons)
next
  case (entries_Nil k t)
  then show ?case by (intro exI [of _ "[]"]) (auto intro: w_done back_entries_Nil)
next
  case (entries_Cons k key b t v cs kvs cs')
  from entries_Cons.prems have nofd: "\<forall>fd. b \<noteq> Fd fd" "no_fd cs" "no_fd cs'" by auto
  obtain key' where key: "basic_val b = Some key'" "basic_code b = k"
    "comes_back e s (TBasic k) key key'"
    using conv_basic_val [OF laws entries_Cons.IH(1) entries_Cons.prems(1) nofd(1)] by blast
  obtain x v' where x: "writes cs [x]" "dec e x = Some v'" "comes_back e s t v v'"
    using entries_Cons.IH(3) nofd by blast
  obtain xs kvs' where xs: "writes cs' xs" "back_entries e s k t kvs kvs'"
    "\<And>tbl. dec_entries e tbl xs = Some (foldl (\<lambda>tbl (k, v). janet_table_put e tbl k v) tbl kvs')"
    using entries_Cons.IH(5) entries_Cons.prems(1) nofd by blast
  let ?x = "ICont (CHR ''e'') (k # sig_of t) [IBasic b, x]"
  have "writes (OpenContainer (CHR ''e'') (k # sig_of t) # AppendBasic b # cs @ [CloseContainer]) [?x]"
    using writes_container1 [OF w_basic [OF x(1)], of "CHR ''e''" "k # sig_of t" b] by simp
  then have w: "writes ((OpenContainer (CHR ''e'') (k # sig_of t) # AppendBasic b # cs @ [CloseContainer])
      @ cs') (?x # xs)"
    using writes_append [OF _ xs(1)] by fastforce
  have d: "dec_entries e tbl (?x # xs) = Some (foldl (\<lambda>tbl (k, v). janet_table_put e tbl k v) tbl
      ((key', v') # kvs'))" for tbl
    using dec_entry [OF key(1) _ x(2), of "k # sig_of t" tbl xs] xs(3) key(2) by (simp add: first_char_def)
  show ?case using w d back_entries_Cons [OF key(3) x(3) xs(2)] by blast
qed

subsection \<open>What is written is what is read\<close>

text \<open>
  The message under construction, as the manual of \<open>sd_bus_message_append\<close> describes it:
  \<open>built w\<close> holds, from the innermost open container outwards, its kind, its signature and the
  items it has so far; the last level is the message itself. Calls that succeed do what they
  are named after, and a sealed message is read from its beginning.
\<close>

type_synonym level = "char \<times> string \<times> item list"

fun write_level :: "wcall \<Rightarrow> level list \<Rightarrow> level list" where
  "write_level (OpenContainer k sg) st = (k, sg, []) # st"
| "write_level (AppendBasic b) ((k, sg, xs) # st) = (k, sg, xs @ [IBasic b]) # st"
| "write_level (AppendArray c bs) ((k, sg, xs) # st) =
     (k, sg, xs @ [ICont (CHR ''a'') [c] (map byte_item bs)]) # st"
| "write_level CloseContainer ((k, sg, ys) # (k', sg', xs) # st) = (k', sg', xs @ [ICont k sg ys]) # st"
| "write_level _ st = st"

definition writer_laws :: "'w env \<Rightarrow> ptr \<Rightarrow> ('w \<Rightarrow> level list) \<Rightarrow> ('w \<Rightarrow> item list list) \<Rightarrow> bool" where
  "writer_laws e m built view \<longleftrightarrow>
     (\<forall>c w. 0 \<le> fst (sd_write e m c w) \<longrightarrow> built (snd (sd_write e m c w)) = write_level c (built w)) \<and>
     (\<forall>w k sg xs. built w = [(k, sg, xs)] \<longrightarrow> 0 \<le> fst (sd_seal e m w) \<longrightarrow>
        view (snd (sd_seal e m w)) = [xs])"

lemma run_calls_Cons_Inr:
  "run_calls e m (c # cs) w = (Inr (), w') \<longleftrightarrow>
     0 \<le> fst (sd_write e m c w) \<and> run_calls e m cs (snd (sd_write e m c w)) = (Inr (), w')"
  by (cases "sd_write e m c w") auto

lemma run_calls_append_Inr:
  "run_calls e m (cs @ ds) w = (Inr (), w') \<longleftrightarrow>
     (\<exists>w1. run_calls e m cs w = (Inr (), w1) \<and> run_calls e m ds w1 = (Inr (), w'))"
  by (induction cs arbitrary: w) (auto simp: run_calls_Cons_Inr simp del: run_calls.simps(2))

lemma writes_built:
  assumes laws: "writer_laws e m built view"
  shows "writes cs xs \<Longrightarrow> run_calls e m cs w = (Inr (), w') \<Longrightarrow> built w = (k, sg, ys) # st \<Longrightarrow>
     built w' = (k, sg, ys @ xs) # st"
proof (induction arbitrary: w w' k sg ys st rule: writes.induct)
  case w_done
  then show ?case by simp
next
  case (w_basic cs xs b)
  from w_basic.prems laws show ?case
    using w_basic.IH [of "snd (sd_write e m (AppendBasic b) w)" w' k sg "ys @ [IBasic b]" st]
    by (simp add: run_calls_Cons_Inr writer_laws_def del: run_calls.simps)
next
  case (w_container cs zs cs' xs k' sg')
  let ?w = "snd (sd_write e m (OpenContainer k' sg') w)"
  obtain w1 w2 where w: "0 \<le> fst (sd_write e m (OpenContainer k' sg') w)"
    "run_calls e m cs ?w = (Inr (), w1)" "0 \<le> fst (sd_write e m CloseContainer w1)"
    "w2 = snd (sd_write e m CloseContainer w1)" "run_calls e m cs' w2 = (Inr (), w')"
    using w_container.prems(1)
    by (auto simp: run_calls_Cons_Inr run_calls_append_Inr simp del: run_calls.simps)
  have "built ?w = (k', sg', []) # (k, sg, ys) # st"
    using laws w(1) w_container.prems(2) by (simp add: writer_laws_def)
  then have "built w1 = (k', sg', zs) # (k, sg, ys) # st"
    using w_container.IH(1) [OF w(2)] by simp
  then have "built w2 = (k, sg, ys @ [ICont k' sg' zs]) # st"
    using laws w(3,4) by (simp add: writer_laws_def)
  then show ?case using w_container.IH(2) [OF w(5)] by simp
next
  case (w_bytes cs xs bs)
  from w_bytes.prems laws show ?case
    using w_bytes.IH [of "snd (sd_write e m (AppendArray (CHR ''y'') bs) w)" w' k sg
        "ys @ [ICont (CHR ''a'') ''y'' (map byte_item bs)]" st]
    by (simp add: run_calls_Cons_Inr writer_laws_def del: run_calls.simps)
qed

end
