(* ===== verification/Capi.thy ===== *)
theory Capi
  imports Append_Spec
begin

text \<open>
  The argument accessors of Janet's C API that the \<open>JANET_FN\<close> functions start with: a function
  receives the list of its arguments and panics, before it does anything, when their number
  or their types are wrong. An access past the last argument is the undefined behaviour it is
  in C; the arity check of each function has to exclude it.
\<close>

definition janet_fixarity :: "janet list \<Rightarrow> nat \<Rightarrow> ('w, unit) prog" where
  "janet_fixarity argv n =
     guard (length argv = n)
       (Panicf ''arity mismatch, expected %d, got %d'' [PInt (int n), PInt (int (length argv))])"

definition janet_arity :: "janet list \<Rightarrow> nat \<Rightarrow> nat option \<Rightarrow> ('w, unit) prog" where
  "janet_arity argv lo hi =
     guard (lo \<le> length argv \<and> (case hi of None \<Rightarrow> True | Some h \<Rightarrow> length argv \<le> h))
       (Panicf ''arity mismatch, got %d'' [PInt (int (length argv))])"

definition argument :: "janet list \<Rightarrow> nat \<Rightarrow> ('w, janet) prog" where
  "argument argv i =
     (if i < length argv then ret (argv ! i) else raise (UB OutOfBounds))"

definition bad_slot :: "nat \<Rightarrow> string \<Rightarrow> janet \<Rightarrow> panic" where
  "bad_slot i expected x = Panicf ''bad slot #%d, expected %s, got %v'' [PInt (int i), PStr expected, PVal x]"

definition janet_getabstract :: "janet list \<Rightarrow> nat \<Rightarrow> abs_kind \<Rightarrow> ('w, nat) prog" where
  "janet_getabstract argv i k =
     bnd (argument argv i) (\<lambda>x.
     case x of
       JAbstract k' a \<Rightarrow> if k' = k then ret a else raise (bad_slot i ''abstract'' x)
     | _ \<Rightarrow> raise (bad_slot i ''abstract'' x))"

definition janet_getcstring :: "'w env \<Rightarrow> janet list \<Rightarrow> nat \<Rightarrow> ('w, string) prog" where
  "janet_getcstring e argv i =
     bnd (argument argv i) (\<lambda>x.
     case x of
       JString _ \<Rightarrow> lift (janet_getcbytes e x)
     | _ \<Rightarrow> raise (bad_slot i ''string'' x))"

definition janet_getboolean :: "janet list \<Rightarrow> nat \<Rightarrow> ('w, bool) prog" where
  "janet_getboolean argv i =
     bnd (argument argv i) (\<lambda>x.
     case x of JBoolean b \<Rightarrow> ret b | _ \<Rightarrow> raise (bad_slot i ''boolean'' x))"

definition janet_getdictionary :: "janet list \<Rightarrow> nat \<Rightarrow> ('w, (janet \<times> janet) list) prog" where
  "janet_getdictionary argv i =
     bnd (argument argv i) (\<lambda>x.
     case dictionary_view x of Some kvs \<Rightarrow> ret kvs | None \<Rightarrow> raise (bad_slot i ''dictionary'' x))"

definition janet_getinteger :: "'w env \<Rightarrow> janet list \<Rightarrow> nat \<Rightarrow> ('w, int) prog" where
  "janet_getinteger e argv i =
     bnd (argument argv i) (\<lambda>x.
     bnd (guard (janet_checkint e x) (bad_slot i ''32 bit signed integer'' x)) (\<lambda>_.
     cast_number (- 2147483648) 2147483647 x))"

text \<open>Optional arguments: a missing one and \<open>nil\<close> give the default.\<close>

definition absent :: "janet list \<Rightarrow> nat \<Rightarrow> bool" where
  "absent argv i \<longleftrightarrow> length argv \<le> i \<or> argv ! i = JNil"

definition janet_optinteger :: "'w env \<Rightarrow> janet list \<Rightarrow> nat \<Rightarrow> int \<Rightarrow> ('w, int) prog" where
  "janet_optinteger e argv i dflt = (if absent argv i then ret dflt else janet_getinteger e argv i)"

definition janet_optinteger64 :: "'w env \<Rightarrow> janet list \<Rightarrow> nat \<Rightarrow> 64 word \<Rightarrow> ('w, 64 word) prog" where
  "janet_optinteger64 e argv i dflt =
     (if absent argv i then ret dflt
      else bnd (argument argv i) (\<lambda>x. lift (janet_unwrap_s64 e x)))"

definition janet_optabstract :: "janet list \<Rightarrow> nat \<Rightarrow> abs_kind \<Rightarrow> ('w, nat option) prog" where
  "janet_optabstract argv i k =
     (if absent argv i then ret None else bnd (janet_getabstract argv i k) (\<lambda>a. ret (Some a)))"

lemma argument_apply [simp, comp_simps]:
  "argument argv i s = (if i < length argv then (Inr (argv ! i), s) else (Inl (UB OutOfBounds), s))"
  by (simp add: argument_def)

lemma janet_fixarity_apply [simp, comp_simps]:
  "janet_fixarity argv n s = (if length argv = n then (Inr (), s)
     else (Inl (Panicf ''arity mismatch, expected %d, got %d'' [PInt (int n), PInt (int (length argv))]), s))"
  by (simp add: janet_fixarity_def)

text \<open>
  What a successful accessor says about its argument; with \<open>comp_elims\<close> these invert the
  beginning of every function.
\<close>

lemma janet_getabstract_eq [comp_elims]:
  "janet_getabstract argv i k s = (Inr a, t) \<longleftrightarrow> t = s \<and> i < length argv \<and> argv ! i = JAbstract k a"
  by (auto simp: janet_getabstract_def bnd_eq_Inr split: if_splits janet.splits)

lemma janet_getabstract_apply [simp]:
  "i < length argv \<Longrightarrow> argv ! i = JAbstract k a \<Longrightarrow> janet_getabstract argv i k s = (Inr a, s)"
  by (simp add: janet_getabstract_def bnd_apply)

lemma janet_getcstring_apply:
  "i < length argv \<Longrightarrow> argv ! i = JString str \<Longrightarrow> janet_getcbytes e (JString str) = Inr c \<Longrightarrow>
     janet_getcstring e argv i s = (Inr c, s)"
  by (simp add: janet_getcstring_def bnd_apply)

text \<open>No accessor changes the state, whether it returns or panics.\<close>

lemma accessors_same_state:
  "snd (janet_getabstract argv i k s) = s"
  "snd (janet_getcstring e argv i s) = s"
  "snd (janet_getboolean argv i s) = s"
  "snd (janet_getdictionary argv i s) = s"
  by (simp_all add: janet_getabstract_def janet_getcstring_def janet_getboolean_def
      janet_getdictionary_def bnd_apply split: janet.split option.split)

text \<open>After the arity check, no accessor of an argument that is there is undefined.\<close>

lemma clean_fixarity [simp]: "clean_at (janet_fixarity argv n) s" "clean_at (janet_arity argv lo hi) s"
  by (simp_all add: janet_fixarity_def janet_arity_def)

lemma clean_argument [intro]: "i < length argv \<Longrightarrow> clean_at (argument argv i) s"
  by (simp add: argument_def)

lemma bad_slot_not_ub [simp]: "\<not> is_ub (bad_slot i ty x)"
  by (simp add: bad_slot_def)

lemma clean_getabstract [intro]: "i < length argv \<Longrightarrow> clean_at (janet_getabstract argv i k) s"
  by (auto simp: janet_getabstract_def intro!: clean_bnd split: janet.split)

lemma clean_getcstring:
  assumes "janet_laws e" and "i < length argv"
  shows "clean_at (janet_getcstring e argv i) s"
proof -
  have "\<And>x p. janet_getcbytes e x = Inl p \<Longrightarrow> \<not> is_ub p" using assms(1) by (simp add: janet_laws_def)
  then show ?thesis
    using assms(2) by (auto simp: janet_getcstring_def intro!: clean_bnd clean_lift split: janet.split)
qed

lemma clean_getboolean [intro]: "i < length argv \<Longrightarrow> clean_at (janet_getboolean argv i) s"
  by (auto simp: janet_getboolean_def intro!: clean_bnd split: janet.split)

lemma clean_janet_getdictionary [intro]: "i < length argv \<Longrightarrow> clean_at (janet_getdictionary argv i) s"
  by (auto simp: janet_getdictionary_def intro!: clean_bnd split: option.split)

lemma clean_optabstract [intro]: "clean_at (janet_optabstract argv i k) s"
  by (auto simp: janet_optabstract_def absent_def intro!: clean_bnd)

lemma clean_optinteger:
  fixes e :: "'w env"
  assumes laws: "janet_laws e"
  shows "clean_at (janet_optinteger e argv i d) s"
proof -
  have "clean_at (cast_number (- 2147483648) 2147483647 x) t" if "janet_checkint e x"
    for x and t :: "'w world"
  proof -
    from that laws have "int_in (- 2147483648) 2147483647 x" by (simp add: janet_laws_def)
    then obtain k where "int_value x = Some k" "- 2147483648 \<le> k" "k \<le> 2147483647"
      using int_in_value by blast
    then show ?thesis by (simp add: cast_number_int)
  qed
  then show ?thesis
    by (auto simp: janet_optinteger_def janet_getinteger_def absent_def intro!: clean_bnd
        split: if_splits)
qed

end
