(* ===== verification/Message.thy ===== *)
theory Message
  imports Append Read Capi
begin

text \<open>
  The functions on message objects that \<open>src/message.c\<close> exports to Janet. A message object is a
  cell that holds the pointer to the sd-bus message, null once it was released; fuel bounds the
  reading loops.
\<close>

text \<open>\<open>janet_abstract(&dbus_message_type, ...)\<close> and the assignment of the new cell.\<close>

definition new_message :: "ptr \<Rightarrow> ('w, nat) prog" where
  "new_message msg =
     bnd fresh (\<lambda>a.
     bnd (upd (\<lambda>s. s\<lparr>msgs := (msgs s)(a := msg)\<rparr>)) (\<lambda>_.
     ret a))"

definition wrap_message :: "ptr \<Rightarrow> ('w, janet) prog" where
  "wrap_message msg = bnd (new_message msg) (\<lambda>a. ret (JAbstract AbsMessage a))"

definition get_message :: "janet list \<Rightarrow> nat \<Rightarrow> ('w, ptr) prog" where
  "get_message argv i =
     bnd (janet_getabstract argv i AbsMessage) (\<lambda>a. gets (\<lambda>s. msgs s a))"

definition get_bus :: "janet list \<Rightarrow> nat \<Rightarrow> ('w, ptr) prog" where
  "get_bus argv i =
     bnd (janet_getabstract argv i AbsBus) (\<lambda>c. gets (\<lambda>s. cbus (conns s c)))"

definition release_message :: "'w env \<Rightarrow> nat \<Rightarrow> ('w, unit) prog" where
  "release_message e a =
     bnd (gets (\<lambda>s. msgs s a)) (\<lambda>msg.
     bnd (extern (sd_message_unref e msg)) (\<lambda>_.
     upd (\<lambda>s. s\<lparr>msgs := (msgs s)(a := None)\<rparr>)))"

definition gc_sdbus_message :: "'w env \<Rightarrow> nat \<Rightarrow> ('w, int) prog" where
  "gc_sdbus_message e a = bnd (release_message e a) (\<lambda>_. ret 0)"

subsection \<open>Creating messages\<close>

definition cfun_message_new_method_call :: "'w env \<Rightarrow> janet list \<Rightarrow> ('w, janet) prog" where
  "cfun_message_new_method_call e argv =
     bnd (janet_fixarity argv 5) (\<lambda>_.
     bnd (get_bus argv 0) (\<lambda>bus.
     bnd (janet_getcstring e argv 1) (\<lambda>destination.
     bnd (janet_getcstring e argv 2) (\<lambda>path.
     bnd (janet_getcstring e argv 3) (\<lambda>interface.
     bnd (janet_getcstring e argv 4) (\<lambda>member.
     bnd (CALL_SD_BUS_OUT ''sd_bus_message_new_method_call''
            (sd_new_method_call e bus destination path interface member)) (\<lambda>msg.
     wrap_message msg)))))))"

definition cfun_message_new_method_return :: "'w env \<Rightarrow> janet list \<Rightarrow> ('w, janet) prog" where
  "cfun_message_new_method_return e argv =
     bnd (janet_fixarity argv 1) (\<lambda>_.
     bnd (get_message argv 0) (\<lambda>msg.
     bnd (CALL_SD_BUS_OUT ''sd_bus_message_new_method_return'' (sd_new_method_return e msg)) (\<lambda>reply.
     wrap_message reply)))"

definition cfun_message_new_signal :: "'w env \<Rightarrow> janet list \<Rightarrow> ('w, janet) prog" where
  "cfun_message_new_signal e argv =
     bnd (janet_fixarity argv 4) (\<lambda>_.
     bnd (get_bus argv 0) (\<lambda>bus.
     bnd (janet_getcstring e argv 1) (\<lambda>path.
     bnd (janet_getcstring e argv 2) (\<lambda>interface.
     bnd (janet_getcstring e argv 3) (\<lambda>member.
     bnd (CALL_SD_BUS_OUT ''sd_bus_message_new_signal''
            (sd_new_signal e bus path interface member)) (\<lambda>msg.
     wrap_message msg))))))"

definition cfun_message_new_method_error :: "'w env \<Rightarrow> janet list \<Rightarrow> ('w, janet) prog" where
  "cfun_message_new_method_error e argv =
     bnd (janet_fixarity argv 3) (\<lambda>_.
     bnd (get_message argv 0) (\<lambda>call.
     bnd (janet_getcstring e argv 1) (\<lambda>name.
     bnd (janet_getcstring e argv 2) (\<lambda>message.
     bnd (CALL_SD_BUS_OUT ''sd_bus_message_new_method_error''
            (sd_new_method_error e call (name, Some message))) (\<lambda>reply.
     wrap_message reply)))))"

subsection \<open>Header fields, sending and releasing\<close>

definition cfun_message_send :: "'w env \<Rightarrow> janet list \<Rightarrow> ('w, janet) prog" where
  "cfun_message_send e argv =
     bnd (janet_fixarity argv 1) (\<lambda>_.
     bnd (get_message argv 0) (\<lambda>msg.
     bnd (CALL_SD_BUS_FUNC ''sd_bus_message_send'' (sd_send e msg)) (\<lambda>_.
     ret JNil)))"

definition MESSAGE_GET :: "(ptr \<Rightarrow> 'w \<Rightarrow> string option) \<Rightarrow> janet list \<Rightarrow> ('w, janet) prog" where
  "MESSAGE_GET get argv =
     bnd (janet_fixarity argv 1) (\<lambda>_.
     bnd (get_message argv 0) (\<lambda>msg.
     bnd (gets (\<lambda>s. get msg (ext s))) (\<lambda>target.
     janet_cstringv target)))"

definition cfun_message_get_destination :: "'w env \<Rightarrow> janet list \<Rightarrow> ('w, janet) prog" where
  "cfun_message_get_destination e = MESSAGE_GET (sd_get_destination e)"

definition cfun_message_get_path :: "'w env \<Rightarrow> janet list \<Rightarrow> ('w, janet) prog" where
  "cfun_message_get_path e = MESSAGE_GET (sd_get_path e)"

definition cfun_message_get_interface :: "'w env \<Rightarrow> janet list \<Rightarrow> ('w, janet) prog" where
  "cfun_message_get_interface e = MESSAGE_GET (sd_get_interface e)"

definition cfun_message_get_member :: "'w env \<Rightarrow> janet list \<Rightarrow> ('w, janet) prog" where
  "cfun_message_get_member e = MESSAGE_GET (sd_get_member e)"

definition cfun_message_get_sender :: "'w env \<Rightarrow> janet list \<Rightarrow> ('w, janet) prog" where
  "cfun_message_get_sender e = MESSAGE_GET (sd_get_sender e)"

definition cfun_message_unref :: "'w env \<Rightarrow> janet list \<Rightarrow> ('w, janet) prog" where
  "cfun_message_unref e argv =
     bnd (janet_fixarity argv 1) (\<lambda>_.
     bnd (janet_getabstract argv 0 AbsMessage) (\<lambda>a.
     bnd (release_message e a) (\<lambda>_.
     ret JNil)))"

subsection \<open>Appending and reading\<close>

definition cfun_message_append :: "'w env \<Rightarrow> janet list \<Rightarrow> ('w, janet) prog" where
  "cfun_message_append e argv =
     bnd (janet_arity argv 3 None) (\<lambda>_.
     bnd (get_message argv 0) (\<lambda>msg.
     bnd (janet_getcstring e argv 1) (\<lambda>str.
     bnd (janet_cstring str) (\<lambda>signature.
     bnd (append_data e msg signature (drop 2 argv)) (\<lambda>_.
     ret JNil)))))"

text \<open>The \<open>for\<close> loop that reads at most \<open>k\<close> items.\<close>

fun read_upto :: "nat \<Rightarrow> 'w env \<Rightarrow> ptr \<Rightarrow> nat \<Rightarrow> janet list \<Rightarrow> ('w, janet list) prog" where
  "read_upto n e msg 0 array = ret array"
| "read_upto n e msg (Suc k) array =
     bnd (read_complete_type n e msg) (\<lambda>item.
     case item of
       None \<Rightarrow> ret array
     | Some item \<Rightarrow> read_upto n e msg k (array @ [item]))"

text \<open>\<open>janet_array_pop\<close> of an array with fewer than two elements, the array otherwise.\<close>

definition read_result :: "janet list \<Rightarrow> janet" where
  "read_result array =
     (if length array < 2 then (if array = [] then JNil else last array) else JArray array)"

text \<open>
  The panic for an unknown keyword passes a pointer where \<open>%v\<close> takes a Janet value, which C
  leaves undefined.
\<close>

definition cfun_message_read :: "nat \<Rightarrow> 'w env \<Rightarrow> janet list \<Rightarrow> ('w, janet) prog" where
  "cfun_message_read n e argv =
     bnd (janet_arity argv 1 (Some 2)) (\<lambda>_.
     bnd (get_message argv 0) (\<lambda>msg.
     bnd (case argv of
            [_, JKeyword kw] \<Rightarrow>
              bnd (if kw = ''all''
                   then bnd (CALL_SD_BUS_FUNC ''sd_bus_message_rewind'' (sd_rewind e msg)) (\<lambda>_. ret ())
                   else if kw \<noteq> ''rest'' then raise (UB BadVararg)
                   else ret ()) (\<lambda>_.
              read_items n e msg [])
          | _ \<Rightarrow>
              bnd (janet_optinteger e argv 1 1) (\<lambda>k.
              bnd (guard (\<not> k < 0) (Panicf ''expected positive integer argument'' [])) (\<lambda>_.
              read_upto n e msg (nat k) []))) (\<lambda>array.
     ret (read_result array))))"

definition cfun_message_rewind :: "'w env \<Rightarrow> janet list \<Rightarrow> ('w, janet) prog" where
  "cfun_message_rewind e argv =
     bnd (janet_fixarity argv 1) (\<lambda>_.
     bnd (get_message argv 0) (\<lambda>msg.
     bnd (CALL_SD_BUS_FUNC ''sd_bus_message_rewind'' (sd_rewind e msg)) (\<lambda>_.
     ret JNil)))"

definition cfun_message_seal :: "'w env \<Rightarrow> janet list \<Rightarrow> ('w, janet) prog" where
  "cfun_message_seal e argv =
     bnd (janet_fixarity argv 1) (\<lambda>_.
     bnd (get_message argv 0) (\<lambda>msg.
     bnd (CALL_SD_BUS_FUNC ''sd_bus_message_seal'' (sd_seal e msg)) (\<lambda>_.
     ret JNil)))"

definition cfun_message_dump :: "'w env \<Rightarrow> janet list \<Rightarrow> ('w, janet) prog" where
  "cfun_message_dump e argv =
     bnd (janet_arity argv 1 (Some 2)) (\<lambda>_.
     bnd (get_message argv 0) (\<lambda>msg.
     bnd (janet_optabstract argv 1 AbsFile) (\<lambda>a.
     bnd (gets (\<lambda>s. case a of
            None \<Rightarrow> \<lparr>f_file = None, f_closed = False, f_fileno = 0\<rparr>
          | Some a \<Rightarrow> files s a)) (\<lambda>f.
     bnd (guard (\<not> (f_file f \<noteq> None \<and> f_closed f))
            (Panicf ''Cannot dump message to a closed file'' [])) (\<lambda>_.
     bnd (extern (sd_dump e msg (f_file f))) (\<lambda>_.
     bnd (CALL_SD_BUS_FUNC ''sd_bus_message_rewind'' (sd_rewind e msg)) (\<lambda>_.
     ret JNil)))))))"

end
