(* ===== verification/Handles.thy ===== *)
theory Handles
  imports World
begin

text \<open>
  The interface of the objects the library gives to Janet for something of sd-bus, messages and
  slots: a pointer that explicit release and the finalizer both release. Releasing clears the
  pointer, and releasing a null pointer is harmless, so that each object gives back one reference.
\<close>

primrec repeat :: "nat \<Rightarrow> ('w, unit) prog \<Rightarrow> ('w, unit) prog" where
  "repeat 0 m = ret ()"
| "repeat (Suc n) m = bnd m (\<lambda>_. repeat n m)"

locale handle =
  fixes ptr_of :: "'w world \<Rightarrow> nat \<Rightarrow> ptr" and release :: "nat \<Rightarrow> ('w, unit) prog"
  assumes cleared: "release a s = (Inr (), t) \<Longrightarrow> ptr_of t a = None"
    and harmless: "ptr_of s a = None \<Longrightarrow> \<exists>w. release a s = (Inr (), s\<lparr>ext := w\<rparr>)"
    and ptr_outside: "ptr_of (s\<lparr>ext := w\<rparr>) a = ptr_of s a"
begin

lemma repeat_null: "ptr_of s a = None \<Longrightarrow> \<exists>w. repeat n (release a) s = (Inr (), s\<lparr>ext := w\<rparr>)"
proof (induction n arbitrary: s)
  case 0
  then show ?case by (intro exI [of _ "ext s"]) simp
next
  case (Suc n)
  obtain w where w: "release a s = (Inr (), s\<lparr>ext := w\<rparr>)" using harmless [OF Suc.prems] by blast
  have "ptr_of (s\<lparr>ext := w\<rparr>) a = None" using Suc.prems by (simp add: ptr_outside)
  from Suc.IH [OF this] show ?case using w by (auto simp: bnd_apply)
qed

lemma released_again: "release a s = (Inr (), t) \<Longrightarrow> \<exists>w. repeat n (release a) t = (Inr (), t\<lparr>ext := w\<rparr>)"
  by (rule repeat_null [OF cleared])

end

end
