(* ===== verification/Message_Spec.thy ===== *)
theory Message_Spec
  imports Message Read_Spec Base_Env Append_Sound Handles
begin

text \<open>
  What the message functions promise: \<open>message-read\<close> in its three forms, and the examples'
  outside world, in which the read cursor is the list of what is left to read.
\<close>

text \<open>Values of several items, read one after the other.\<close>

lemma dec_list_Cons [simp]:
  "dec_list e (x # xs) = Some vs \<longleftrightarrow> (\<exists>v us. dec e x = Some v \<and> dec_list e xs = Some us \<and> vs = v # us)"
  by (auto simp: dec_list.simps split: option.splits)

declare dec_list.simps(2) [simp del]

lemma dec_list_length: "dec_list e xs = Some vs \<Longrightarrow> length vs = length xs"
  by (induction xs arbitrary: vs) auto

lemma read_complete_end:
  assumes "reader_laws e m view" and "view (ext s) = [] # st"
  shows "read_complete_type (Suc n) e m s = (Inr None, s)"
proof -
  obtain c sg where "MESSAGE_PEEK e m s = (Inr (0, c, sg), s)" by (rule peek_end [OF assms])
  then show ?thesis by (simp add: bnd_apply)
qed

lemma cost_le_costs: "x \<in> set xs \<Longrightarrow> cost x < costs xs"
  by (induction xs) auto

lemma read_upto_consumes:
  assumes laws: "reader_laws e m view"
  shows "dec_list e xs = Some vs \<Longrightarrow> costs xs < n \<Longrightarrow> view (ext s) = xs # st \<Longrightarrow>
     consumes view s (read_upto n e m k acc s) (acc @ take k vs) (drop k xs) st"
proof (induction k arbitrary: xs vs s acc)
  case 0
  then show ?case by (intro consumesI [where w = "ext s"]) simp_all
next
  case (Suc k)
  show ?case
  proof (cases xs)
    case Nil
    then have "read_complete_type n e m s = (Inr None, s)"
      using read_complete_end [OF laws, of s st "n - 1"] Suc.prems(2,3) by simp
    then show ?thesis
      using Suc.prems Nil by (intro consumesI [where w = "ext s"]) (simp_all add: bnd_apply)
  next
    case (Cons x ys)
    then obtain v us where v: "dec e x = Some v" and us: "dec_list e ys = Some us" and vs: "vs = v # us"
      using Suc.prems(1) by auto
    have c: "cost x \<le> n" "costs ys < n" using Suc.prems(2) Cons by simp_all
    show ?thesis
      unfolding read_upto.simps
    proof (rule consumes_bnd)
      show "consumes view s (read_complete_type n e m s) (Some v) ys st"
        by (rule read_consumes(1) [OF laws v c(1)]) (use Suc.prems(3) Cons in simp)
      fix w assume "view w = ys # st"
      then have "consumes view (s\<lparr>ext := w\<rparr>) (read_upto n e m k (acc @ [v]) (s\<lparr>ext := w\<rparr>))
          ((acc @ [v]) @ take k us) (drop k ys) st"
        by (intro Suc.IH [OF us c(2)]) simp
      then show "consumes view s ((case Some v of None \<Rightarrow> ret acc
          | Some item \<Rightarrow> read_upto n e m k (acc @ [item])) (s\<lparr>ext := w\<rparr>))
          (acc @ take (Suc k) vs) (drop (Suc k) xs) st"
        by (simp add: vs Cons)
    qed
  qed
qed

text \<open>The argument list of a call with a message and nothing else, or with one more argument.\<close>

lemma get_message_apply:
  "i < length argv \<Longrightarrow> argv ! i = JAbstract AbsMessage a \<Longrightarrow> get_message argv i s = (Inr (msgs s a), s)"
  by (simp add: get_message_def bnd_apply)

lemma message_read_keyword:
  assumes "kw \<in> {''all'', ''rest''}"
  shows "cfun_message_read n e [JAbstract AbsMessage a, JKeyword kw] s =
     bnd (if kw = ''all''
          then bnd (CALL_SD_BUS_FUNC ''sd_bus_message_rewind'' (sd_rewind e (msgs s a))) (\<lambda>_. ret ())
          else ret ()) (\<lambda>_.
     bnd (read_items n e (msgs s a) []) (\<lambda>array. ret (read_result array))) s"
  using assms
  by (auto simp: cfun_message_read_def janet_arity_def bnd_assoc
      bnd_Inr [where m = "get_message argv i" for argv i, OF get_message_apply])

text \<open>A count: a number the program accepts as an \<open>int32_t\<close>, or none, which means one.\<close>

definition counts :: "'w env \<Rightarrow> janet list \<Rightarrow> nat \<Rightarrow> bool" where
  "counts e rest k \<longleftrightarrow> (rest = [] \<or> rest = [JNil]) \<and> k = 1
     \<or> (\<exists>x. rest = [x] \<and> x = JNumber (Fin (of_nat k)) \<and> int k \<le> 2147483647)"

lemma message_read_count:
  fixes e :: "'w env"
  assumes "janet_laws e" and "counts e rest k"
  shows "cfun_message_read n e (JAbstract AbsMessage a # rest) s =
     bnd (read_upto n e (msgs s a) k []) (\<lambda>array. ret (read_result array)) s"
proof -
  have opt: "janet_optinteger e (JAbstract AbsMessage a # rest) 1 1 s = (Inr (int k), s)"
  proof (cases "rest = [] \<or> rest = [JNil]")
    case True
    then show ?thesis using assms(2) by (auto simp: janet_optinteger_def absent_def counts_def)
  next
    case False
    then have x: "rest = [JNumber (Fin (of_int (int k)))]" "int k \<le> 2147483647"
      using assms(2) by (auto simp: counts_def)
    have "int_value (JNumber (Fin (of_int (int k)))) = Some (int k)" by (rule int_value_of_int)
    then have "janet_checkint e (JNumber (Fin (of_int (int k))))"
      "cast_number (- 2147483648) 2147483647 (JNumber (Fin (of_int (int k)))) = (ret (int k) :: ('w, int) prog)"
      using assms(1) x(2) by (simp_all add: janet_laws_def int_in_def cast_number_int)
    then show ?thesis
      by (simp add: x janet_optinteger_def absent_def janet_getinteger_def bnd_apply)
  qed
  from assms(2) consider "rest = []" "k = 1" | "rest = [JNil]" "k = 1"
    | "rest = [JNumber (Fin (of_nat k))]"
    by (auto simp: counts_def)
  then show ?thesis
    by cases (use opt in \<open>simp_all add: cfun_message_read_def janet_arity_def bnd_apply
        get_message_apply split: prod.split sum.split\<close>)
qed

subsection \<open>No undefined behaviour\<close>

lemma clean_MESSAGE_PEEK [simp]: "clean_at (MESSAGE_PEEK e m) s"
  by (auto simp: MESSAGE_PEEK_def intro!: clean_bnd split: prod.split)

lemma clean_enter_exit [simp]:
  "clean_at (enter_container e m k sg) s" "clean_at (exit_container e m) s"
  by (simp_all add: enter_container_def exit_container_def)

lemma clean_janet_stream [simp]: "clean_at (janet_stream fd fl) s"
  by (auto simp: janet_stream_def intro!: clean_bnd)

lemma clean_DBUS_TO_JANET [simp]: "clean_at (DBUS_TO_JANET f wrap) s"
  by (auto simp: DBUS_TO_JANET_def intro!: clean_bnd)

lemma clean_read_basic_type [simp]: "clean_at (read_basic_type e m c) s"
proof -
  have "clean_at (read_fd_type e m) s"
    unfolding read_fd_type_def by (intro clean_bnd) simp_all
  then show ?thesis by (simp add: read_basic_type_def)
qed

lemma read_clean:
  "(\<forall>s. clean_at (read_complete_type n e m) s) \<and> (\<forall>sg s. clean_at (read_variant_type n e m sg) s) \<and>
   (\<forall>sg s. clean_at (read_struct_type n e m sg) s) \<and> (\<forall>sg s. clean_at (read_dict_type n e m sg) s) \<and>
   (\<forall>sg s. clean_at (read_array_type n e m sg) s) \<and> (\<forall>xs s. clean_at (read_items n e m xs) s) \<and>
   (\<forall>tbl s. clean_at (read_entries n e m tbl) s)"
proof (induction n)
  case 0
  show ?case by (simp add: clean_at_def)
next
  case (Suc n)
  then show ?case
    by (intro conjI allI)
      (auto simp: Let_def intro!: clean_bnd split: prod.split option.split)
qed

lemma clean_read_upto [simp]: "clean_at (read_upto n e m k xs) s"
  by (induction k arbitrary: xs s) (auto intro!: clean_bnd simp: read_clean split: option.split)

lemma clean_get_message: "i < length argv \<Longrightarrow> clean_at (get_message argv i) s"
  by (auto simp: get_message_def intro!: clean_bnd)

lemma clean_get_bus: "i < length argv \<Longrightarrow> clean_at (get_bus argv i) s"
  by (auto simp: get_bus_def intro!: clean_bnd)

lemma clean_wrap_message [simp]: "clean_at (wrap_message msg) s"
  by (auto simp: wrap_message_def new_message_def intro!: clean_bnd)

lemma clean_release_message [simp]: "clean_at (release_message e a) s"
  by (auto simp: release_message_def intro!: clean_bnd)

lemma janet_arity_Inr [simp]:
  "janet_arity argv lo hi s = (Inr u, t) \<longleftrightarrow>
     lo \<le> length argv \<and> (\<forall>h. hi = Some h \<longrightarrow> length argv \<le> h) \<and> t = s"
  by (auto simp: janet_arity_def split: option.splits)

subsection \<open>Appending and sealing through a message object\<close>

lemma append_returns:
  assumes laws: "janet_laws e" and enc: "enc_fields e s ts args cs"
    and app: "cfun_message_append e (JAbstract AbsMessage a # JString (sigs_of ts) # args) s = (Inr v, t)"
  shows "\<exists>w. run_calls e (msgs s a) cs (ext s) = (Inr (), w) \<and> ext t = w \<and> msgs t = msgs s"
proof -
  obtain c where c: "janet_getcbytes e (JString (sigs_of ts)) = Inr c"
    using app by (auto simp: cfun_message_append_def bnd_eq_Inr janet_getcstring_def get_message_apply)
  then have "c = sigs_of ts" "NUL \<notin> set c" using laws by (auto simp: janet_laws_def)
  then obtain b s0 where s0: "janet_cstring (sigs_of ts) s = (Inr b, s0)"
    "append_data e (msgs s a) b args s0 = (Inr (), t)"
    using app c by (auto simp: cfun_message_append_def bnd_eq_Inr janet_getcstring_def
        get_message_apply janet_arity_def split: if_splits)
  have at: "points_to s0 b (sigs_of ts)" "mem_ext s s0"
    using janet_cstring_points_to [OF s0(1)] \<open>c = sigs_of ts\<close> \<open>NUL \<notin> set c\<close> by simp_all
  have same: "files s0 = files s" "streams s0 = streams s" "ext s0 = ext s" "msgs s0 = msgs s"
    using s0(1) by (auto simp: janet_cstring_def alloc_bytes_def)
  have "conv e s0 = conv e s" by (rule conv_same) (simp_all add: same)
  then have "enc_fields e s0 ts args cs" using enc_fields_conv [of e s s0] enc by simp
  from append_data_run [OF laws this at(1), of "msgs s a"] s0(2) show ?thesis
    by (auto simp: runs_as_def arg_frame_def same split: sum.splits intro: prod_eqI)
qed

lemma seal_returns:
  "cfun_message_seal e [JAbstract AbsMessage a] s = (Inr v, t) \<Longrightarrow>
     0 \<le> fst (sd_seal e (msgs s a) (ext s)) \<and> ext t = snd (sd_seal e (msgs s a) (ext s)) \<and> msgs t = msgs s"
  by (auto simp: cfun_message_seal_def bnd_eq_Inr get_message_apply Let_def split: prod.splits if_splits)

text \<open>Messages are handles: \<open>message-unref\<close> and the finalizer release the same pointer.\<close>

interpretation message_handle: handle msgs "release_message e" for e
proof
  show "release_message e a s = (Inr (), t) \<Longrightarrow> msgs t a = None" for a s t
    by (auto simp: release_message_def bnd_eq_Inr)
  show "\<exists>w. release_message e a s = (Inr (), s\<lparr>ext := w\<rparr>)" if "msgs s a = None" for a s
  proof -
    have "(msgs s)(a := None) = msgs s" using that by (simp add: fun_upd_idem)
    then show ?thesis
      using that by (intro exI [of _ "snd (sd_message_unref e None (ext s))"]) (simp add: release_message_def bnd_apply)
  qed
qed simp

text \<open>After the first release, any further one only talks to the outside world.\<close>

lemma unref_again:
  assumes "cfun_message_unref e [JAbstract AbsMessage a] s = (Inr JNil, t)"
  shows "\<exists>w. repeat n (release_message e a) t = (Inr (), t\<lparr>ext := w\<rparr>)"
    "\<exists>w. gc_sdbus_message e a t = (Inr 0, t\<lparr>ext := w\<rparr>)"
proof -
  have rel: "release_message e a s = (Inr (), t)"
    using assms by (auto simp: cfun_message_unref_def bnd_apply split: sum.splits prod.splits)
  show "\<exists>w. repeat n (release_message e a) t = (Inr (), t\<lparr>ext := w\<rparr>)"
    by (rule message_handle.released_again [OF rel])
  obtain w where "release_message e a t = (Inr (), t\<lparr>ext := w\<rparr>)"
    using message_handle.harmless [OF message_handle.cleared [OF rel]] by blast
  then show "\<exists>w. gc_sdbus_message e a t = (Inr 0, t\<lparr>ext := w\<rparr>)" by (auto simp: gc_sdbus_message_def bnd_apply)
qed

end
