(* ===== verification/Message_Claims.thy ===== *)
theory Message_Claims
  imports Append_Claims Round_Trip Message_Spec
begin

text \<open>
  The properties of the message functions of \<open>src/message.c\<close>: reading, the way from
  \<open>message-append\<close> to \<open>message-read\<close>, and the safety of the whole module. The examples use a
  message that keeps the levels under construction and what is left to read.
\<close>

type_synonym item_world = "level list \<times> item list list"

definition take_basic ::
  "(basic \<Rightarrow> 'a option) \<Rightarrow> 'a \<Rightarrow> item_world \<Rightarrow> (int \<times> 'a) \<times> item_world" where
  "take_basic pick dflt = (\<lambda>(b, v). case v of
      (IBasic x # xs) # st \<Rightarrow> (case pick x of
          Some y \<Rightarrow> ((1, y), (b, xs # st))
        | None \<Rightarrow> ((- 6, dflt), (b, v)))
    | _ \<Rightarrow> ((- 6, dflt), (b, v)))"

definition item_env :: "item_world env" where
  "item_env = base_env\<lparr>
     sd_write := \<lambda>_ c (b, v). (0, (write_level c b, v)),
     sd_seal := \<lambda>_ (b, v). (case b of [(k, sg, xs)] \<Rightarrow> (0, (b, [xs])) | _ \<Rightarrow> (- 22, (b, v))),
     sd_rewind := \<lambda>_ (b, v). (case b of [(k, sg, xs)] \<Rightarrow> (1, (b, [xs])) | _ \<Rightarrow> (- 1, (b, v))),
     sd_peek_type := \<lambda>_ (b, v). (case v of
         (IBasic x # _) # _ \<Rightarrow> (1, basic_code x, '''')
       | (ICont k sg _ # _) # _ \<Rightarrow> (1, k, sg)
       | _ \<Rightarrow> (0, NUL, '''')),
     sd_enter_container := \<lambda>_ k sg (b, v). (case v of
         (ICont k' sg' ys # xs) # st \<Rightarrow>
           if k = k' \<and> sg = sg' then (1, (b, ys # xs # st)) else (- 6, (b, v))
       | _ \<Rightarrow> (- 6, (b, v))),
     sd_exit_container := \<lambda>_ (b, v). (case v of
         [] # xs # st \<Rightarrow> (1, (b, xs # st)) | _ \<Rightarrow> (- 16, (b, v))),
     sd_read_b := \<lambda>_. take_basic (\<lambda>x. case x of Boolean y \<Rightarrow> Some y | _ \<Rightarrow> None) False,
     sd_read_y := \<lambda>_. take_basic (\<lambda>x. case x of Byte y \<Rightarrow> Some y | _ \<Rightarrow> None) 0,
     sd_read_n := \<lambda>_. take_basic (\<lambda>x. case x of Int16 y \<Rightarrow> Some y | _ \<Rightarrow> None) 0,
     sd_read_q := \<lambda>_. take_basic (\<lambda>x. case x of Uint16 y \<Rightarrow> Some y | _ \<Rightarrow> None) 0,
     sd_read_i := \<lambda>_. take_basic (\<lambda>x. case x of Int32 y \<Rightarrow> Some y | _ \<Rightarrow> None) 0,
     sd_read_u := \<lambda>_. take_basic (\<lambda>x. case x of Uint32 y \<Rightarrow> Some y | _ \<Rightarrow> None) 0,
     sd_read_x := \<lambda>_. take_basic (\<lambda>x. case x of Int64 y \<Rightarrow> Some y | _ \<Rightarrow> None) 0,
     sd_read_t := \<lambda>_. take_basic (\<lambda>x. case x of Uint64 y \<Rightarrow> Some y | _ \<Rightarrow> None) 0,
     sd_read_d := \<lambda>_. take_basic (\<lambda>x. case x of Double y \<Rightarrow> Some y | _ \<Rightarrow> None) (Fin 0),
     sd_read_str := \<lambda>_ c. take_basic (\<lambda>x. case x of
         Str c' y \<Rightarrow> if c = c' then Some y else None | _ \<Rightarrow> None) '''',
     sd_read_h := \<lambda>_. take_basic (\<lambda>x. case x of Fd y \<Rightarrow> Some y | _ \<Rightarrow> None) 0\<rparr>"

lemma take_basic_reads:
  "(\<And>x. pick (mk x) = Some x) \<Longrightarrow> reads_as snd (take_basic pick dflt) mk"
  by (auto simp: reads_as_def take_basic_def)

lemma item_env_laws:
  "janet_laws item_env" "reader_laws item_env m snd" "writer_laws item_env m fst snd"
proof -
  show "janet_laws item_env"
    by (rule janet_laws_part [OF _ base_env_laws]) (simp add: janet_part_def item_env_def)
  show "reader_laws item_env m snd"
    unfolding reader_laws_def item_env_def by (auto intro!: take_basic_reads)
  show "writer_laws item_env m fst snd"
    unfolding writer_laws_def item_env_def by auto
qed

lemma item_env_rewind [simp]: "sd_rewind item_env m ([(k, sg, xs)], v) = (1, ([(k, sg, xs)], [xs]))"
  by (simp add: item_env_def)

lemma base_world_simps [simp]:
  "ext (base_world w) = w" "(base_world w)\<lparr>ext := w'\<rparr> = base_world w'" "msgs (base_world w) a = None"
  by (simp_all add: base_world_def)

subsection \<open>Reading\<close>

text \<open>C9: \<open>read_complete_type\<close> returns the Janet value of the next item of the message, whatever
  its nesting, leaves the cursor right behind the item and the rest of the state alone; at the
  end of the message or container it returns nothing and moves nothing. The fuel needed is
  linear in the size of the item.\<close>

theorem read_complete_type_correct:
  assumes "reader_laws e m view"
  shows "(view (ext s) = (x # xs) # st \<and> dec e x = Some v \<longrightarrow>
      (\<forall>n \<ge> cost x. \<exists>w. read_complete_type n e m s = (Inr (Some v), s\<lparr>ext := w\<rparr>) \<and> view w = xs # st))
    \<and> (view (ext s) = [] # st \<longrightarrow> (\<forall>n \<ge> 1. read_complete_type n e m s = (Inr None, s)))"
proof (intro conjI impI allI)
  fix n assume "view (ext s) = (x # xs) # st \<and> dec e x = Some v" "cost x \<le> n"
  then show "\<exists>w. read_complete_type n e m s = (Inr (Some v), s\<lparr>ext := w\<rparr>) \<and> view w = xs # st"
    using read_consumes(1) [OF assms, of x v n s xs st] by (simp add: consumes_def)
next
  fix n :: nat assume "view (ext s) = [] # st" "1 \<le> n"
  then show "read_complete_type n e m s = (Inr None, s)"
    using read_complete_end [OF assms, of s st "n - 1"] by simp
qed

definition ex_item :: item where
  "ex_item = ICont (CHR ''a'') ''{sv}'' [ICont (CHR ''e'') ''sv'' [IBasic (Str (CHR ''s'') ''k''),
     ICont (CHR ''v'') ''u'' [IBasic (Uint32 7)]]]"

definition ex_value :: janet where
  "ex_value = JTable [(JString ''k'', JTuple [JString ''u'', JNumber (Fin 7)])]"

lemma ex_item_dec: "dec item_env ex_item = Some ex_value" "cost ex_item = 18"
  by (simp_all add: ex_item_def ex_value_def item_env_def base_env_def first_char_def)

theorem read_complete_type_correct_witness:
  "\<exists>w. read_complete_type 18 item_env (Some 1) (base_world ([], [[ex_item, IBasic (Boolean True)]]))
     = (Inr (Some ex_value), base_world w) \<and> snd w = [[IBasic (Boolean True)]]"
  using read_complete_type_correct [OF item_env_laws(2), of
      "base_world ([], [[ex_item, IBasic (Boolean True)]])" ex_item "[IBasic (Boolean True)]" "[]" ex_value]
  by (auto simp: ex_item_dec)

text \<open>C14: \<open>message-read\<close> with \<open>:rest\<close> reads everything from the cursor to the end of the open
  container and with \<open>:all\<close> everything from the beginning of the message: it returns nil for
  no value, the value itself for one and an array of the values otherwise.\<close>

theorem message_read_rest_all:
  assumes "reader_laws e (msgs s a) view" and "dec_list e xs = Some vs" and "costs xs + 2 \<le> n"
    and "kw = ''rest'' \<and> view (ext s) = xs # st
      \<or> kw = ''all'' \<and> (\<exists>rv w. sd_rewind e (msgs s a) (ext s) = (rv, w) \<and> 0 \<le> rv \<and> view w = xs # st)"
  shows "\<exists>w. cfun_message_read n e [JAbstract AbsMessage a, JKeyword kw] s
      = (Inr (case vs of [] \<Rightarrow> JNil | [v] \<Rightarrow> v | _ \<Rightarrow> JArray vs), s\<lparr>ext := w\<rparr>) \<and> view w = [] # st"
proof -
  have res: "read_result vs = (case vs of [] \<Rightarrow> JNil | [v] \<Rightarrow> v | _ \<Rightarrow> JArray vs)"
    by (auto simp: read_result_def split: list.splits)
  have rd: "\<exists>w'. bnd (read_items n e (msgs s a) []) (\<lambda>array. ret (read_result array)) (s\<lparr>ext := w\<rparr>)
      = (Inr (read_result vs), s\<lparr>ext := w'\<rparr>) \<and> view w' = [] # st" if "view w = xs # st" for w
    using read_consumes(2) [OF assms(1-3), of "s\<lparr>ext := w\<rparr>" st "[]"] that
    by (auto simp: consumes_def bnd_apply)
  from assms(4) show ?thesis
  proof (elim disjE conjE exE)
    assume kw: "kw = ''rest''" "view (ext s) = xs # st"
    then show ?thesis
      using rd [of "ext s"] message_read_keyword [of kw n e a s] by (simp add: res)
  next
    fix rv w assume kw: "kw = ''all''" "sd_rewind e (msgs s a) (ext s) = (rv, w)" "0 \<le> rv" "view w = xs # st"
    then show ?thesis
      using rd [of w] message_read_keyword [of kw n e a s] by (simp add: res bnd_apply bnd_assoc)
  qed
qed

theorem message_read_rest_all_witness:
  "\<exists>w. cfun_message_read 21 item_env [JAbstract AbsMessage 5, JKeyword ''all'']
      (base_world ([(NUL, '''', [ex_item])], [[]])) = (Inr ex_value, base_world w)"
  using message_read_rest_all [OF item_env_laws(2), of "[ex_item]" "[ex_value]" 21 "''all''"
      "base_world ([(NUL, '''', [ex_item])], [[]])" "[]" 5]
  by (auto simp: ex_item_dec)

text \<open>C29: \<open>message-read\<close> with a count reads that many values, fewer if the message ends before,
  and exactly one without a count; what follows is left for the next call.\<close>

theorem message_read_counted:
  assumes "janet_laws e" and "reader_laws e (msgs s a) view" and "counts e rest k"
    and "dec_list e xs = Some vs" and "costs xs < n" and "view (ext s) = xs # st"
  shows "\<exists>w. cfun_message_read n e (JAbstract AbsMessage a # rest) s
      = (Inr (case take k vs of [] \<Rightarrow> JNil | [v] \<Rightarrow> v | us \<Rightarrow> JArray us), s\<lparr>ext := w\<rparr>)
    \<and> view w = drop k xs # st"
proof -
  have res: "read_result us = (case us of [] \<Rightarrow> JNil | [v] \<Rightarrow> v | us \<Rightarrow> JArray us)" for us
    by (auto simp: read_result_def split: list.splits)
  show ?thesis
    using read_upto_consumes [OF assms(2,4,5,6), of k "[]"] message_read_count [OF assms(1,3)]
    by (auto simp: consumes_def bnd_apply res)
qed

theorem message_read_counted_witness:
  "\<exists>w. cfun_message_read 30 item_env [JAbstract AbsMessage 5]
      (base_world ([], [[ex_item, IBasic (Boolean True)]])) = (Inr ex_value, base_world w)
    \<and> snd w = [[IBasic (Boolean True)]]"
  using message_read_counted [OF item_env_laws(1) item_env_laws(2), of "[]" 1 "[ex_item, IBasic (Boolean True)]"
      "[ex_value, JBoolean True]" 30 "base_world ([], [[ex_item, IBasic (Boolean True)]])" "[]" 5]
  by (auto simp: ex_item_dec counts_def)

subsection \<open>From append to read\<close>

text \<open>C2: What \<open>message-append\<close> writes, \<open>message-read\<close> reads back once the message is sealed: if
  both calls return, reading the rest of the message gives the appended values, 64-bit integers
  boxed, structures as tuples, arrays and byte strings as arrays and dictionaries as tables.
  (The values must not hold file descriptors, which are duplicated on both ways.)\<close>

theorem message_round_trip:
  assumes laws: "janet_laws e" "writer_laws e (msgs s a) built view" "reader_laws e (msgs s a) view"
    and enc: "enc_fields e s ts args cs" "no_fd cs"
    and new: "built (ext s) = [(k, sg, [])]"
    and app: "cfun_message_append e (JAbstract AbsMessage a # JString (sigs_of ts) # args) s = (Inr JNil, s1)"
    and seal: "cfun_message_seal e [JAbstract AbsMessage a] s1 = (Inr JNil, s2)"
  shows "\<exists>vs n0. back_fields e s ts args vs \<and> (\<forall>n \<ge> n0. \<exists>s3.
     cfun_message_read n e [JAbstract AbsMessage a, JKeyword ''rest''] s2 = (Inr (read_result vs), s3))"
proof -
  obtain xs vs where xs: "writes cs xs" "dec_list e xs = Some vs" "back_fields e s ts args vs"
    using enc_round_trip(2) [OF laws(1) enc] by blast
  obtain w where run: "run_calls e (msgs s a) cs (ext s) = (Inr (), w)" and s1: "ext s1 = w" "msgs s1 = msgs s"
    using append_returns [OF laws(1) enc(1) app] by blast
  have "built (ext s1) = [(k, sg, xs)]"
    using writes_built [OF laws(2) xs(1) run new] s1 by simp
  then have s2: "view (ext s2) = [xs]" "msgs s2 = msgs s"
    using seal_returns [OF seal] laws(2) s1 by (auto simp: writer_laws_def)
  have "\<exists>s3. cfun_message_read n e [JAbstract AbsMessage a, JKeyword ''rest''] s2 = (Inr (read_result vs), s3)"
    if "costs xs + 2 \<le> n" for n
    using read_consumes(2) [OF laws(3) xs(2) that, of s2 "[]" "[]"] s2
      message_read_keyword [of "''rest''" n e a s2]
    by (auto simp: consumes_def bnd_apply)
  then show ?thesis using xs(3) by blast
qed

text \<open>A message under construction with nothing in it, and the arguments of a call that appends to it.\<close>

definition new_message_world :: "item_world world" where
  "new_message_world = base_world ([(NUL, '''', [])], [[]])"

definition us_types :: "ty list" where
  "us_types = [TBasic (CHR ''u''), TBasic (CHR ''s'')]"

definition us_append :: "(panic + janet) \<times> item_world world" where
  "us_append = cfun_message_append item_env
     (JAbstract AbsMessage 5 # JString (sigs_of us_types) # [JNumber (Fin 7), JString ''x'']) new_message_world"

definition us_seal :: "(panic + janet) \<times> item_world world" where
  "us_seal = cfun_message_seal item_env [JAbstract AbsMessage 5] (snd us_append)"

lemma us_runs: "us_append = (Inr JNil, snd us_append)" "us_seal = (Inr JNil, snd us_seal)"
proof -
  have "fst us_append = Inr JNil" "fst us_seal = Inr JNil" by code_simp+
  then show "us_append = (Inr JNil, snd us_append)" "us_seal = (Inr JNil, snd us_seal)"
    by (metis prod.collapse)+
qed

lemma us_enc: "enc_fields item_env s us_types [JNumber (Fin 7), JString ''x'']
   [AppendBasic (Uint32 7), AppendBasic (Str (CHR ''s'') ''x'')]"
proof -
  note conv = conv_def ranged_def int_in_def int_value_def item_env_def base_env_def cbytes_def
    basic_codes_def NUL_def
  have us: "enc item_env s (TBasic (CHR ''u'')) (JNumber (Fin 7)) [AppendBasic (Uint32 7)]"
    "enc item_env s (TBasic (CHR ''s'')) (JString ''x'') [AppendBasic (Str (CHR ''s'') ''x'')]"
    by (rule basic, simp_all add: conv)+
  show ?thesis
    using fields_Cons [OF _ us(1) fields_Cons [OF _ us(2) fields_Nil]]
    by (simp add: us_types_def basic_codes_def)
qed

lemma us_back: "back_fields e s us_types vs us \<Longrightarrow> us = vs"
  unfolding us_types_def by (auto elim!: back_fieldsE comes_back_basicE)

theorem message_round_trip_witness:
  "\<exists>n. fst (cfun_message_read n item_env [JAbstract AbsMessage 5, JKeyword ''rest''] (snd us_seal))
     = Inr (JArray [JNumber (Fin 7), JString ''x''])"
proof -
  obtain vs n0 where vs: "back_fields item_env new_message_world us_types [JNumber (Fin 7), JString ''x''] vs"
    and rd: "\<forall>n \<ge> n0. \<exists>s3. cfun_message_read n item_env [JAbstract AbsMessage 5, JKeyword ''rest''] (snd us_seal)
       = (Inr (read_result vs), s3)"
    using message_round_trip [OF item_env_laws(1) item_env_laws(3) item_env_laws(2) us_enc _ _
        us_runs(1) [unfolded us_append_def] us_runs(2) [unfolded us_seal_def us_append_def]]
    by (auto simp: new_message_world_def us_append_def us_seal_def)
  have "read_result vs = JArray [JNumber (Fin 7), JString ''x'']"
    using us_back [OF vs] by (simp add: read_result_def)
  then show ?thesis using rd [rule_format, OF order_refl] by (metis fst_conv)
qed

subsection \<open>The module as a whole\<close>

text \<open>
  The two functions that need something of their arguments: \<open>message-append\<close> is given a signature of
  complete types, with the condition on the keys of dictionaries below the top level under which
  \<open>append_data\<close> is safe, and the message has the header field that is asked for.
\<close>

definition appendable :: "'w env \<Rightarrow> janet list \<Rightarrow> 'w world \<Rightarrow> bool" where
  "appendable e argv s \<longleftrightarrow> (\<forall>a sg args. argv = JAbstract AbsMessage a # JString sg # args \<longrightarrow>
     (\<exists>ts. sg = sigs_of ts \<and> (\<forall>t \<in> set ts. wf_ty t) \<and>
        (\<forall>x \<in> set (zip ts args). keyed e (conv e s) False (fst x) (snd x))))"

definition has_field :: "(ptr \<Rightarrow> 'w \<Rightarrow> string option) \<Rightarrow> janet list \<Rightarrow> 'w world \<Rightarrow> bool" where
  "has_field get argv s \<longleftrightarrow> (\<forall>a. argv = [JAbstract AbsMessage a] \<longrightarrow> get (msgs s a) (ext s) \<noteq> None)"

lemma clean_append:
  assumes laws: "janet_laws e" "variant_law e" and ok: "appendable e argv s"
  shows "clean_at (cfun_message_append e argv) s"
  unfolding cfun_message_append_def
proof (rule clean_bnd, simp)
  fix u t assume "janet_arity argv 3 None s = (Inr u, t)"
  then have t: "t = s" "3 \<le> length argv" by simp_all
  show "clean_at (bnd (get_message argv 0) (\<lambda>msg. bnd (janet_getcstring e argv 1) (\<lambda>str.
      bnd (janet_cstring str) (\<lambda>signature. bnd (append_data e msg signature (drop 2 argv)) (\<lambda>_. ret JNil))))) t"
    unfolding t(1)
  proof (rule clean_bnd)
    show "clean_at (get_message argv 0) s" using t(2) by (intro clean_get_message) linarith
  next
    fix msg s1 assume "get_message argv 0 s = (Inr msg, s1)"
    then obtain a where a: "argv ! 0 = JAbstract AbsMessage a" "s1 = s" using t(2)
      by (auto simp: get_message_def bnd_eq_Inr janet_getabstract_eq)
    show "clean_at (bnd (janet_getcstring e argv 1) (\<lambda>str. bnd (janet_cstring str) (\<lambda>signature.
        bnd (append_data e msg signature (drop 2 argv)) (\<lambda>_. ret JNil)))) s1"
      unfolding a(2)
    proof (rule clean_bnd)
      show "clean_at (janet_getcstring e argv 1) s" using t(2) by (intro clean_getcstring [OF laws(1)]) linarith
    next
      fix str s2 assume "janet_getcstring e argv 1 s = (Inr str, s2)"
      then obtain sg where sg: "argv ! 1 = JString sg" "janet_getcbytes e (JString sg) = Inr str" "s2 = s" using t(2)
        by (auto simp: bnd_eq_Inr janet_getcstring_def argument_def split: janet.splits if_splits)
      then have str: "str = sg" using laws(1) by (simp add: janet_laws_def)
      moreover have "NUL \<notin> set str" using sg(2) laws(1) unfolding janet_laws_def by blast
      ultimately have nul: "NUL \<notin> set sg" by simp
      have argv: "argv = JAbstract AbsMessage a # JString sg # drop 2 argv"
        using t(2) a(1) sg(1) by (cases argv; cases "tl argv") (auto simp: numeral_eq_Suc)
      obtain ts where ts: "sg = sigs_of ts" "\<forall>t \<in> set ts. wf_ty t"
        "\<forall>x \<in> set (zip ts (drop 2 argv)). keyed e (conv e s) False (fst x) (snd x)"
        using ok argv unfolding appendable_def by blast
      show "clean_at (bnd (janet_cstring str) (\<lambda>signature.
          bnd (append_data e msg signature (drop 2 argv)) (\<lambda>_. ret JNil))) s2"
        unfolding sg(3)
      proof (rule clean_bnd)
        show "clean_at (janet_cstring str) s" by (simp add: clean_at_def janet_cstring_def alloc_bytes_def)
      next
        fix b s3 assume b: "janet_cstring str s = (Inr b, s3)"
        have at: "points_to s3 b (sigs_of ts)" using janet_cstring_points_to [OF b] str nul ts(1) by simp
        have "files s3 = files s" "streams s3 = streams s"
          using b by (auto simp: janet_cstring_def alloc_bytes_def)
        then have conv: "conv e s3 = conv e s" by (rule conv_same)
        have "clean_at (append_data e msg b (drop 2 argv)) s3"
          using append_data_clean [OF laws ts(2) at, where m = msg and args = "drop 2 argv"] ts(3) conv by simp
        then show "clean_at (bnd (append_data e msg b (drop 2 argv)) (\<lambda>_. ret JNil)) s3"
          by (rule clean_bnd) simp
      qed
    qed
  qed
qed

lemma clean_get_field: "has_field get argv s \<Longrightarrow> clean_at (MESSAGE_GET get argv) s"
  by (cases argv) (auto simp: MESSAGE_GET_def has_field_def clean_at_def bnd_apply get_message_def janet_getabstract_def
      argument_def janet_cstringv_def bad_slot_def split: janet.splits option.splits if_splits sum.splits)

text \<open>C13: No call of a message function from Janet, whatever its arguments, runs into undefined
  behaviour, with three exceptions: appending by a string that is not a signature of complete types,
  or with a wrong key below the top level; reading with a keyword that is neither \<open>:all\<close> nor
  \<open>:rest\<close>; and getting a header field that the message does not have.\<close>

theorem message_functions_defined:
  assumes "janet_laws e" and "variant_law e"
  shows "clean_at (cfun_message_new_method_call e argv) s \<and> clean_at (cfun_message_new_method_return e argv) s
    \<and> clean_at (cfun_message_new_signal e argv) s \<and> clean_at (cfun_message_new_method_error e argv) s
    \<and> clean_at (cfun_message_send e argv) s \<and> clean_at (cfun_message_unref e argv) s
    \<and> clean_at (cfun_message_rewind e argv) s \<and> clean_at (cfun_message_seal e argv) s
    \<and> clean_at (cfun_message_dump e argv) s
    \<and> (appendable e argv s \<longrightarrow> clean_at (cfun_message_append e argv) s)
    \<and> ((\<forall>a kw. argv = [a, JKeyword kw] \<longrightarrow> kw \<in> {''all'', ''rest''}) \<longrightarrow> clean_at (cfun_message_read n e argv) s)
    \<and> (has_field (sd_get_destination e) argv s \<longrightarrow> clean_at (cfun_message_get_destination e argv) s)
    \<and> (has_field (sd_get_path e) argv s \<longrightarrow> clean_at (cfun_message_get_path e argv) s)
    \<and> (has_field (sd_get_interface e) argv s \<longrightarrow> clean_at (cfun_message_get_interface e argv) s)
    \<and> (has_field (sd_get_member e) argv s \<longrightarrow> clean_at (cfun_message_get_member e argv) s)
    \<and> (has_field (sd_get_sender e) argv s \<longrightarrow> clean_at (cfun_message_get_sender e argv) s)"
  using clean_getcstring [OF assms(1)] clean_optinteger [OF assms(1)]
  by (intro conjI impI clean_append [OF assms])
    (auto simp: cfun_message_new_method_call_def cfun_message_new_method_return_def
      cfun_message_new_signal_def cfun_message_new_method_error_def cfun_message_send_def
      cfun_message_unref_def cfun_message_rewind_def cfun_message_seal_def cfun_message_dump_def
      cfun_message_read_def read_clean cfun_message_get_destination_def cfun_message_get_path_def
      cfun_message_get_interface_def cfun_message_get_member_def cfun_message_get_sender_def
      intro!: clean_bnd clean_get_message clean_get_bus clean_getabstract clean_get_field
      split: list.split janet.split if_splits)

theorem message_functions_defined_witness:
  "clean_at (cfun_message_read 1 strict_env [JNil, JBoolean True]) (base_world [])
   \<and> clean_at (cfun_message_append strict_env [JAbstract AbsMessage 5, JString ''i'', JNil]) (base_world [])"
proof -
  have "appendable strict_env [JAbstract AbsMessage 5, JString ''i'', JNil] (base_world [])"
    unfolding appendable_def
    by (auto intro!: exI [of _ "[TBasic (CHR ''i'')]"] simp: basic_codes_def)
  then show ?thesis
    using message_functions_defined [OF strict_env_laws, of "[JNil, JBoolean True]" "base_world []" 1]
      message_functions_defined [OF strict_env_laws, of "[JAbstract AbsMessage 5, JString ''i'', JNil]" "base_world []" 1]
    by simp
qed

text \<open>A header field that the message has is returned as a string; for one that it does not
  have, which sd-bus reports as a null pointer, the program reads the string at that pointer.\<close>

lemma message_header_fields:
  assumes "f = cfun_message_get_destination e \<and> get = sd_get_destination e
    \<or> f = cfun_message_get_path e \<and> get = sd_get_path e
    \<or> f = cfun_message_get_interface e \<and> get = sd_get_interface e
    \<or> f = cfun_message_get_member e \<and> get = sd_get_member e
    \<or> f = cfun_message_get_sender e \<and> get = sd_get_sender e"
  shows "f [JAbstract AbsMessage a] s = (case get (msgs s a) (ext s) of
      Some field \<Rightarrow> (Inr (JString field), s)
    | None \<Rightarrow> (Inl (UB NullDeref), s))"
  using assms
  by (auto simp: cfun_message_get_destination_def cfun_message_get_path_def cfun_message_get_interface_def
      cfun_message_get_member_def cfun_message_get_sender_def MESSAGE_GET_def bnd_apply
      get_message_apply janet_cstringv_def split: option.split)

text \<open>\<open>message-read\<close> with any other keyword is undefined: it passes the keyword's bytes to
  \<open>janet_panicf\<close> where the format takes a Janet value. A negative count panics. In both cases the
  message stays as it was.\<close>

lemma message_read_rejects:
  "(kw \<notin> {''all'', ''rest''} \<longrightarrow>
     cfun_message_read n e [JAbstract AbsMessage a, JKeyword kw] s = (Inl (UB BadVararg), s)) \<and>
   (janet_laws e \<and> i < 0 \<and> - 2147483648 \<le> i \<longrightarrow>
     cfun_message_read n e [JAbstract AbsMessage a, JNumber (Fin (of_int i))] s
       = (Inl (Panicf ''expected positive integer argument'' []), s))"
proof (intro conjI impI)
  assume "kw \<notin> {''all'', ''rest''}"
  then show "cfun_message_read n e [JAbstract AbsMessage a, JKeyword kw] s = (Inl (UB BadVararg), s)"
    by (simp add: cfun_message_read_def janet_arity_def bnd_apply get_message_apply)
next
  assume i: "janet_laws e \<and> i < 0 \<and> - 2147483648 \<le> i"
  then have "janet_checkint e (JNumber (Fin (of_int i)))"
    by (simp add: janet_laws_def int_in_def)
  moreover have "cast_number (- 2147483648) 2147483647 (JNumber (Fin (of_int i))) s = (Inr i, s)"
    using i by (simp add: cast_number_int [of "JNumber (Fin (of_int i))" i])
  ultimately show "cfun_message_read n e [JAbstract AbsMessage a, JNumber (Fin (of_int i))] s
       = (Inl (Panicf ''expected positive integer argument'' []), s)"
    using i by (simp add: cfun_message_read_def janet_arity_def bnd_apply get_message_apply
        janet_optinteger_def janet_getinteger_def absent_def)
qed

text \<open>C39: Reading a file descriptor returns a new stream on a duplicate of it. The stream is readable if
  the access mode of the descriptor, the two lowest bits of its flags, is read-only (0) or
  read-write (2), writable if it is write-only (1) or read-write, a socket if its type is
  \<open>SOCK_STREAM\<close> (1), a datagram socket if it is \<open>SOCK_DGRAM\<close> (2), and nothing else. When its flags
  cannot be read, the call panics and no stream holds the duplicate that was already made, which
  stays open.\<close>

theorem read_fd_type_stream:
  assumes "sd_read_h e m (ext s) = ((1, fd), w1)" and "sys_fcntl_dupfd_cloexec e fd w1 = (copy, w2)"
    and "copy \<noteq> - 1" and "sys_fcntl_getfl e copy w2 = (fl, w3)"
    and "sys_getsockopt_type e copy w3 = ((rv, type), w4)"
  shows "(fl = - 1 \<longrightarrow> read_fd_type e m s =
      (Inl (Panicf ''fcntl(F_GETFL) failed for fd=%d: %s'' [PInt copy, PInt (sys_errno e w3)]), s\<lparr>ext := w3\<rparr>))
    \<and> (fl \<noteq> - 1 \<longrightarrow> (\<exists>flags. read_fd_type e m s = (Inr (JAbstract AbsStream (next_id s)),
         s\<lparr>ext := w4, next_id := Suc (next_id s),
           streams := (streams s)(next_id s := \<lparr>s_handle = copy, s_flags = flags\<rparr>)\<rparr>)
      \<and> (StreamReadable \<in> flags \<longleftrightarrow> fl mod 4 = 0 \<or> fl mod 4 = 2)
      \<and> (StreamWritable \<in> flags \<longleftrightarrow> fl mod 4 = 1 \<or> fl mod 4 = 2)
      \<and> (StreamSocket \<in> flags \<longleftrightarrow> rv = 0 \<and> type = 1)
      \<and> (StreamUdpserver \<in> flags \<longleftrightarrow> rv = 0 \<and> type = 2)
      \<and> flags \<subseteq> {StreamReadable, StreamWritable, StreamSocket, StreamUdpserver}))"
proof (intro conjI impI)
  assume "fl = - 1"
  then show "read_fd_type e m s =
      (Inl (Panicf ''fcntl(F_GETFL) failed for fd=%d: %s'' [PInt copy, PInt (sys_errno e w3)]), s\<lparr>ext := w3\<rparr>)"
    using assms by (simp add: read_fd_type_def CALL_SD_BUS_OUT_def bnd_apply)
next
  assume fl: "fl \<noteq> - 1"
  have mode: "fl AND O_ACCMODE = fl mod 4"
    using take_bit_eq_mask [of 2 fl] by (simp add: O_ACCMODE_def take_bit_eq_mod mask_eq_exp_minus_1)
  have run: "read_fd_type e m s = (Inr (JAbstract AbsStream (next_id s)), s\<lparr>ext := w4, next_id := Suc (next_id s),
      streams := (streams s)(next_id s := \<lparr>s_handle = copy, s_flags = mode_flags fl \<union> socket_flags (rv, type)\<rparr>)\<rparr>)"
    using assms fl by (simp add: read_fd_type_def CALL_SD_BUS_OUT_def bnd_apply janet_stream_def fresh_def)
  show "\<exists>flags. read_fd_type e m s = (Inr (JAbstract AbsStream (next_id s)),
         s\<lparr>ext := w4, next_id := Suc (next_id s),
           streams := (streams s)(next_id s := \<lparr>s_handle = copy, s_flags = flags\<rparr>)\<rparr>)
      \<and> (StreamReadable \<in> flags \<longleftrightarrow> fl mod 4 = 0 \<or> fl mod 4 = 2)
      \<and> (StreamWritable \<in> flags \<longleftrightarrow> fl mod 4 = 1 \<or> fl mod 4 = 2)
      \<and> (StreamSocket \<in> flags \<longleftrightarrow> rv = 0 \<and> type = 1)
      \<and> (StreamUdpserver \<in> flags \<longleftrightarrow> rv = 0 \<and> type = 2)
      \<and> flags \<subseteq> {StreamReadable, StreamWritable, StreamSocket, StreamUdpserver}"
    by (rule exI, rule conjI, rule run)
      (auto simp: mode_flags_def socket_flags_def mode Let_def O_RDONLY_def O_WRONLY_def O_RDWR_def SOCK_STREAM_def SOCK_DGRAM_def
        split: if_splits)
qed

theorem read_fd_type_stream_witness:
  "\<exists>t. read_fd_type base_env (Some 1) (base_world ()) = (Inr (JAbstract AbsStream 0), t)
     \<and> StreamReadable \<in> s_flags (streams t 0) \<and> StreamWritable \<in> s_flags (streams t 0)
     \<and> StreamSocket \<notin> s_flags (streams t 0)"
  using read_fd_type_stream [of base_env "Some 1" "base_world ()" 3 "()" 4 "()" 2 "()" "- 1" 0 "()"]
  by (auto simp: base_env_def base_world_def)

text \<open>C40: Releasing a message gives back the program's reference once: it clears the pointer, so
  that a second \<open>message-unref\<close> and the collection of the object only release the null pointer,
  which does nothing.\<close>

theorem message_released_once:
  assumes "\<forall>w. sd_message_unref e None w = ((), w)"
  shows "\<exists>t. cfun_message_unref e [JAbstract AbsMessage a] s = (Inr JNil, t)
    \<and> ext t = snd (sd_message_unref e (msgs s a) (ext s)) \<and> msgs t = (msgs s)(a := None)
    \<and> cfun_message_unref e [JAbstract AbsMessage a] t = (Inr JNil, t) \<and> gc_sdbus_message e a t = (Inr 0, t)"
  using assms
  by (simp add: cfun_message_unref_def gc_sdbus_message_def release_message_def bnd_apply)

theorem message_released_once_witness:
  "\<exists>t. cfun_message_unref base_env [JAbstract AbsMessage 5] (base_world ()) = (Inr JNil, t)
    \<and> gc_sdbus_message base_env 5 t = (Inr 0, t)"
  using message_released_once [of base_env 5 "base_world ()"] by (auto simp: base_env_def)

end
