(* ===== verification/Pending.thy ===== *)
theory Pending
  imports World
begin

text \<open>
  The queue of pending asynchronous calls of \<open>src/async.c\<close>: \<open>AsyncPending\<close> records on the heap,
  linked in both directions, with \<open>conn->queue\<close> as the head. The functions take the head as
  the address \<open>c\<close> of the connection whose \<open>queue\<close> field it is. Every access goes through
  \<open>get_pending\<close>, which is undefined for a freed record.
\<close>

definition get_pending :: "nat \<Rightarrow> ('w, pending) prog" where
  "get_pending p = (\<lambda>s. case pend s p of
      None \<Rightarrow> (Inl (UB UseAfterFree), s)
    | Some q \<Rightarrow> (Inr q, s))"

definition put_pending :: "nat \<Rightarrow> (pending \<Rightarrow> pending) \<Rightarrow> ('w, unit) prog" where
  "put_pending p f =
     bnd (get_pending p) (\<lambda>q. upd (\<lambda>s. s\<lparr>pend := (pend s)(p \<mapsto> f q)\<rparr>))"

definition set_queue :: "nat \<Rightarrow> ptr \<Rightarrow> ('w, unit) prog" where
  "set_queue c head = upd (\<lambda>s. s\<lparr>conns := (conns s)(c := (conns s c)\<lparr>cqueue := head\<rparr>)\<rparr>)"

text \<open>
  The links and the kind of a new record are not initialised; nothing reads them before
  \<open>queue_pending\<close> and the caller set them.
\<close>

definition create_async_pending :: "'w env \<Rightarrow> nat \<Rightarrow> ('w, nat) prog" where
  "create_async_pending e ch =
     bnd (janet_malloc e) (\<lambda>_.
     bnd fresh (\<lambda>p.
     bnd new_slot (\<lambda>slot.
     bnd (upd (\<lambda>s. s\<lparr>pend := (pend s)(p \<mapsto>
            \<lparr>pslot = Some slot, pchan = ch, pnext = None, pprev = None, pkind = Call\<rparr>)\<rparr>)) (\<lambda>_.
     ret p))))"

definition queue_pending :: "nat \<Rightarrow> nat \<Rightarrow> ('w, unit) prog" where
  "queue_pending c p =
     bnd (gets (\<lambda>s. cqueue (conns s c))) (\<lambda>head.
     bnd (put_pending p (pprev_update (\<lambda>_. None))) (\<lambda>_.
     bnd (put_pending p (pnext_update (\<lambda>_. head))) (\<lambda>_.
     bnd (case head of
            None \<Rightarrow> ret ()
          | Some h \<Rightarrow> put_pending h (pprev_update (\<lambda>_. Some p))) (\<lambda>_.
     set_queue c (Some p)))))"

definition dequeue_pending :: "nat \<Rightarrow> nat \<Rightarrow> ('w, unit) prog" where
  "dequeue_pending c p =
     bnd (gets (\<lambda>s. cqueue (conns s c))) (\<lambda>head.
     if head = None then ret ()
     else
       bnd (get_pending p) (\<lambda>q.
       bnd (case pprev q of
              Some r \<Rightarrow> put_pending r (pnext_update (\<lambda>_. pnext q))
            | None \<Rightarrow> set_queue c (pnext q)) (\<lambda>_.
       bnd (get_pending p) (\<lambda>q.
       case pnext q of
         Some r \<Rightarrow> put_pending r (pprev_update (\<lambda>_. pprev q))
       | None \<Rightarrow> ret ()))))"

lemma get_pending_apply [simp, comp_simps]: "pend s p = Some q \<Longrightarrow> get_pending p s = (Inr q, s)"
  by (simp add: get_pending_def)

lemma get_pending_freed [simp, comp_simps]:
  "pend s p = None \<Longrightarrow> get_pending p s = (Inl (UB UseAfterFree), s)"
  by (simp add: get_pending_def)

lemma put_pending_apply [simp, comp_simps]:
  "pend s p = Some q \<Longrightarrow> put_pending p f s = (Inr (), s\<lparr>pend := (pend s)(p \<mapsto> f q)\<rparr>)"
  by (simp add: put_pending_def bnd_apply)

lemma put_pending_freed [simp, comp_simps]:
  "pend s p = None \<Longrightarrow> put_pending p f s = (Inl (UB UseAfterFree), s)"
  by (simp add: put_pending_def bnd_apply)

lemma set_queue_apply [simp, comp_simps]:
  "set_queue c head s = (Inr (), s\<lparr>conns := (conns s)(c := (conns s c)\<lparr>cqueue := head\<rparr>)\<rparr>)"
  by (simp add: set_queue_def)

subsection \<open>The list a queue stands for\<close>

text \<open>
  \<open>chain h prev head ps nxt\<close>: from \<open>head\<close>, the records of \<open>ps\<close> are linked one after the other
  in the heap \<open>h\<close>, each pointing back to its predecessor, the first to \<open>prev\<close>, and the last one
  points to \<open>nxt\<close>.
\<close>

fun chain :: "(nat \<Rightarrow> pending option) \<Rightarrow> ptr \<Rightarrow> ptr \<Rightarrow> nat list \<Rightarrow> ptr \<Rightarrow> bool" where
  "chain h prev head [] nxt \<longleftrightarrow> head = nxt"
| "chain h prev head (p # ps) nxt \<longleftrightarrow> head = Some p \<and>
     (case h p of None \<Rightarrow> False | Some q \<Rightarrow> pprev q = prev \<and> chain h (Some p) (pnext q) ps nxt)"

definition last_of :: "ptr \<Rightarrow> nat list \<Rightarrow> ptr" where
  "last_of prev ps = (if ps = [] then prev else Some (last ps))"

definition queue_is :: "nat \<Rightarrow> 'w world \<Rightarrow> nat list \<Rightarrow> bool" where
  "queue_is c s ps \<longleftrightarrow> chain (pend s) None (cqueue (conns s c)) ps None \<and> distinct ps"

lemma chain_cong:
  "(\<And>p. p \<in> set ps \<Longrightarrow> h p = h' p) \<Longrightarrow> chain h prev head ps nxt = chain h' prev head ps nxt"
  by (induction ps arbitrary: prev head) (auto split: option.splits)

lemma chain_upd [simp]: "p \<notin> set ps \<Longrightarrow> chain (h(p := x)) prev head ps nxt = chain h prev head ps nxt"
  by (rule chain_cong) auto

lemma chain_alive: "chain h prev head ps nxt \<Longrightarrow> p \<in> set ps \<Longrightarrow> \<exists>q. h p = Some q"
  by (induction ps arbitrary: prev head) (auto split: option.splits)

lemma chain_append:
  "chain h prev head (ps @ qs) nxt \<longleftrightarrow>
     (\<exists>mid. chain h prev head ps mid \<and> chain h (last_of prev ps) mid qs nxt)"
  by (induction ps arbitrary: prev head) (auto simp: last_of_def split: option.splits)

lemma chain_set_last:
  "chain h prev head ps nxt \<Longrightarrow> distinct ps \<Longrightarrow> ps \<noteq> [] \<Longrightarrow> h (last ps) = Some r \<Longrightarrow>
     chain (h(last ps \<mapsto> r\<lparr>pnext := n\<rparr>)) prev head ps n"
  by (induction ps arbitrary: prev head) (auto split: option.splits if_splits)

lemma chain_set_first:
  "chain h prev (Some p) (p # ps) nxt \<Longrightarrow> p \<notin> set ps \<Longrightarrow> h p = Some r \<Longrightarrow>
     chain (h(p \<mapsto> r\<lparr>pprev := prev'\<rparr>)) prev' (Some p) (p # ps) nxt"
  by auto

lemma chain_Nil_or_Cons: "chain h prev head ps None \<Longrightarrow> ps = [] \<and> head = None \<or> (\<exists>p ps'. ps = p # ps' \<and> head = Some p)"
  by (cases ps) auto

text \<open>\<open>relinks ps s t\<close>: only the links of records of \<open>ps\<close> and the queues have changed.\<close>

definition payload :: "pending \<Rightarrow> ptr \<times> nat \<times> pending_kind" where
  "payload q = (pslot q, pchan q, pkind q)"

definition relinks :: "nat \<Rightarrow> nat set \<Rightarrow> 'w world \<Rightarrow> 'w world \<Rightarrow> bool" where
  "relinks c P s t \<longleftrightarrow>
     t = s\<lparr>pend := pend t, conns := (conns s)(c := (conns s c)\<lparr>cqueue := cqueue (conns t c)\<rparr>)\<rparr> \<and>
     (\<forall>p. map_option payload (pend t p) = map_option payload (pend s p)) \<and> (\<forall>p. p \<notin> P \<longrightarrow> pend t p = pend s p)"

lemma queue_pending_spec:
  assumes q: "queue_is c s ps" and p: "p \<notin> set ps" "pend s p = Some x"
  shows "\<exists>t. queue_pending c p s = (Inr (), t) \<and> queue_is c t (p # ps) \<and> relinks c (set (p # ps)) s t"
proof (cases ps)
  case Nil
  then have "cqueue (conns s c) = None" using q by (simp add: queue_is_def)
  then show ?thesis
    using p Nil
    by (auto simp: queue_pending_def bnd_apply queue_is_def relinks_def payload_def)
next
  case (Cons h hs)
  then have head: "cqueue (conns s c) = Some h" and "h \<noteq> p" "h \<notin> set hs" "p \<notin> set hs"
    using q p by (auto simp: queue_is_def)
  moreover obtain y where "pend s h = Some y" "pprev y = None" "chain (pend s) (Some h) (pnext y) hs None"
    using q Cons by (auto simp: queue_is_def split: option.splits)
  ultimately show ?thesis
    using p q Cons
    by (auto simp: queue_pending_def bnd_apply queue_is_def relinks_def payload_def)
qed

lemma dequeue_pending_spec:
  assumes q: "queue_is c s ps" and p: "p \<in> set ps"
  shows "\<exists>t. dequeue_pending c p s = (Inr (), t) \<and> queue_is c t (remove1 p ps)
    \<and> relinks c (set ps) s t \<and> pend t p = pend s p"
proof -
  obtain xs ys where ps: "ps = xs @ p # ys" and "p \<notin> set xs" using p split_list_first by fastforce
  then have d: "distinct xs" "distinct ys" "p \<notin> set ys" "set xs \<inter> set ys = {}" using q by (auto simp: queue_is_def)
  obtain x where xs: "chain (pend s) None (cqueue (conns s c)) xs (Some p)" and x: "pend s p = Some x"
    "pprev x = last_of None xs" "chain (pend s) (Some p) (pnext x) ys None"
    using q unfolding queue_is_def ps chain_append by (auto split: option.splits)
  have head: "cqueue (conns s c) \<noteq> None" using q p by (cases ps) (auto simp: queue_is_def)
  have rm: "remove1 p ps = xs @ ys" using \<open>p \<notin> set xs\<close> by (simp add: ps remove1_append)
  show ?thesis
  proof (cases "xs = []")
    case True
    show ?thesis
      using chain_Nil_or_Cons [OF x(3)]
    proof (elim disjE exE conjE)
      assume "ys = []" "pnext x = None"
      then show ?thesis
        using True x head d rm xs
        by (auto simp: dequeue_pending_def bnd_apply last_of_def queue_is_def relinks_def)
    next
      fix y ys' assume ys: "ys = y # ys'" "pnext x = Some y"
      then obtain z where z: "pend s y = Some z" using x(3) by (auto split: option.splits)
      have "chain ((pend s)(y \<mapsto> z\<lparr>pprev := None\<rparr>)) None (Some y) (y # ys') None"
        using chain_set_first [of "pend s" "Some p" y ys' None z None] x(3) ys d z by simp
      then show ?thesis
        using True x head d rm z ys
        by (auto simp: dequeue_pending_def bnd_apply last_of_def queue_is_def relinks_def payload_def ps)
    qed
  next
    case False
    then obtain r where r: "pend s (last xs) = Some r" "last xs \<noteq> p"
      using chain_alive [OF xs] \<open>p \<notin> set xs\<close> by (metis last_in_set)
    let ?h = "(pend s)(last xs \<mapsto> r\<lparr>pnext := pnext x\<rparr>)"
    have l: "last xs \<notin> set ys" using d False by (metis disjoint_iff last_in_set)
    have hx: "chain ?h None (cqueue (conns s c)) xs (pnext x)" by (rule chain_set_last [OF xs d(1) False r(1)])
    show ?thesis
      using chain_Nil_or_Cons [OF x(3)]
    proof (elim disjE exE conjE)
      assume ys: "ys = []" "pnext x = None"
      then show ?thesis
        using False x head d rm r hx
        by (auto simp: dequeue_pending_def bnd_apply last_of_def queue_is_def relinks_def payload_def ps)
    next
      fix y ys' assume ys: "ys = y # ys'" "pnext x = Some y"
      then obtain z where z: "pend s y = Some z" using x(3) by (auto split: option.splits)
      have y: "y \<noteq> last xs" "y \<notin> set xs" "y \<noteq> p" using l d ys by auto
      let ?h' = "?h(y \<mapsto> z\<lparr>pprev := Some (last xs)\<rparr>)"
      have "chain ?h' None (cqueue (conns s c)) xs (pnext x)" using hx y(2) by simp
      moreover have "chain ?h' (Some (last xs)) (Some y) (y # ys') None"
        using chain_set_first [of ?h "Some p" y ys' None z "Some (last xs)"] x(3) ys d z y l by simp
      ultimately have "chain ?h' None (cqueue (conns s c)) (xs @ ys) None"
        unfolding chain_append using ys False by (auto simp: last_of_def)
      then show ?thesis
        using False x head d rm r z y ys
        by (auto simp: dequeue_pending_def bnd_apply last_of_def queue_is_def relinks_def payload_def ps)
    qed
  qed
qed

subsection \<open>The interface of the queue\<close>

text \<open>
  What the callers rely on: a record that is alive and not yet in the queue can be put in front,
  a record in the queue can be taken out wherever it is, and both leave every record alive.
\<close>

datatype queue_op = Enq nat | Deq nat

fun run_ops :: "(nat \<Rightarrow> ('s, 'e, unit) comp) \<Rightarrow> (nat \<Rightarrow> ('s, 'e, unit) comp) \<Rightarrow> queue_op list \<Rightarrow>
    ('s, 'e, unit) comp" where
  "run_ops enq deq [] = ret ()"
| "run_ops enq deq (Enq p # ops) = bnd (enq p) (\<lambda>_. run_ops enq deq ops)"
| "run_ops enq deq (Deq p # ops) = bnd (deq p) (\<lambda>_. run_ops enq deq ops)"

fun queue_after :: "nat list \<Rightarrow> queue_op list \<Rightarrow> nat list" where
  "queue_after ps [] = ps"
| "queue_after ps (Enq p # ops) = queue_after (p # ps) ops"
| "queue_after ps (Deq p # ops) = queue_after (remove1 p ps) ops"

text \<open>Each record is queued when it is alive and not queued, and taken out once, while it is queued.\<close>

fun admissible :: "(nat \<Rightarrow> bool) \<Rightarrow> nat list \<Rightarrow> queue_op list \<Rightarrow> bool" where
  "admissible alive ps [] \<longleftrightarrow> True"
| "admissible alive ps (Enq p # ops) \<longleftrightarrow> alive p \<and> p \<notin> set ps \<and> admissible alive (p # ps) ops"
| "admissible alive ps (Deq p # ops) \<longleftrightarrow> p \<in> set ps \<and> admissible alive (remove1 p ps) ops"

locale call_queue =
  fixes rep :: "'s \<Rightarrow> nat list \<Rightarrow> bool"
    and alive :: "'s \<Rightarrow> nat \<Rightarrow> bool"
    and enq :: "nat \<Rightarrow> ('s, 'e, unit) comp"
    and deq :: "nat \<Rightarrow> ('s, 'e, unit) comp"
  assumes enq_law: "rep s ps \<Longrightarrow> p \<notin> set ps \<Longrightarrow> alive s p \<Longrightarrow>
      \<exists>t. enq p s = (Inr (), t) \<and> rep t (p # ps) \<and> alive t = alive s"
    and deq_law: "rep s ps \<Longrightarrow> p \<in> set ps \<Longrightarrow>
      \<exists>t. deq p s = (Inr (), t) \<and> rep t (remove1 p ps) \<and> alive t = alive s"
begin

lemma run_ops_rep:
  "rep s ps \<Longrightarrow> admissible (alive s) ps ops \<Longrightarrow>
     \<exists>t. run_ops enq deq ops s = (Inr (), t) \<and> rep t (queue_after ps ops) \<and> alive t = alive s"
proof (induction ops arbitrary: s ps)
  case Nil
  then show ?case by simp
next
  case (Cons x ops)
  show ?case
  proof (cases x)
    case (Enq p)
    obtain s1 where s1: "enq p s = (Inr (), s1)" "rep s1 (p # ps)" "alive s1 = alive s"
      using enq_law [of s ps p] Cons.prems Enq by auto
    then show ?thesis using Cons.IH [OF s1(2)] Cons.prems(2) Enq by (auto simp: bnd_apply)
  next
    case (Deq p)
    obtain s1 where s1: "deq p s = (Inr (), s1)" "rep s1 (remove1 p ps)" "alive s1 = alive s"
      using deq_law [of s ps p] Cons.prems Deq by auto
    then show ?thesis using Cons.IH [OF s1(2)] Cons.prems(2) Deq by (auto simp: bnd_apply)
  qed
qed

lemma enq_deq_rep:
  assumes "rep s ps" and "p \<notin> set ps" and "alive s p"
  shows "\<exists>t. bnd (enq p) (\<lambda>_. deq p) s = (Inr (), t) \<and> rep t ps"
  using run_ops_rep [OF assms(1), of "[Enq p, Deq p]"] assms(2,3) by (auto simp: bnd_eq_Inr)

end

interpretation pending_queue: call_queue "queue_is c" "\<lambda>s p. pend s p \<noteq> None" "queue_pending c" "dequeue_pending c"
  for c
proof
  fix s :: "'a world" and ps p
  have alive: "(\<lambda>a. pend t a \<noteq> None) = (\<lambda>a. pend s a \<noteq> None)" if "relinks c P s t" for t P
    using that unfolding relinks_def by (metis map_option_is_None)
  show "\<exists>t. queue_pending c p s = (Inr (), t) \<and> queue_is c t (p # ps) \<and>
      (\<lambda>a. pend t a \<noteq> None) = (\<lambda>a. pend s a \<noteq> None)"
    if "queue_is c s ps" "p \<notin> set ps" "pend s p \<noteq> None"
    using queue_pending_spec [of c s ps p] that alive by blast
  show "\<exists>t. dequeue_pending c p s = (Inr (), t) \<and> queue_is c t (remove1 p ps) \<and>
      (\<lambda>a. pend t a \<noteq> None) = (\<lambda>a. pend s a \<noteq> None)"
    if "queue_is c s ps" "p \<in> set ps"
    using dequeue_pending_spec [of c s ps p] that alive by blast
qed

end
