(* ===== verification/Calls.thy ===== *)
theory Calls
  imports Pending Message
begin

text \<open>
  \<open>src/call.c\<close>, the callbacks: what happens when sd-bus delivers the reply of an asynchronous
  call or a message that matches a rule, when a match could not be installed, and when the slot of
  a call or match is destroyed. Their \<open>userdata\<close> is the address of an \<open>AsyncState\<close>. The functions
  that start a call or a match are in \<open>Call_Api\<close>.
\<close>

definition get_async :: "nat \<Rightarrow> ('w, async_state) prog" where
  "get_async a = (\<lambda>s. case asyncs s a of
      None \<Rightarrow> (Inl (UB UseAfterFree), s)
    | Some st \<Rightarrow> (Inr st, s))"

definition FREE_CALL_STATE :: "nat \<Rightarrow> ('w, unit) prog" where
  "FREE_CALL_STATE a =
     bnd (get_async a) (\<lambda>st.
     bnd (get_pending (as_pending st)) (\<lambda>_.
     bnd (upd (\<lambda>s. s\<lparr>pend := (pend s)(as_pending st := None)\<rparr>)) (\<lambda>_.
     upd (\<lambda>s. s\<lparr>asyncs := (asyncs s)(a := None)\<rparr>))))"

definition format_error :: "bus_error \<Rightarrow> string" where
  "format_error err = (case err of
      (name, Some message) \<Rightarrow> ''D-Bus error: '' @ name @ '': '' @ message
    | (name, None) \<Rightarrow> ''D-Bus error: '' @ name)"

text \<open>The error of an error message; \<open>sd_bus_message_get_error\<close> returns null if there is none.\<close>

definition get_error :: "'w env \<Rightarrow> ptr \<Rightarrow> ('w, bus_error) prog" where
  "get_error e msg =
     bnd (gets (\<lambda>s. sd_get_error e msg (ext s))) (\<lambda>err.
     case err of None \<Rightarrow> raise (UB NullDeref) | Some err \<Rightarrow> ret err)"

definition CHAN_PUSH :: "'w env \<Rightarrow> nat \<Rightarrow> string \<Rightarrow> janet \<Rightarrow> ('w, unit) prog" where
  "CHAN_PUSH e ch status x = janet_channel_give e ch (JTuple [JKeyword status, x])"

definition init_callback_state :: "'w env \<Rightarrow> nat \<Rightarrow> nat \<Rightarrow> ('w, nat) prog" where
  "init_callback_state e c ch =
     bnd (create_async_pending e ch) (\<lambda>p.
     bnd (janet_malloc e) (\<lambda>_.
     bnd fresh (\<lambda>a.
     bnd (upd (\<lambda>s. s\<lparr>asyncs := (asyncs s)(a \<mapsto> \<lparr>as_conn = c, as_pending = p\<rparr>)\<rparr>)) (\<lambda>_.
     ret a))))"

definition destroy_call_callback :: "nat \<Rightarrow> ('w, unit) prog" where
  "destroy_call_callback a =
     bnd (get_async a) (\<lambda>st.
     bnd (put_pending (as_pending st) (pslot_update (\<lambda>_. None))) (\<lambda>_.
     bnd (dequeue_pending (as_conn st) (as_pending st)) (\<lambda>_.
     FREE_CALL_STATE a)))"

definition signal_install_handler :: "'w env \<Rightarrow> nat \<Rightarrow> ptr \<Rightarrow> ('w, int \<times> bus_error option) prog" where
  "signal_install_handler e a msg =
     bnd (get_async a) (\<lambda>st.
     bnd (gets (\<lambda>s. sd_is_method_error e msg (ext s))) (\<lambda>failed.
     bnd (if failed \<noteq> 0 then
            bnd (get_error e msg) (\<lambda>err.
            bnd (get_pending (as_pending st)) (\<lambda>q.
            CHAN_PUSH e (pchan q) ''error'' (JString (format_error err))))
          else ret ()) (\<lambda>_.
     ret (0, None))))"

definition message_copy :: "'w env \<Rightarrow> ptr \<Rightarrow> ptr \<Rightarrow> 8 word \<Rightarrow> ('w, ptr) prog" where
  "message_copy e bus msg type =
     bnd (CALL_SD_BUS_OUT ''sd_bus_message_new'' (sd_new e bus type)) (\<lambda>new.
     bnd (CALL_SD_BUS_FUNC ''sd_bus_message_rewind'' (sd_rewind e msg)) (\<lambda>_.
     bnd (CALL_SD_BUS_FUNC ''sd_bus_message_copy'' (sd_copy e new msg)) (\<lambda>_.
     bnd (CALL_SD_BUS_FUNC ''sd_bus_message_rewind'' (sd_rewind e msg)) (\<lambda>_.
     bnd (CALL_SD_BUS_FUNC ''sd_bus_message_seal'' (sd_seal e new)) (\<lambda>_.
     ret new)))))"

definition SD_BUS_MESSAGE_METHOD_CALL :: "8 word" where "SD_BUS_MESSAGE_METHOD_CALL = 1"
definition SD_BUS_MESSAGE_METHOD_RETURN :: "8 word" where "SD_BUS_MESSAGE_METHOD_RETURN = 2"
definition SD_BUS_MESSAGE_METHOD_ERROR :: "8 word" where "SD_BUS_MESSAGE_METHOD_ERROR = 3"
definition SD_BUS_MESSAGE_SIGNAL :: "8 word" where "SD_BUS_MESSAGE_SIGNAL = 4"

text \<open>A message object for Janet that shares the message or holds a copy of it, pushed as \<open>:ok\<close>.\<close>

definition push_message :: "'w env \<Rightarrow> nat \<Rightarrow> ('w, ptr) prog \<Rightarrow> ('w, unit) prog" where
  "push_message e p mk_msg =
     bnd fresh (\<lambda>a.
     bnd mk_msg (\<lambda>msg.
     bnd (upd (\<lambda>s. s\<lparr>msgs := (msgs s)(a := msg)\<rparr>)) (\<lambda>_.
     bnd (get_pending p) (\<lambda>q.
     CHAN_PUSH e (pchan q) ''ok'' (JAbstract AbsMessage a)))))"

definition message_handler :: "'w env \<Rightarrow> nat \<Rightarrow> ptr \<Rightarrow> ('w, int \<times> bus_error option) prog" where
  "message_handler e a reply =
     bnd (get_async a) (\<lambda>st.
     let p = as_pending st in
     bnd (gets (\<lambda>s. sd_get_type e reply (ext s))) (\<lambda>type.
     let dequeue_call = bnd (get_pending p) (\<lambda>q.
           if pkind q = Call then dequeue_pending (as_conn st) p else ret ()) in
     bnd (if type = SD_BUS_MESSAGE_METHOD_RETURN \<or> type = SD_BUS_MESSAGE_METHOD_CALL then
            bnd (if type = SD_BUS_MESSAGE_METHOD_RETURN then dequeue_call else ret ()) (\<lambda>_.
            push_message e p
              (bnd (get_pending p) (\<lambda>q.
               if pkind q = Call then extern (sd_message_ref e reply)
               else bnd (gets (\<lambda>s. cbus (conns s (as_conn st)))) (\<lambda>bus. message_copy e bus reply type))))
          else if type = SD_BUS_MESSAGE_SIGNAL then
            push_message e p (extern (sd_message_ref e reply))
          else if type = SD_BUS_MESSAGE_METHOD_ERROR then
            bnd dequeue_call (\<lambda>_.
            bnd (get_error e reply) (\<lambda>err.
            bnd (get_pending p) (\<lambda>q.
            CHAN_PUSH e (pchan q) ''error'' (JString (format_error err)))))
          else ret ()) (\<lambda>_.
     ret (0, None))))"

lemma get_async_apply [simp, comp_simps]: "asyncs s a = Some st \<Longrightarrow> get_async a s = (Inr st, s)"
  by (simp add: get_async_def)

lemma get_async_freed [simp, comp_simps]: "asyncs s a = None \<Longrightarrow> get_async a s = (Inl (UB UseAfterFree), s)"
  by (simp add: get_async_def)

end
