(* ===== verification/Call_Spec.thy ===== *)
theory Call_Spec
  imports Calls Base_Env
begin

text \<open>
  What the callbacks of \<open>src/call.c\<close> do to the queue of pending calls, to channels and to memory.
  \<open>tracks s c a ps\<close>: the \<open>AsyncState\<close> at \<open>a\<close> belongs to connection \<open>c\<close> with the queue \<open>ps\<close>, and its
  record is alive.
\<close>

definition pending_of :: "'w world \<Rightarrow> nat \<Rightarrow> nat" where
  "pending_of s a = as_pending (the (asyncs s a))"

definition tracks :: "'w world \<Rightarrow> nat \<Rightarrow> nat \<Rightarrow> nat list \<Rightarrow> bool" where
  "tracks s c a ps \<longleftrightarrow> (\<exists>st. asyncs s a = Some st \<and> as_conn st = c \<and> pend s (as_pending st) \<noteq> None)
     \<and> queue_is c s ps"

lemma relinksD:
  assumes "relinks c P s t"
  shows "ext t = ext s" "trace t = trace s" "asyncs t = asyncs s" "slots t = slots s" "msgs t = msgs s"
    "next_id t = next_id s" "streams t = streams s" "exports t = exports s"
    "cbus (conns t d) = cbus (conns s d)" "map_option payload (pend t p) = map_option payload (pend s p)"
    "p \<notin> P \<Longrightarrow> pend t p = pend s p" "d \<noteq> c \<Longrightarrow> conns t d = conns s d"
proof -
  have t: "t = s\<lparr>pend := pend t, conns := (conns s)(c := (conns s c)\<lparr>cqueue := cqueue (conns t c)\<rparr>)\<rparr>"
    using assms by (simp add: relinks_def)
  show "ext t = ext s" "trace t = trace s" "asyncs t = asyncs s" "slots t = slots s" "msgs t = msgs s"
    "next_id t = next_id s" "streams t = streams s" "exports t = exports s"
    by (subst t, simp)+
  show "cbus (conns t d) = cbus (conns s d)" "d \<noteq> c \<Longrightarrow> conns t d = conns s d" by (subst t, simp)+
qed (use assms in \<open>simp_all add: relinks_def\<close>)

lemma queue_is_ext [simp]:
  "queue_is c (s\<lparr>ext := w\<rparr>) = queue_is c s" "queue_is c (s\<lparr>trace := tr\<rparr>) = queue_is c s"
  "queue_is c (s\<lparr>msgs := ms\<rparr>) = queue_is c s" "queue_is c (s\<lparr>next_id := n\<rparr>) = queue_is c s"
  "queue_is c (s\<lparr>asyncs := as\<rparr>) = queue_is c s"
  by (simp_all add: queue_is_def fun_eq_iff)

text \<open>The reply to a call: it leaves the queue, and its message or error goes to the channel.\<close>

lemma handler_return:
  assumes tr: "tracks s c a ps" and p: "p = pending_of s a" "p \<in> set ps"
    and q: "pend s p = Some q" "pkind q = Call"
    and ty: "sd_get_type e reply (ext s) = SD_BUS_MESSAGE_METHOD_RETURN"
    and ref: "sd_message_ref e reply (ext s) = (m, w)"
    and open_: "\<not> janet_channel_closed e (pchan q) w"
  shows "\<exists>t. message_handler e a reply s = (Inr (0, None), t) \<and> queue_is c t (remove1 p ps)
    \<and> trace t = trace s @ [Give (pchan q) (JTuple [JKeyword ''ok'', JAbstract AbsMessage (next_id s)])]
    \<and> msgs t = (msgs s)(next_id s := m) \<and> ext t = w \<and> pend t p = Some q"
proof -
  obtain st where st: "asyncs s a = Some st" "as_conn st = c" "as_pending st = p"
    using tr p by (auto simp: tracks_def pending_of_def)
  obtain s1 where s1: "dequeue_pending c p s = (Inr (), s1)" "queue_is c s1 (remove1 p ps)"
    "relinks c (set ps) s s1" "pend s1 p = pend s p"
    using dequeue_pending_spec [of c s ps p] tr p(2) by (auto simp: tracks_def)
  note same = relinksD [OF s1(3)]
  show ?thesis
    using st s1 q ty ref open_
    by (simp add: message_handler_def push_message_def Let_def bnd_apply fresh_def CHAN_PUSH_def same
        SD_BUS_MESSAGE_METHOD_RETURN_def SD_BUS_MESSAGE_METHOD_CALL_def)
qed

lemma handler_error:
  assumes tr: "tracks s c a ps" and p: "p = pending_of s a" "p \<in> set ps"
    and q: "pend s p = Some q" "pkind q = Call"
    and ty: "sd_get_type e reply (ext s) = SD_BUS_MESSAGE_METHOD_ERROR"
    and err: "sd_get_error e reply (ext s) = Some err"
    and open_: "\<not> janet_channel_closed e (pchan q) (ext s)"
  shows "\<exists>t. message_handler e a reply s = (Inr (0, None), t) \<and> queue_is c t (remove1 p ps)
    \<and> trace t = trace s @ [Give (pchan q) (JTuple [JKeyword ''error'', JString (format_error err)])]
    \<and> msgs t = msgs s \<and> ext t = ext s \<and> pend t p = Some q"
proof -
  obtain st where st: "asyncs s a = Some st" "as_conn st = c" "as_pending st = p"
    using tr p by (auto simp: tracks_def pending_of_def)
  obtain s1 where s1: "dequeue_pending c p s = (Inr (), s1)" "queue_is c s1 (remove1 p ps)"
    "relinks c (set ps) s s1" "pend s1 p = pend s p"
    using dequeue_pending_spec [of c s ps p] tr p(2) by (auto simp: tracks_def)
  note same = relinksD [OF s1(3)]
  show ?thesis
    using st s1 q ty err open_
    by (simp add: message_handler_def Let_def bnd_apply CHAN_PUSH_def same get_error_def
        SD_BUS_MESSAGE_METHOD_RETURN_def SD_BUS_MESSAGE_METHOD_CALL_def SD_BUS_MESSAGE_SIGNAL_def
        SD_BUS_MESSAGE_METHOD_ERROR_def)
qed

text \<open>A message for a match, or any other than a reply for a call, leaves the queue as it is.\<close>

lemma handler_signal:
  assumes tr: "tracks s c a ps" and p: "p = pending_of s a" and q: "pend s p = Some q"
    and ty: "sd_get_type e reply (ext s) = SD_BUS_MESSAGE_SIGNAL"
    and ref: "sd_message_ref e reply (ext s) = (m, w)"
    and open_: "\<not> janet_channel_closed e (pchan q) w"
  shows "\<exists>t. message_handler e a reply s = (Inr (0, None), t) \<and> queue_is c t ps
    \<and> trace t = trace s @ [Give (pchan q) (JTuple [JKeyword ''ok'', JAbstract AbsMessage (next_id s)])]
    \<and> msgs t = (msgs s)(next_id s := m) \<and> ext t = w \<and> pend t = pend s"
proof -
  obtain st where st: "asyncs s a = Some st" "as_conn st = c" "as_pending st = p"
    using tr p by (auto simp: tracks_def pending_of_def)
  show ?thesis
    using st q ty ref open_ tr
    by (simp add: message_handler_def push_message_def Let_def bnd_apply fresh_def CHAN_PUSH_def
        SD_BUS_MESSAGE_METHOD_RETURN_def SD_BUS_MESSAGE_METHOD_CALL_def SD_BUS_MESSAGE_SIGNAL_def tracks_def)
qed

subsection \<open>Destroying the slot of a call\<close>

lemma chain_pslot: "h p = Some q \<Longrightarrow> chain (h(p \<mapsto> q\<lparr>pslot := x\<rparr>)) prev head ps nxt = chain h prev head ps nxt"
  by (induction ps arbitrary: prev head) (auto split: option.splits)

lemma queue_is_freed: "p \<notin> set ps \<Longrightarrow> queue_is c (s\<lparr>pend := (pend s)(p := None)\<rparr>) ps = queue_is c s ps"
  by (simp add: queue_is_def)

text \<open>The slot of a call that is still pending: the record is unlinked, then both blocks are freed.\<close>

lemma destroy_pending:
  assumes tr: "tracks s c a ps" and p: "p = pending_of s a" "p \<in> set ps"
  shows "\<exists>t. destroy_call_callback a s = (Inr (), t) \<and> queue_is c t (remove1 p ps)
    \<and> pend t p = None \<and> asyncs t = (asyncs s)(a := None)
    \<and> (\<forall>r. r \<noteq> p \<longrightarrow> map_option payload (pend t r) = map_option payload (pend s r))
    \<and> (\<forall>r. r \<notin> set ps \<longrightarrow> pend t r = pend s r) \<and> trace t = trace s \<and> ext t = ext s \<and> next_id t = next_id s
    \<and> slots t = slots s"
proof -
  obtain st q where st: "asyncs s a = Some st" "as_conn st = c" "as_pending st = p" and q: "pend s p = Some q"
    using tr p by (auto simp: tracks_def pending_of_def)
  let ?s1 = "s\<lparr>pend := (pend s)(p \<mapsto> q\<lparr>pslot := None\<rparr>)\<rparr>"
  have "queue_is c ?s1 ps" using tr chain_pslot [of "pend s" p q] q by (simp add: tracks_def queue_is_def)
  then obtain s2 where s2: "dequeue_pending c p ?s1 = (Inr (), s2)" "queue_is c s2 (remove1 p ps)"
    "relinks c (set ps) ?s1 s2" "pend s2 p = pend ?s1 p"
    using dequeue_pending_spec p(2) by blast
  note same = relinksD [OF s2(3)]
  have "p \<notin> set (remove1 p ps)" using tr by (simp add: tracks_def queue_is_def)
  then have "queue_is c (s2\<lparr>pend := (pend s2)(p := None)\<rparr>) (remove1 p ps)"
    using s2(2) by (simp add: queue_is_freed)
  moreover have "map_option payload (pend s2 r) = map_option payload (pend s r)" if "r \<noteq> p" for r
    using same(10) [of r] that by simp
  moreover have "pend s2 r = pend s r" if "r \<notin> set ps" for r
    using same(11) [of r] that p(2) by auto
  ultimately show ?thesis
    using st q s2 p(2) by (auto simp: destroy_call_callback_def bnd_apply FREE_CALL_STATE_def same)
qed

text \<open>
  The slot of a call that was completed, or closed with the connection, when no other call is
  pending: nothing is unlinked.
\<close>

lemma destroy_idle:
  assumes "tracks s c a []" and "p = pending_of s a"
  shows "\<exists>t. destroy_call_callback a s = (Inr (), t) \<and> queue_is c t []
    \<and> pend t = (pend s)(p := None) \<and> asyncs t = (asyncs s)(a := None) \<and> trace t = trace s \<and> ext t = ext s
    \<and> next_id t = next_id s \<and> conns t = conns s \<and> slots t = slots s"
  using assms
  by (auto simp: tracks_def pending_of_def destroy_call_callback_def bnd_apply FREE_CALL_STATE_def
      dequeue_pending_def queue_is_def)

text \<open>
  A completed call keeps the links it had in the queue. When its slot is destroyed while other
  calls are pending, \<open>dequeue_pending\<close> follows these stale links.
\<close>

lemma destroy_completed:
  assumes tr: "tracks s c a ps" and p: "p = pending_of s a" "p \<notin> set ps" "ps \<noteq> []"
    and stale: "pend s p = Some q" "pprev q = None" "pnext q = None"
  shows "\<exists>t. destroy_call_callback a s = (Inr (), t) \<and> cqueue (conns t c) = None
    \<and> (\<forall>r \<in> set ps. pend t r = pend s r \<and> pend t r \<noteq> None)"
proof -
  obtain st where st: "asyncs s a = Some st" "as_conn st = c" "as_pending st = p"
    using tr p by (auto simp: tracks_def pending_of_def)
  have head: "cqueue (conns s c) \<noteq> None" using tr p(3) by (cases ps) (auto simp: tracks_def queue_is_def)
  have "\<exists>y. pend s r = Some y" if "r \<in> set ps" for r
    using tr that chain_alive by (fastforce simp: tracks_def queue_is_def)
  then show ?thesis
    using st stale head p(2)
    by (auto simp: destroy_call_callback_def bnd_apply FREE_CALL_STATE_def dequeue_pending_def)
qed

text \<open>
  The whole story: the reply of the only pending call arrives, another call is made, and then the
  slot of the completed call is released. The queue is empty afterwards, although the second call
  is still pending.
\<close>

lemma completed_then_cancelled:
  assumes tr: "tracks s c a [p]" and p: "p = pending_of s a"
    and q: "pend s p = Some q" "pkind q = Call"
    and ty: "sd_get_type e reply (ext s) = SD_BUS_MESSAGE_METHOD_RETURN"
    and open_: "\<not> janet_channel_closed e (pchan q) (snd (sd_message_ref e reply (ext s)))"
    and p2: "p2 \<noteq> p" "pend s p2 = Some q2"
  shows "\<exists>t. bnd (message_handler e a reply) (\<lambda>_.
      bnd (queue_pending c p2) (\<lambda>_. destroy_call_callback a)) s = (Inr (), t)
    \<and> queue_is c t [] \<and> pend t p2 \<noteq> None"
proof -
  obtain st where st: "asyncs s a = Some st" "as_conn st = c" "as_pending st = p"
    using tr p by (auto simp: tracks_def pending_of_def)
  have links: "cqueue (conns s c) = Some p" "pprev q = None" "pnext q = None"
    using tr q(1) by (auto simp: tracks_def queue_is_def)
  show ?thesis
    using st links q ty open_ p2
    by (simp add: message_handler_def push_message_def Let_def bnd_apply fresh_def CHAN_PUSH_def
        SD_BUS_MESSAGE_METHOD_RETURN_def SD_BUS_MESSAGE_METHOD_CALL_def dequeue_pending_def
        queue_pending_def destroy_call_callback_def FREE_CALL_STATE_def queue_is_def split: prod.splits)
qed

text \<open>
  With two pending calls: the first is completed, the second is cancelled, a third is made, and
  then the slot of the first is released. Its record still points to that of the second.
\<close>

lemma completed_then_freed:
  assumes q2: "queue_is c s [p, r]"
    and st: "asyncs s a = Some \<lparr>as_conn = c, as_pending = p\<rparr>" "asyncs s b = Some \<lparr>as_conn = c, as_pending = r\<rparr>" "a \<noteq> b"
    and q: "pend s p = Some q" "pkind q = Call"
    and ty: "sd_get_type e reply (ext s) = SD_BUS_MESSAGE_METHOD_RETURN"
    and open_: "\<not> janet_channel_closed e (pchan q) (snd (sd_message_ref e reply (ext s)))"
    and p2: "p2 \<noteq> p" "p2 \<noteq> r" "pend s p2 = Some x"
  shows "fst (bnd (message_handler e a reply) (\<lambda>_. bnd (destroy_call_callback b) (\<lambda>_.
      bnd (queue_pending c p2) (\<lambda>_. destroy_call_callback a))) s) = Inl (UB UseAfterFree)"
proof -
  obtain y where links: "cqueue (conns s c) = Some p" "pprev q = None" "pnext q = Some r" "p \<noteq> r"
    "pend s r = Some y" "pprev y = Some p" "pnext y = None"
    using q2 q(1) by (auto simp: queue_is_def split: option.splits)
  show ?thesis
    using st links q ty open_ p2
    by (simp add: message_handler_def push_message_def Let_def bnd_apply fresh_def CHAN_PUSH_def
        SD_BUS_MESSAGE_METHOD_RETURN_def SD_BUS_MESSAGE_METHOD_CALL_def dequeue_pending_def
        queue_pending_def destroy_call_callback_def FREE_CALL_STATE_def split: prod.splits)
qed

subsection \<open>A channel that was closed\<close>

lemma handler_closed_channel:
  assumes tr: "tracks s c a ps" and p: "p = pending_of s a" "p \<in> set ps"
    and q: "pend s p = Some q" "pkind q = Call"
    and ty: "sd_get_type e reply (ext s) = SD_BUS_MESSAGE_METHOD_RETURN"
    and closed: "janet_channel_closed e (pchan q) (snd (sd_message_ref e reply (ext s)))"
  shows "\<exists>t. message_handler e a reply s = (Inl (Panicf ''cannot write to closed channel'' []), t)
    \<and> queue_is c t (remove1 p ps) \<and> trace t = trace s"
proof -
  obtain st where st: "asyncs s a = Some st" "as_conn st = c" "as_pending st = p"
    using tr p by (auto simp: tracks_def pending_of_def)
  obtain s1 where s1: "dequeue_pending c p s = (Inr (), s1)" "queue_is c s1 (remove1 p ps)"
    "relinks c (set ps) s s1" "pend s1 p = pend s p"
    using dequeue_pending_spec [of c s ps p] tr p(2) by (auto simp: tracks_def)
  note same = relinksD [OF s1(3)]
  show ?thesis
    using st s1 q ty closed
    by (simp add: message_handler_def push_message_def Let_def bnd_apply fresh_def CHAN_PUSH_def same
        SD_BUS_MESSAGE_METHOD_RETURN_def SD_BUS_MESSAGE_METHOD_CALL_def)
qed

end
