(* ===== verification/Call_Claims.thy ===== *)
theory Call_Claims
  imports Call_Spec
begin

text \<open>
  The properties of the queue of pending calls (\<open>src/async.c\<close>) and of the callbacks of
  \<open>src/call.c\<close>. The examples use one connection at address 0 with the calls at 10 and 20.
\<close>

definition a_call :: "nat \<Rightarrow> ptr \<Rightarrow> ptr \<Rightarrow> pending" where
  "a_call ch nxt prv = \<lparr>pslot = Some (ch + 1), pchan = ch, pnext = nxt, pprev = prv, pkind = Call\<rparr>"

definition one_call :: "unit world" where
  "one_call = (base_world ())\<lparr>
     conns := \<lambda>_. \<lparr>cbus = Some 1, cbus_stream = None, ctimer = None, cqueue = Some 10\<rparr>,
     pend := [10 \<mapsto> a_call 5 None None, 20 \<mapsto> a_call 7 None None],
     asyncs := [15 \<mapsto> \<lparr>as_conn = 0, as_pending = 10\<rparr>], next_id := 30\<rparr>"

lemma one_call_tracks: "tracks one_call 0 15 [10]" "pending_of one_call 15 = 10"
  "queue_is 0 one_call [10]" "pend one_call 10 = Some (a_call 5 None None)"
  "pend one_call 20 = Some (a_call 7 None None)" "pkind (a_call ch n p) = Call" "pchan (a_call ch n p) = ch"
  "ext one_call = ()" "trace one_call = []" "next_id one_call = 30"
  by (simp_all add: tracks_def one_call_def queue_is_def pending_of_def a_call_def base_world_def)

definition reply_env :: "8 word \<Rightarrow> unit env" where
  "reply_env ty = base_env\<lparr>sd_get_type := \<lambda>_ _. ty,
     sd_get_error := \<lambda>_ _. Some (''org.Error'', Some ''no'')\<rparr>"

lemma reply_env_simps: "sd_get_type (reply_env ty) m w = ty"
  "sd_get_error (reply_env ty) m w = Some (''org.Error'', Some ''no'')"
  "sd_message_ref (reply_env ty) m w = (m, w)" "\<not> janet_channel_closed (reply_env ty) ch w"
  by (simp_all add: reply_env_def base_env_def)

subsection \<open>The queue\<close>

text \<open>C8: \<open>queue_pending\<close> and \<open>dequeue_pending\<close> implement a list: from a well-linked queue, any
  sequence of insertions of live records and removals of queued ones, wherever they stand in the
  queue, runs without touching freed memory and leaves a well-linked queue that holds exactly the
  records of the list operations, the most recent one first.\<close>

theorem queue_operations_refine:
  assumes "queue_is c s ps" and "admissible (\<lambda>p. pend s p \<noteq> None) ps ops"
  shows "\<exists>t. run_ops (queue_pending c) (dequeue_pending c) ops s = (Inr (), t)
    \<and> queue_is c t (queue_after ps ops)"
  using pending_queue.run_ops_rep [OF assms] by blast

theorem queue_operations_refine_witness:
  "\<exists>t. run_ops (queue_pending 0) (dequeue_pending 0) [Enq 20, Deq 10] one_call = (Inr (), t)
    \<and> queue_is 0 t [20]"
  using queue_operations_refine [OF one_call_tracks(3), of "[Enq 20, Deq 10]"] by (simp add: one_call_tracks)

subsection \<open>Delivering messages\<close>

text \<open>C11: When the reply of a pending call arrives, the call leaves the queue and its channel
  receives exactly one tuple: \<open>:ok\<close> with a new message object that holds a reference to the reply,
  or \<open>:error\<close> with the name and message of the error. All other records keep their contents.\<close>

theorem reply_delivered:
  assumes "tracks s c a ps" and "p = pending_of s a" and "p \<in> set ps"
    and "pend s p = Some q" and "pkind q = Call"
    and "sd_message_ref e reply (ext s) = (m, w)"
    and "sd_get_error e reply (ext s) = Some err"
    and "\<not> janet_channel_closed e (pchan q) (ext s)" and "\<not> janet_channel_closed e (pchan q) w"
    and "sd_get_type e reply (ext s) = ty"
    and "ty = SD_BUS_MESSAGE_METHOD_RETURN \<or> ty = SD_BUS_MESSAGE_METHOD_ERROR"
  shows "\<exists>t. message_handler e a reply s = (Inr (0, None), t) \<and> queue_is c t (remove1 p ps)
    \<and> pend t p = Some q
    \<and> trace t = trace s @ [Give (pchan q) (if ty = SD_BUS_MESSAGE_METHOD_RETURN
        then JTuple [JKeyword ''ok'', JAbstract AbsMessage (next_id s)]
        else JTuple [JKeyword ''error'', JString (format_error err)])]
    \<and> (ty = SD_BUS_MESSAGE_METHOD_RETURN \<longrightarrow> msgs t (next_id s) = m)"
  using assms(11)
proof
  assume ty: "ty = SD_BUS_MESSAGE_METHOD_RETURN"
  show ?thesis using handler_return [OF assms(1-5) _ assms(6,9)] assms(10) ty by auto
next
  assume ty: "ty = SD_BUS_MESSAGE_METHOD_ERROR"
  then have "ty \<noteq> SD_BUS_MESSAGE_METHOD_RETURN"
    by (simp add: SD_BUS_MESSAGE_METHOD_ERROR_def SD_BUS_MESSAGE_METHOD_RETURN_def)
  then show ?thesis using handler_error [OF assms(1-5) _ assms(7,8)] assms(10) ty by auto
qed

theorem reply_delivered_witness:
  "\<exists>t. message_handler (reply_env SD_BUS_MESSAGE_METHOD_ERROR) 15 (Some 3) one_call = (Inr (0, None), t)
    \<and> queue_is 0 t [] \<and> trace t = [Give 5 (JTuple [JKeyword ''error'', JString ''D-Bus error: org.Error: no''])]"
  using reply_delivered [OF one_call_tracks(1) one_call_tracks(2) [symmetric] _ one_call_tracks(4) one_call_tracks(6)
      reply_env_simps(3,2,4,4) reply_env_simps(1), of SD_BUS_MESSAGE_METHOD_ERROR "Some 3"]
  by (auto simp: one_call_tracks SD_BUS_MESSAGE_METHOD_ERROR_def SD_BUS_MESSAGE_METHOD_RETURN_def format_error_def)

text \<open>C33: A signal that matches a rule goes to the channel of the match as \<open>:ok\<close> with a message
  object that shares the signal; the queue and every record stay as they are, so that the match
  goes on.\<close>

theorem signal_delivered:
  assumes "tracks s c a ps" and "p = pending_of s a" and "pend s p = Some q"
    and "sd_get_type e reply (ext s) = SD_BUS_MESSAGE_SIGNAL"
    and "sd_message_ref e reply (ext s) = (m, w)"
    and "\<not> janet_channel_closed e (pchan q) w"
  shows "\<exists>t. message_handler e a reply s = (Inr (0, None), t) \<and> queue_is c t ps \<and> pend t = pend s
    \<and> trace t = trace s @ [Give (pchan q) (JTuple [JKeyword ''ok'', JAbstract AbsMessage (next_id s)])]
    \<and> msgs t (next_id s) = m"
  using handler_signal [OF assms] by auto

theorem signal_delivered_witness:
  "\<exists>t. message_handler (reply_env SD_BUS_MESSAGE_SIGNAL) 15 (Some 3) one_call = (Inr (0, None), t)
    \<and> queue_is 0 t [10] \<and> msgs t 30 = Some 3"
  using signal_delivered [OF one_call_tracks(1) one_call_tracks(2) [symmetric] one_call_tracks(4)
      reply_env_simps(1,3,4), of "Some 3"]
  by (auto simp: one_call_tracks)

text \<open>When the channel of a call was closed before the reply arrives, the handler panics out of
  sd-bus's dispatch: the call has left the queue and nothing is delivered.\<close>

lemma reply_on_closed_channel:
  assumes "tracks s c a ps" and "p = pending_of s a" and "p \<in> set ps"
    and "pend s p = Some q" and "pkind q = Call"
    and "sd_get_type e reply (ext s) = SD_BUS_MESSAGE_METHOD_RETURN"
    and "janet_channel_closed e (pchan q) (snd (sd_message_ref e reply (ext s)))"
  shows "\<exists>t. message_handler e a reply s = (Inl (Panicf ''cannot write to closed channel'' []), t)
    \<and> queue_is c t (remove1 p ps) \<and> trace t = trace s"
  using handler_closed_channel [OF assms] .

subsection \<open>Destroying slots\<close>

text \<open>C21: Destroying the slot of a pending call unlinks its record from any position of the queue
  and frees the record and the callback state; the other records keep their contents and
  nothing is sent to a channel.\<close>

theorem cancel_pending_call:
  assumes "tracks s c a ps" and "p = pending_of s a" and "p \<in> set ps"
  shows "\<exists>t. destroy_call_callback a s = (Inr (), t) \<and> queue_is c t (remove1 p ps)
    \<and> pend t p = None \<and> asyncs t = (asyncs s)(a := None) \<and> trace t = trace s
    \<and> (\<forall>r. r \<noteq> p \<longrightarrow> map_option payload (pend t r) = map_option payload (pend s r))"
  using destroy_pending [OF assms] by blast

theorem cancel_pending_call_witness:
  "\<exists>t. destroy_call_callback 15 one_call = (Inr (), t) \<and> queue_is 0 t [] \<and> pend t 10 = None"
  using cancel_pending_call [OF one_call_tracks(1) one_call_tracks(2) [symmetric]] by auto

text \<open>C26: Releasing the slot of a completed call is not the no-op the tests ask for: the record
  still has the links of its time in the queue and is unlinked again. If it was the only pending
  call and another call was made since, that call is dropped from the queue although it is still
  pending, and will not be told when the connection closes.\<close>

theorem cancel_completed_call_drops:
  assumes "tracks s c a [p]" and "p = pending_of s a" and "pend s p = Some q" and "pkind q = Call"
    and "sd_get_type e reply (ext s) = SD_BUS_MESSAGE_METHOD_RETURN"
    and "\<not> janet_channel_closed e (pchan q) (snd (sd_message_ref e reply (ext s)))"
    and "p2 \<noteq> p" and "pend s p2 = Some q2"
  shows "\<exists>t. bnd (message_handler e a reply) (\<lambda>_.
      bnd (queue_pending c p2) (\<lambda>_. destroy_call_callback a)) s = (Inr (), t)
    \<and> queue_is c t [] \<and> pend t p2 \<noteq> None"
  using completed_then_cancelled [OF assms] .

theorem cancel_completed_call_drops_witness:
  "\<exists>t. bnd (message_handler (reply_env SD_BUS_MESSAGE_METHOD_RETURN) 15 (Some 3)) (\<lambda>_.
      bnd (queue_pending 0 20) (\<lambda>_. destroy_call_callback 15)) one_call = (Inr (), t)
    \<and> queue_is 0 t [] \<and> pend t 20 \<noteq> None"
  by (rule cancel_completed_call_drops [OF one_call_tracks(1) one_call_tracks(2) [symmetric]
        one_call_tracks(4,6) reply_env_simps(1) _ _ one_call_tracks(5)])
    (simp_all add: reply_env_simps one_call_tracks)

text \<open>C23: If the call behind it in the queue was cancelled after it was completed, and another call
  was made, releasing the slot of a completed call writes to the record of the cancelled call,
  which is freed memory.\<close>

theorem cancel_completed_call_stale:
  assumes "queue_is c s [p, r]"
    and "asyncs s a = Some \<lparr>as_conn = c, as_pending = p\<rparr>" and "asyncs s b = Some \<lparr>as_conn = c, as_pending = r\<rparr>"
    and "a \<noteq> b" and "pend s p = Some q" and "pkind q = Call"
    and "sd_get_type e reply (ext s) = SD_BUS_MESSAGE_METHOD_RETURN"
    and "\<not> janet_channel_closed e (pchan q) (snd (sd_message_ref e reply (ext s)))"
    and "p2 \<noteq> p" and "p2 \<noteq> r" and "pend s p2 = Some x"
  shows "fst (bnd (message_handler e a reply) (\<lambda>_. bnd (destroy_call_callback b) (\<lambda>_.
      bnd (queue_pending c p2) (\<lambda>_. destroy_call_callback a))) s) = Inl (UB UseAfterFree)"
  using completed_then_freed [OF assms] .

definition two_calls :: "unit world" where
  "two_calls = one_call\<lparr>
     pend := [10 \<mapsto> a_call 5 (Some 12) None, 12 \<mapsto> a_call 7 None (Some 10), 20 \<mapsto> a_call 9 None None],
     asyncs := [15 \<mapsto> \<lparr>as_conn = 0, as_pending = 10\<rparr>, 17 \<mapsto> \<lparr>as_conn = 0, as_pending = 12\<rparr>]\<rparr>"

theorem cancel_completed_call_stale_witness:
  "fst (bnd (message_handler (reply_env SD_BUS_MESSAGE_METHOD_RETURN) 15 (Some 3)) (\<lambda>_.
      bnd (destroy_call_callback 17) (\<lambda>_. bnd (queue_pending 0 20) (\<lambda>_. destroy_call_callback 15))) two_calls)
     = Inl (UB UseAfterFree)"
  by (rule cancel_completed_call_stale [where p = 10 and r = 12 and q = "a_call 5 (Some 12) None"
        and x = "a_call 9 None None"])
    (simp_all add: reply_env_simps two_calls_def one_call_def queue_is_def a_call_def)

text \<open>The handler for the installation of a match reports a refused rule on the match's channel
  as \<open>:error\<close>, once, and keeps the queue; an accepted rule changes nothing.\<close>

lemma match_installation:
  assumes "tracks s c a ps" and "p = pending_of s a" and "pend s p = Some q"
    and "sd_get_error e msg (ext s) = Some err" and "\<not> janet_channel_closed e (pchan q) (ext s)"
  shows "signal_install_handler e a msg s = (Inr (0, None),
     if sd_is_method_error e msg (ext s) = 0 then s
     else s\<lparr>trace := trace s @ [Give (pchan q) (JTuple [JKeyword ''error'', JString (format_error err)])]\<rparr>)"
proof -
  obtain st where "asyncs s a = Some st" "as_pending st = p"
    using assms(1,2) by (auto simp: tracks_def pending_of_def)
  then show ?thesis
    using assms by (simp add: signal_install_handler_def bnd_apply get_error_def CHAN_PUSH_def)
qed

end
