(* ===== verification/Export.thy ===== *)
theory Export
  imports Message
begin

unbundle bit_operations_syntax

text \<open>
  \<open>src/export.c\<close>: exporting a Janet dictionary of methods, properties and signals as a D-Bus
  interface. \<open>create_vtable\<close> builds the table for sd-bus, the handlers call the Janet functions of
  the dictionary, and the state of an export lives until its slot is destroyed; meanwhile it
  keeps the bus and the dictionary from Janet's garbage collector.
\<close>

subsection \<open>Reading the dictionary\<close>

text \<open>\<open>janet_dictionary_get\<close>; and a dictionary view of a value that is none stays uninitialised.\<close>

definition dictionary_get :: "(janet \<times> janet) list \<Rightarrow> janet \<Rightarrow> janet" where
  "dictionary_get kvs k = (case map_of kvs k of Some v \<Rightarrow> v | None \<Rightarrow> JNil)"

definition view_of :: "janet \<Rightarrow> ('w, (janet \<times> janet) list) prog" where
  "view_of x = (case dictionary_view x of None \<Rightarrow> raise (UB Uninitialised) | Some kvs \<Rightarrow> ret kvs)"

definition dict_symget :: "janet \<Rightarrow> string \<Rightarrow> ('w, janet) prog" where
  "dict_symget dict key =
     bnd (view_of dict) (\<lambda>view.
     let value = dictionary_get view (JKeyword key) in
     bnd (guard (value \<noteq> JNil) (Panicf ''Missing required field: %s'' [PStr key])) (\<lambda>_.
     ret value))"

text \<open>
  \<open>janet_unwrap_string\<close> and its relatives read the union without a test. Strings, symbols and
  keywords have the same representation; any other type is the wrong member.
\<close>

definition unwrap_string :: "janet \<Rightarrow> ('w, string) prog" where
  "unwrap_string x = (case x of
      JString str \<Rightarrow> ret str | JSymbol str \<Rightarrow> ret str | JKeyword str \<Rightarrow> ret str
    | _ \<Rightarrow> raise (UB WrongMember))"

definition cstr :: "janet \<Rightarrow> ('w, string) prog" where
  "cstr x = bnd (unwrap_string x) (\<lambda>str. ret (takeWhile (\<lambda>ch. ch \<noteq> NUL) str))"

definition unwrap_boolean :: "janet \<Rightarrow> ('w, bool) prog" where
  "unwrap_boolean x = (case x of JBoolean b \<Rightarrow> ret b | _ \<Rightarrow> raise (UB WrongMember))"

definition unwrap_function :: "janet \<Rightarrow> ('w, nat) prog" where
  "unwrap_function x = (case x of JFunction f \<Rightarrow> ret f | _ \<Rightarrow> raise (UB WrongMember))"

subsection \<open>The table\<close>

definition SD_BUS_VTABLE_DEPRECATED :: "64 word" where "SD_BUS_VTABLE_DEPRECATED = 1"
definition SD_BUS_VTABLE_HIDDEN :: "64 word" where "SD_BUS_VTABLE_HIDDEN = 2"
definition SD_BUS_VTABLE_METHOD_NO_REPLY :: "64 word" where "SD_BUS_VTABLE_METHOD_NO_REPLY = 8"
definition SD_BUS_VTABLE_PROPERTY_CONST :: "64 word" where "SD_BUS_VTABLE_PROPERTY_CONST = 16"
definition SD_BUS_VTABLE_PROPERTY_EMITS_CHANGE :: "64 word" where
  "SD_BUS_VTABLE_PROPERTY_EMITS_CHANGE = 32"
definition SD_BUS_VTABLE_PROPERTY_EMITS_INVALIDATION :: "64 word" where
  "SD_BUS_VTABLE_PROPERTY_EMITS_INVALIDATION = 64"
definition SD_BUS_VTABLE_PROPERTY_EXPLICIT :: "64 word" where "SD_BUS_VTABLE_PROPERTY_EXPLICIT = 128"
definition SD_BUS_VTABLE_SENSITIVE :: "64 word" where "SD_BUS_VTABLE_SENSITIVE = 256"

definition flag_bit :: "char \<Rightarrow> 64 word option" where
  "flag_bit c =
     (if c = CHR ''d'' then Some SD_BUS_VTABLE_DEPRECATED
      else if c = CHR ''h'' then Some SD_BUS_VTABLE_HIDDEN
      else if c = CHR ''s'' then Some SD_BUS_VTABLE_SENSITIVE
      else if c = CHR ''n'' then Some SD_BUS_VTABLE_METHOD_NO_REPLY
      else if c = CHR ''r'' then Some SD_BUS_VTABLE_PROPERTY_CONST
      else if c = CHR ''e'' then Some SD_BUS_VTABLE_PROPERTY_EMITS_CHANGE
      else if c = CHR ''i'' then Some SD_BUS_VTABLE_PROPERTY_EMITS_INVALIDATION
      else if c = CHR ''x'' then Some SD_BUS_VTABLE_PROPERTY_EXPLICIT
      else if c = CHR ''w'' then Some 0
      else None)"

fun flags_loop :: "64 word \<Rightarrow> string \<Rightarrow> panic + 64 word" where
  "flags_loop bits [] = Inr bits"
| "flags_loop bits (c # cs) = (case flag_bit c of
      Some b \<Rightarrow> flags_loop (bits OR b) cs
    | None \<Rightarrow> Inl (Panicf ''Unknown export flag: %c'' [PChar c]))"

definition sd_bus_flags :: "string \<Rightarrow> panic + 64 word" where
  "sd_bus_flags keys = flags_loop 0 keys"

definition flags_of :: "janet \<Rightarrow> ('w, 64 word) prog" where
  "flags_of entry =
     bnd (dict_symget entry ''flags'') (\<lambda>flags.
     bnd (unwrap_string flags) (\<lambda>keys.
     lift (sd_bus_flags keys)))"

definition create_vtable_method :: "string \<Rightarrow> janet \<Rightarrow> ('w, vtable_entry) prog" where
  "create_vtable_method name entry =
     bnd (dict_symget entry ''sig-in'') (\<lambda>sig_in.
     bnd (cstr sig_in) (\<lambda>inp.
     bnd (dict_symget entry ''sig-out'') (\<lambda>sig_out.
     bnd (cstr sig_out) (\<lambda>out.
     bnd (dict_symget entry ''function'') (\<lambda>fn.
     bnd (guard (case fn of JFunction _ \<Rightarrow> True | _ \<Rightarrow> False)
            (Panicf ''Expected function for method: %s'' [PStr name])) (\<lambda>_.
     bnd (flags_of entry) (\<lambda>bits.
     ret (VMethod name inp out bits))))))))"

definition create_vtable_property :: "string \<Rightarrow> janet \<Rightarrow> ('w, vtable_entry) prog" where
  "create_vtable_property name entry =
     bnd (dict_symget entry ''sig'') (\<lambda>x.
     bnd (cstr x) (\<lambda>sig.
     bnd (flags_of entry) (\<lambda>bits.
     bnd (dict_symget entry ''writable'') (\<lambda>w.
     bnd (unwrap_boolean w) (\<lambda>writable.
     ret (if writable \<and> bits AND (SD_BUS_VTABLE_PROPERTY_EMITS_CHANGE OR
                                    SD_BUS_VTABLE_PROPERTY_EMITS_INVALIDATION) \<noteq> 0
          then VWritable name sig True bits
          else if writable then VWritable name sig False bits
          else VProperty name sig bits))))))"

definition create_vtable_signal :: "string \<Rightarrow> janet \<Rightarrow> ('w, vtable_entry) prog" where
  "create_vtable_signal name entry =
     bnd (dict_symget entry ''sig'') (\<lambda>x.
     bnd (cstr x) (\<lambda>sig.
     bnd (flags_of entry) (\<lambda>bits.
     ret (VSignal name sig bits))))"

text \<open>
  The array on the stack has \<open>len\<close> entries; those that were never written are \<open>None\<close>. The loop
  starts at the entry behind the start marker.
\<close>

definition put_entry :: "vtable_entry option list \<Rightarrow> nat \<Rightarrow> vtable_entry \<Rightarrow> ('w, vtable_entry option list) prog" where
  "put_entry vtable i v =
     bnd (guard (i < length vtable) (UB OutOfBounds)) (\<lambda>_. ret (vtable[i := Some v]))"

fun fill_vtable :: "'w env \<Rightarrow> nat \<Rightarrow> nat \<Rightarrow> vtable_entry option list \<Rightarrow> (janet \<times> janet) list \<Rightarrow>
    ('w, vtable_entry option list) prog" where
  "fill_vtable e len i vtable [] = ret vtable"
| "fill_vtable e len i vtable ((key, val) # kvs) =
     bnd (guard (\<not> i \<ge> len - 1) (Panicf ''Too many members for D-Bus interface: %d'' [PInt (int len)])) (\<lambda>_.
     bnd (cstr key) (\<lambda>member.
     bnd (guard (sd_member_name_is_valid e member \<noteq> 0)
            (Panicf ''Invalid D-Bus member name: %s'' [PStr member])) (\<lambda>_.
     bnd (dict_symget val ''type'') (\<lambda>type.
     bnd (if type = JSymbol ''method'' then create_vtable_method member val
          else if type = JSymbol ''property'' then create_vtable_property member val
          else if type = JSymbol ''signal'' then create_vtable_signal member val
          else bnd (cstr type) (\<lambda>str.
            raise (Panicf ''Unknown D-Bus member type: %s'' [PStr str]))) (\<lambda>v.
     bnd (put_entry vtable (Suc i) v) (\<lambda>vtable.
     fill_vtable e len (Suc i) vtable kvs))))))"

definition create_vtable :: "'w env \<Rightarrow> nat \<Rightarrow> (janet \<times> janet) list \<Rightarrow> ('w, vtable_entry option list) prog" where
  "create_vtable e len dict =
     bnd (put_entry (replicate len None) 0 VStart) (\<lambda>vtable.
     bnd (fill_vtable e len 0 vtable dict) (\<lambda>vtable.
     bnd (put_entry vtable (len - 1) VEnd) (\<lambda>vtable.
     bnd (janet_malloc e) (\<lambda>_.
     ret vtable))))"

subsection \<open>Handlers\<close>

definition gcroot :: "janet \<Rightarrow> ('w, unit) prog" where
  "gcroot x = upd (\<lambda>s. s\<lparr>roots := x # roots s\<rparr>)"

definition gcunroot :: "janet \<Rightarrow> ('w, unit) prog" where
  "gcunroot x = upd (\<lambda>s. s\<lparr>roots := remove1 x (roots s)\<rparr>)"

definition get_export :: "nat \<Rightarrow> ('w, export_state) prog" where
  "get_export x = (\<lambda>s. case exports s x of
      None \<Rightarrow> (Inl (UB UseAfterFree), s)
    | Some st \<Rightarrow> (Inr st, s))"

text \<open>The message object that a handler passes to Janet, with a reference of its own.\<close>

definition share_message :: "'w env \<Rightarrow> ptr \<Rightarrow> ('w, janet) prog" where
  "share_message e msg =
     bnd fresh (\<lambda>a.
     bnd (extern (sd_message_ref e msg)) (\<lambda>m.
     bnd (upd (\<lambda>s. s\<lparr>msgs := (msgs s)(a := m)\<rparr>)) (\<lambda>_.
     ret (JAbstract AbsMessage a))))"

definition pcall :: "'w env \<Rightarrow> nat \<Rightarrow> janet list \<Rightarrow> ('w, bool \<times> janet) prog" where
  "pcall e f argv = (\<lambda>s. case janet_pcall e f argv s of (r, t) \<Rightarrow> (Inr r, t))"

definition error_reply :: "'w env \<Rightarrow> string \<Rightarrow> janet \<Rightarrow> int \<times> bus_error option" where
  "error_reply e what out =
     (let err = (''org.janet.error'', Some (what @ janet_to_string e out)) in (sd_error_setf e err, Some err))"

text \<open>\<open>janet_ckeywordv\<close> of the member name, which sd-bus has for every method call it dispatches.\<close>

definition method_handler :: "'w env \<Rightarrow> nat \<Rightarrow> ptr \<Rightarrow> ('w, int \<times> bus_error option) prog" where
  "method_handler e x msg =
     bnd (gets (\<lambda>s. sd_get_member e msg (ext s))) (\<lambda>member.
     bnd (get_export x) (\<lambda>state.
     bnd (view_of (xs_members state)) (\<lambda>env.
     bnd (share_message e msg) (\<lambda>obj.
     bnd (gcroot obj) (\<lambda>_.
     bnd (case member of None \<Rightarrow> raise (UB NullDeref) | Some m \<Rightarrow> ret m) (\<lambda>member.
     let method = dictionary_get env (JKeyword member) in
     bnd (dict_symget method ''function'') (\<lambda>fn.
     bnd (unwrap_function fn) (\<lambda>f.
     bnd (pcall e f [JAbstract AbsBus (xs_bus state), obj]) (\<lambda>(failed, out).
     bnd (gcunroot obj) (\<lambda>_.
     ret (if failed then error_reply e ''internal method error: '' out else (1, None))))))))))))"

definition property_handler_core ::
  "'w env \<Rightarrow> string \<Rightarrow> string \<Rightarrow> ptr \<Rightarrow> nat \<Rightarrow> ('w, int \<times> bus_error option) prog" where
  "property_handler_core e property method msg x =
     bnd (get_export x) (\<lambda>state.
     bnd (view_of (xs_members state)) (\<lambda>env.
     let prop = dictionary_get env (JKeyword property) in
     bnd (share_message e msg) (\<lambda>obj.
     bnd (gcroot obj) (\<lambda>_.
     bnd (dict_symget prop method) (\<lambda>fn.
     bnd (unwrap_function fn) (\<lambda>f.
     bnd (pcall e f [prop, obj]) (\<lambda>(failed, out).
     bnd (gcunroot obj) (\<lambda>_.
     ret (if failed then error_reply e ''internal property error: '' out
          else (if out = JNil then 1 else 0, None))))))))))"

definition property_getter :: "'w env \<Rightarrow> string \<Rightarrow> ptr \<Rightarrow> nat \<Rightarrow> ('w, int \<times> bus_error option) prog" where
  "property_getter e property msg x =
     bnd (property_handler_core e property ''getter'' msg x) (\<lambda>(rv, err). ret (0, err))"

definition property_setter :: "'w env \<Rightarrow> string \<Rightarrow> ptr \<Rightarrow> nat \<Rightarrow> ('w, int \<times> bus_error option) prog" where
  "property_setter e property msg x =
     bnd (property_handler_core e property ''setter'' msg x) (\<lambda>(rv, err). ret (0, err))"

definition property_setter_with_signal ::
  "'w env \<Rightarrow> ptr \<Rightarrow> string \<Rightarrow> string \<Rightarrow> string \<Rightarrow> ptr \<Rightarrow> nat \<Rightarrow> ('w, int \<times> bus_error option) prog" where
  "property_setter_with_signal e bus path interface property msg x =
     bnd (property_handler_core e property ''setter'' msg x) (\<lambda>(rv, err).
     bnd (if rv = 0 then
            bnd (CALL_SD_BUS_FUNC ''sd_bus_emit_properties_changed''
                   (sd_emit_properties_changed e bus path interface property)) (\<lambda>_. ret ())
          else ret ()) (\<lambda>_.
     ret (0, err)))"

subsection \<open>The life of an export\<close>

definition init_export_state ::
  "'w env \<Rightarrow> nat \<Rightarrow> vtable_entry option list \<Rightarrow> janet \<Rightarrow> ('w, nat) prog" where
  "init_export_state e c vtable members =
     bnd (janet_malloc e) (\<lambda>_.
     bnd fresh (\<lambda>x.
     bnd (upd (\<lambda>s. s\<lparr>exports := (exports s)(x \<mapsto>
            \<lparr>xs_vtable = vtable, xs_bus = c, xs_members = members\<rparr>)\<rparr>)) (\<lambda>_.
     bnd (gcroot (JAbstract AbsBus c)) (\<lambda>_.
     bnd (gcroot members) (\<lambda>_.
     ret x)))))"

definition FREE_EXPORT_STATE :: "nat \<Rightarrow> ('w, unit) prog" where
  "FREE_EXPORT_STATE x =
     bnd (get_export x) (\<lambda>state.
     bnd (gcunroot (JAbstract AbsBus (xs_bus state))) (\<lambda>_.
     bnd (gcunroot (xs_members state)) (\<lambda>_.
     upd (\<lambda>s. s\<lparr>exports := (exports s)(x := None)\<rparr>))))"

definition destroy_export_callback :: "nat \<Rightarrow> ('w, unit) prog" where
  "destroy_export_callback x = FREE_EXPORT_STATE x"

text \<open>sd-bus sets the slot only when it registers the interface.\<close>

definition cfun_export :: "'w env \<Rightarrow> janet list \<Rightarrow> ('w, janet) prog" where
  "cfun_export e argv =
     bnd (janet_fixarity argv 4) (\<lambda>_.
     bnd (janet_getabstract argv 0 AbsBus) (\<lambda>c.
     bnd (janet_getcstring e argv 1) (\<lambda>path.
     bnd (janet_getcstring e argv 2) (\<lambda>interface.
     bnd (janet_getdictionary argv 3) (\<lambda>env.
     bnd (guard (sd_object_path_is_valid e path \<noteq> 0)
            (Panicf ''Invalid D-Bus object path: %s'' [PStr path])) (\<lambda>_.
     bnd (guard (sd_interface_name_is_valid e interface \<noteq> 0)
            (Panicf ''Invalid D-Bus interface name: %s'' [PStr interface])) (\<lambda>_.
     bnd (guard (length env \<noteq> 0)
            (Panicf ''No members to register for interface: %s'' [PStr interface])) (\<lambda>_.
     bnd (create_vtable e (length env + 2) env) (\<lambda>vtable.
     bnd (init_export_state e c vtable (argv ! 3)) (\<lambda>x.
     bnd new_slot (\<lambda>slot.
     bnd (gets (\<lambda>s. cbus (conns s c))) (\<lambda>bus.
     bnd (extern (sd_add_object_vtable e bus path interface vtable x)) (\<lambda>(rv, sd_slot).
     bnd (if rv < 0 then ret () else upd (\<lambda>s. s\<lparr>slots := (slots s)(slot := sd_slot)\<rparr>)) (\<lambda>_.
     bnd (gets (\<lambda>s. slots s slot)) (\<lambda>p.
     bnd (extern (sd_slot_set_floating e p True)) (\<lambda>_.
     bnd (if rv < 0 then
            bnd (FREE_EXPORT_STATE x) (\<lambda>_.
            raise (Panicf ''failed to register D-Bus interface: %s'' [PInt (- rv)]))
          else ret ()) (\<lambda>_.
     bnd (extern (sd_slot_set_destroy e p (DestroyExport x))) (\<lambda>_.
     ret (JAbstract AbsSlot slot)))))))))))))))))))"

end
