(* ===== verification/Async.thy ===== *)
theory Async
  imports Calls Export
begin

text \<open>
  \<open>src/async.c\<close>: the connection in Janet's event loop. sd-bus is driven by \<open>process_bus\<close>, which
  dispatches messages to the callbacks of the program until none is left and then asks for the
  next wake-up; \<open>process_bus\<close> and \<open>settimeout\<close> call each other, and how long the dispatch loop
  runs is up to the bus, so they take fuel.
\<close>

text \<open>The callbacks sd-bus may invoke, with the bus they are invoked for.\<close>

definition run_destroy :: "destroy_cb \<Rightarrow> ('w, int \<times> bus_error option) prog" where
  "run_destroy d = bnd (case d of DestroyCall a \<Rightarrow> destroy_call_callback a
     | DestroyExport x \<Rightarrow> destroy_export_callback x) (\<lambda>_. ret (0, None))"

definition dispatch :: "'w env \<Rightarrow> ptr \<Rightarrow> handler \<Rightarrow> ('w, int \<times> bus_error option) prog" where
  "dispatch e bus h = (case h of
      MessageHandler a msg \<Rightarrow> message_handler e a msg
    | SignalInstall a msg \<Rightarrow> signal_install_handler e a msg
    | MethodHandler x msg \<Rightarrow> method_handler e x msg
    | PropertyGetter x path interface property msg \<Rightarrow> property_getter e property msg x
    | PropertySetter x path interface property msg \<Rightarrow> property_setter e property msg x
    | PropertySetterSignal x path interface property msg \<Rightarrow>
        property_setter_with_signal e bus path interface property msg x
    | Destroy d \<Rightarrow> run_destroy d)"

definition sd_bus_slot_unrefp :: "'w env \<Rightarrow> ptr \<Rightarrow> ('w, unit) prog" where
  "sd_bus_slot_unrefp e p =
     (if p = None then ret () else calls_back run_destroy (sd_slot_unref e p))"

text \<open>The bits of \<open>poll.h\<close>.\<close>

definition POLLIN :: int where "POLLIN = 1"
definition POLLOUT :: int where "POLLOUT = 4"

definition getevents :: "'w env \<Rightarrow> ptr \<Rightarrow> ('w, stream_flag set) prog" where
  "getevents e bus =
     bnd (CALL_SD_BUS_FUNC ''sd_bus_get_events'' (sd_get_events e bus)) (\<lambda>events.
     ret ((if events AND POLLIN \<noteq> 0 then {StreamReadable} else {}) \<union>
          (if events AND POLLOUT \<noteq> 0 then {StreamWritable} else {})))"

text \<open>Following a pointer that must not be null: the streams of a connection are null before
  \<open>init_async\<close> and after \<open>close-bus\<close>.\<close>

definition nonnull :: "ptr \<Rightarrow> ('w, nat) prog" where
  "nonnull p = (case p of None \<Rightarrow> raise (UB NullDeref) | Some a \<Rightarrow> ret a)"

definition setevents :: "'w env \<Rightarrow> nat \<Rightarrow> ('w, unit) prog" where
  "setevents e c =
     bnd (gets (\<lambda>s. cbus (conns s c))) (\<lambda>bus.
     bnd (getevents e bus) (\<lambda>newflags.
     bnd (gets (\<lambda>s. cbus_stream (conns s c))) (\<lambda>p.
     bnd (nonnull p) (\<lambda>stream.
     bnd (upd (\<lambda>s. s\<lparr>streams := (streams s)(stream := (streams s stream)\<lparr>s_flags :=
            (s_flags (streams s stream) - {StreamReadable, StreamWritable}) \<union> newflags\<rparr>)\<rparr>)) (\<lambda>_.
     emit (EdgeTriggered stream))))))"

definition UINT64_MAX :: "64 word" where "UINT64_MAX = - 1"

text \<open>The seconds and nanoseconds of \<open>itimerspec\<close>: zero disarms the timer.\<close>

definition timer_value :: "64 word \<Rightarrow> 64 word \<times> 64 word" where
  "timer_value usec =
     (if usec \<noteq> UINT64_MAX then (usec div 1000000, (usec mod 1000000) * 1000) else (0, 0))"

definition arm_timer :: "'w env \<Rightarrow> nat \<Rightarrow> 64 word \<Rightarrow> ('w, unit) prog" where
  "arm_timer e c usec =
     bnd (gets (\<lambda>s. ctimer (conns s c))) (\<lambda>p.
     bnd (nonnull p) (\<lambda>timer.
     bnd (gets (\<lambda>s. s_handle (streams s timer))) (\<lambda>fd.
     bnd (extern (sys_timerfd_settime e fd (fst (timer_value usec)) (snd (timer_value usec)))) (\<lambda>rv.
     bnd (gets (\<lambda>s. sys_errno e (ext s))) (\<lambda>err.
     guard (rv \<noteq> - 1) (Panicf ''timerfd_settime: %s'' [PInt err]))))))"

text \<open>The dispatch loop; the bus of the connection is read anew for every message.\<close>

fun process_loop :: "nat \<Rightarrow> 'w env \<Rightarrow> nat \<Rightarrow> ('w, int) prog" where
  "process_loop 0 e c = raise NoFuel"
| "process_loop (Suc n) e c =
     bnd (gets (\<lambda>s. cbus (conns s c))) (\<lambda>bus.
     bnd (calls_back (dispatch e bus) (sd_process e bus)) (\<lambda>rv.
     if rv > 0 then process_loop n e c else ret rv))"

function (sequential) process_bus :: "nat \<Rightarrow> 'w env \<Rightarrow> nat \<Rightarrow> ('w, unit) prog"
  and settimeout :: "nat \<Rightarrow> 'w env \<Rightarrow> nat \<Rightarrow> ('w, unit) prog"
where
  "process_bus 0 e c = raise NoFuel"
| "process_bus (Suc n) e c =
     bnd (process_loop (Suc n) e c) (\<lambda>rv.
     bnd (guard (\<not> rv < 0) (Panicf ''failed to call sd_bus_process: %s'' [PInt (- rv)])) (\<lambda>_.
     bnd (setevents e c) (\<lambda>_.
     settimeout n e c)))"
| "settimeout 0 e c = raise NoFuel"
| "settimeout (Suc n) e c =
     bnd (gets (\<lambda>s. cbus (conns s c))) (\<lambda>bus.
     bnd (CALL_SD_BUS_OUT ''sd_bus_get_timeout'' (sd_get_timeout e bus)) (\<lambda>usec.
     if usec = 0 then process_bus n e c else arm_timer e c usec))"
  by pat_completeness auto

termination
  by (relation "measure (\<lambda>x. case x of Inl (n, _) \<Rightarrow> n | Inr (n, _) \<Rightarrow> n)") simp_all

subsection \<open>Closing the pending calls\<close>

fun close_records :: "nat \<Rightarrow> 'w env \<Rightarrow> janet \<Rightarrow> ptr \<Rightarrow> ('w, unit) prog" where
  "close_records n e tuple None = ret ()"
| "close_records 0 e tuple (Some p) = raise NoFuel"
| "close_records (Suc n) e tuple (Some p) =
     bnd (get_pending p) (\<lambda>q.
     bnd (janet_channel_give e (pchan q) tuple) (\<lambda>_.
     bnd (nonnull (pslot q)) (\<lambda>slot.
     bnd (gets (\<lambda>s. slots s slot)) (\<lambda>sd_slot.
     bnd (sd_bus_slot_unrefp e sd_slot) (\<lambda>_.
     bnd (get_pending p) (\<lambda>q'.
     bnd (nonnull (pslot q')) (\<lambda>slot.
     bnd (upd (\<lambda>s. s\<lparr>slots := (slots s)(slot := None)\<rparr>)) (\<lambda>_.
     close_records n e tuple (pnext q)))))))))"

definition closeall_pending :: "nat \<Rightarrow> 'w env \<Rightarrow> nat \<Rightarrow> janet \<Rightarrow> janet \<Rightarrow> ('w, unit) prog" where
  "closeall_pending n e c status msg =
     bnd (gets (\<lambda>s. cqueue (conns s c))) (\<lambda>queue.
     if queue = None then ret ()
     else
       bnd (close_records n e (JTuple [status, msg]) queue) (\<lambda>_.
       set_queue c None))"

subsection \<open>Events\<close>

definition END_LISTENER :: "nat \<Rightarrow> ('w, unit) prog" where
  "END_LISTENER fiber = bnd (emit (Schedule fiber JNil)) (\<lambda>_. emit (AsyncEnd fiber))"

definition CANCEL_LISTENER :: "nat \<Rightarrow> janet \<Rightarrow> ('w, unit) prog" where
  "CANCEL_LISTENER fiber msg = bnd (emit (Cancel fiber msg)) (\<lambda>_. emit (AsyncEnd fiber))"

definition EBADF :: int where "EBADF = 9"

definition timer_callback :: "nat \<Rightarrow> 'w env \<Rightarrow> nat \<Rightarrow> async_event \<Rightarrow> ('w, unit) prog" where
  "timer_callback n e fiber event =
     bnd (gets (\<lambda>s. fibers s fiber)) (\<lambda>c.
     case event of
       EvRead \<Rightarrow>
         bnd (gets (\<lambda>s. ctimer (conns s c))) (\<lambda>p.
         bnd (nonnull p) (\<lambda>timer.
         bnd (gets (\<lambda>s. s_handle (streams s timer))) (\<lambda>fd.
         bnd (extern (sys_read_timer e fd)) (\<lambda>rv.
         bnd (gets (\<lambda>s. sys_errno e (ext s))) (\<lambda>err.
         bnd (guard (\<not> (rv = - 1 \<and> err = EBADF))
                (Panicf ''Timer file descriptor unexpectedly closed'' [])) (\<lambda>_.
         process_bus n e c))))))
     | EvClose \<Rightarrow> END_LISTENER fiber
     | _ \<Rightarrow> ret ())"

definition bus_callback :: "nat \<Rightarrow> 'w env \<Rightarrow> nat \<Rightarrow> async_event \<Rightarrow> ('w, unit) prog" where
  "bus_callback n e fiber event =
     bnd (gets (\<lambda>s. fibers s fiber)) (\<lambda>c.
     if event = EvWrite \<or> event = EvRead then process_bus n e c
     else if event = EvHup \<or> event = EvErr then
       (let msg = JString ''D-Bus connection error'' in
        bnd (closeall_pending n e c (JKeyword ''error'') msg) (\<lambda>_.
        CANCEL_LISTENER fiber msg))
     else if event = EvClose then
       bnd (closeall_pending n e c (JKeyword ''close'') (JString ''D-Bus connection closed'')) (\<lambda>_.
       END_LISTENER fiber)
     else ret ())"

text \<open>
  A new stream with a listener fiber: \<open>janet_async_start_fiber\<close> gives the fiber the callback for its
  events and the connection as the state of that callback.
\<close>

definition janet_poll :: "'w env \<Rightarrow> nat \<Rightarrow> int \<Rightarrow> stream_flag set \<Rightarrow> ev_callback \<Rightarrow> ('w, nat) prog" where
  "janet_poll e c fd flags callback =
     bnd (janet_stream fd flags) (\<lambda>stream.
     bnd fresh (\<lambda>fiber.
     bnd (janet_malloc e) (\<lambda>_.
     bnd (upd (\<lambda>s. s\<lparr>fibers := (fibers s)(fiber := c), callbacks := (callbacks s)(fiber := callback)\<rparr>)) (\<lambda>_.
     bnd (emit (AsyncStart fiber stream)) (\<lambda>_.
     ret stream)))))"

definition init_async :: "'w env \<Rightarrow> nat \<Rightarrow> ('w, unit) prog" where
  "init_async e c =
     bnd (extern (sys_timerfd_create e)) (\<lambda>timer_fd.
     bnd (gets (\<lambda>s. sys_errno e (ext s))) (\<lambda>err.
     bnd (guard (timer_fd \<noteq> - 1) (Panicf ''failed to call timerfd_create: %s'' [PInt err])) (\<lambda>_.
     bnd (janet_poll e c timer_fd {StreamReadable} TimerCallback) (\<lambda>timer.
     bnd (upd (\<lambda>s. s\<lparr>conns := (conns s)(c := (conns s c)\<lparr>ctimer := Some timer\<rparr>)\<rparr>)) (\<lambda>_.
     bnd (gets (\<lambda>s. cbus (conns s c))) (\<lambda>bus.
     bnd (CALL_SD_BUS_FUNC ''sd_bus_get_fd'' (sd_get_fd e bus)) (\<lambda>bus_fd.
     bnd (getevents e bus) (\<lambda>flags.
     bnd (janet_poll e c bus_fd (flags \<union> {StreamNotCloseable}) BusCallback) (\<lambda>stream.
     upd (\<lambda>s. s\<lparr>conns := (conns s)(c := (conns s c)\<lparr>cbus_stream := Some stream\<rparr>)\<rparr>))))))))))"

end
