(* ===== verification/Slots.thy ===== *)
theory Slots
  imports Async Base_Env
begin

text \<open>
  What the program relies on about slots of sd-bus, which are counted by reference. The library holds
  one reference through the pointer of the Janet object; the bus holds another while the slot is
  floating. \<open>held w x\<close> says that in the outside world \<open>w\<close> the bus holds a reference to the slot
  \<open>x\<close>, and \<open>cb w x\<close> is the destroy callback of the slot. Both are parameters of the laws, as the
  outside world itself is; \<open>slot_env\<close> is a concrete bus that keeps exactly this.
\<close>

text \<open>Letting go of a slot that the bus holds too destroys nothing.\<close>

definition unref_law :: "'w env \<Rightarrow> ('w \<Rightarrow> nat \<Rightarrow> bool) \<Rightarrow> bool" where
  "unref_law e held \<longleftrightarrow> (\<forall>w x. held w x \<longrightarrow> (\<exists>w'. sd_slot_unref e (Some x) w = Done () w' \<and> held w' = held w))"

text \<open>
  Otherwise it was the last reference, and the destroy callback runs if there is one. A floating slot
  is held by the bus, a slot that is not floating (or that the bus has already disconnected) is not.
  A new slot can be made floating.
\<close>

definition slot_laws :: "'w env \<Rightarrow> ('w \<Rightarrow> nat \<Rightarrow> bool) \<Rightarrow> ('w \<Rightarrow> nat \<Rightarrow> destroy_cb option) \<Rightarrow> bool" where
  "slot_laws e held cb \<longleftrightarrow> unref_law e held
     \<and> (\<forall>w x. \<not> held w x \<longrightarrow> (case cb w x of
           None \<Rightarrow> \<exists>w'. sd_slot_unref e (Some x) w = Done () w'
         | Some d \<Rightarrow> \<exists>w1 g. sd_slot_unref e (Some x) w = Invoke d w1 (\<lambda>_ w'. Done () (g w'))))
     \<and> (\<forall>w x rv w'. sd_slot_set_floating e (Some x) True w = (rv, w') \<longrightarrow>
           cb w' = cb w \<and> (0 \<le> rv \<longrightarrow> held w' = (held w)(x := True)))
     \<and> (\<forall>w x rv w'. sd_slot_set_floating e (Some x) False w = (rv, w') \<longrightarrow>
           cb w' = cb w \<and> held w' = (held w)(x := False))
     \<and> (\<forall>w x d rv w'. sd_slot_set_destroy e (Some x) d w = (rv, w') \<longrightarrow>
           cb w' = (cb w)(x \<mapsto> d) \<and> held w' = held w)
     \<and> (\<forall>bus rule a w rv p w'. sd_add_match_async e bus rule a w = ((rv, p), w') \<longrightarrow> held w' = held w \<and>
           (0 \<le> rv \<longrightarrow> p \<noteq> None \<and> 0 \<le> fst (sd_slot_set_floating e p True w')))
     \<and> (\<forall>bus m a timeout w rv p w'. sd_call_async e bus m a timeout w = ((rv, p), w') \<longrightarrow> held w' = held w \<and>
           (0 \<le> rv \<longrightarrow> p \<noteq> None \<and> 0 \<le> fst (sd_slot_set_floating e p True w')))
     \<and> (\<forall>w ok w'. sys_malloc e w = (ok, w') \<longrightarrow> held w' = held w)"

lemma slot_lawsD:
  assumes "slot_laws e held cb"
  shows unref_lawI: "unref_law e held"
    and last_unref: "\<not> held w x \<Longrightarrow> cb w x = Some d \<Longrightarrow> \<exists>w1 g. sd_slot_unref e (Some x) w = Invoke d w1 (\<lambda>_ w'. Done () (g w'))"
    and floating: "sd_slot_set_floating e (Some x) True w = (rv, w') \<Longrightarrow> cb w' = cb w \<and> (0 \<le> rv \<longrightarrow> held w' = (held w)(x := True))"
    and not_floating: "sd_slot_set_floating e (Some x) False w = (rv, w') \<Longrightarrow> cb w' = cb w \<and> held w' = (held w)(x := False)"
    and destroy_set: "sd_slot_set_destroy e (Some x) d w = (rv, w') \<Longrightarrow> cb w' = (cb w)(x \<mapsto> d) \<and> held w' = held w"
    and match_slot: "sd_add_match_async e bus rule a w = ((rv, p), w') \<Longrightarrow>
       held w' = held w \<and> (0 \<le> rv \<longrightarrow> p \<noteq> None \<and> 0 \<le> fst (sd_slot_set_floating e p True w'))"
    and call_slot: "sd_call_async e bus m a timeout w = ((rv, p), w') \<Longrightarrow>
       held w' = held w \<and> (0 \<le> rv \<longrightarrow> p \<noteq> None \<and> 0 \<le> fst (sd_slot_set_floating e p True w'))"
    and malloc_slots: "sys_malloc e w = (ok, w') \<Longrightarrow> held w' = held w"
proof -
  note laws = assms [unfolded slot_laws_def]
  note rest = laws [THEN conjunct2, THEN conjunct2]
  note rest2 = rest [THEN conjunct2, THEN conjunct2]
  note rest3 = rest2 [THEN conjunct2, THEN conjunct2]
  show "unref_law e held" by (rule laws [THEN conjunct1])
  show "\<not> held w x \<Longrightarrow> cb w x = Some d \<Longrightarrow> \<exists>w1 g. sd_slot_unref e (Some x) w = Invoke d w1 (\<lambda>_ w'. Done () (g w'))"
    using laws [THEN conjunct2, THEN conjunct1, rule_format, of w x] by simp
  show "sd_slot_set_floating e (Some x) True w = (rv, w') \<Longrightarrow> cb w' = cb w \<and> (0 \<le> rv \<longrightarrow> held w' = (held w)(x := True))"
    using rest [THEN conjunct1] by blast
  show "sd_slot_set_floating e (Some x) False w = (rv, w') \<Longrightarrow> cb w' = cb w \<and> held w' = (held w)(x := False)"
    using rest [THEN conjunct2, THEN conjunct1] by blast
  show "sd_slot_set_destroy e (Some x) d w = (rv, w') \<Longrightarrow> cb w' = (cb w)(x \<mapsto> d) \<and> held w' = held w"
    using rest2 [THEN conjunct1] by blast
  show "sd_add_match_async e bus rule a w = ((rv, p), w') \<Longrightarrow>
       held w' = held w \<and> (0 \<le> rv \<longrightarrow> p \<noteq> None \<and> 0 \<le> fst (sd_slot_set_floating e p True w'))"
    using rest2 [THEN conjunct2, THEN conjunct1] by blast
  show "sd_call_async e bus m a timeout w = ((rv, p), w') \<Longrightarrow>
       held w' = held w \<and> (0 \<le> rv \<longrightarrow> p \<noteq> None \<and> 0 \<le> fst (sd_slot_set_floating e p True w'))"
    using rest3 [THEN conjunct1] by blast
  show "sys_malloc e w = (ok, w') \<Longrightarrow> held w' = held w"
    using rest3 [THEN conjunct2] by blast
qed

text \<open>The bus holds the slots of the records \<open>ps\<close> that Janet has not let go of.\<close>

definition slot_of :: "'w world \<Rightarrow> nat \<Rightarrow> ptr" where
  "slot_of s p = pslot (the (pend s p))"

definition bus_holds :: "('w \<Rightarrow> nat \<Rightarrow> bool) \<Rightarrow> 'w world \<Rightarrow> nat list \<Rightarrow> bool" where
  "bus_holds held s ps \<longleftrightarrow>
     (\<forall>p \<in> set ps. \<forall>a x. slot_of s p = Some a \<longrightarrow> slots s a = Some x \<longrightarrow> held (ext s) x)"

lemma unrefp_held:
  assumes "unref_law e held" and "\<And>x. p = Some x \<Longrightarrow> held (ext s) x"
  shows "\<exists>w. sd_bus_slot_unrefp e p s = (Inr (), s\<lparr>ext := w\<rparr>) \<and> held w = held (ext s)"
proof (cases p)
  case None
  then show ?thesis by (intro exI [of _ "ext s"]) (simp add: sd_bus_slot_unrefp_def)
next
  case (Some x)
  then obtain w where "sd_slot_unref e p (ext s) = Done () w" "held w = held (ext s)"
    using assms unfolding unref_law_def by blast
  then show ?thesis using Some
    by (intro exI [of _ w]) (simp add: sd_bus_slot_unrefp_def calls_back_def bnd_apply)
qed

text \<open>A bus that keeps the set of the slots it holds and their destroy callbacks.\<close>

type_synonym bus_slots = "nat set \<times> (nat \<Rightarrow> destroy_cb option)"

definition slot_env :: "bus_slots env" where
  "slot_env = base_env\<lparr>
     sd_slot_set_floating := \<lambda>p b w. (case p of
         None \<Rightarrow> (- 22, w)
       | Some x \<Rightarrow> (1, if b then insert x (fst w) else fst w - {x}, snd w)),
     sd_slot_set_destroy := \<lambda>p d w. (case p of
         None \<Rightarrow> (- 22, w)
       | Some x \<Rightarrow> (0, fst w, (snd w)(x \<mapsto> d))),
     sd_slot_unref := \<lambda>p w. (case p of
         None \<Rightarrow> Done () w
       | Some x \<Rightarrow> if x \<in> fst w then Done () w
           else case snd w x of None \<Rightarrow> Done () w | Some d \<Rightarrow> Invoke d w (\<lambda>_ w'. Done () w'))\<rparr>"

definition holds_slot :: "bus_slots \<Rightarrow> nat \<Rightarrow> bool" where
  "holds_slot w x \<longleftrightarrow> x \<in> fst w"

lemma slot_env_simps:
  "sys_malloc slot_env w = (True, w)" "sd_call_async slot_env p m a timeout w = ((1, Some 1), w)"
  "sd_add_match_async slot_env p r a w = ((1, Some 1), w)"
  "sd_slot_set_floating slot_env (Some x) True w = (1, insert x (fst w), snd w)"
  "sd_slot_set_floating slot_env (Some x) False w = (1, fst w - {x}, snd w)"
  "sd_slot_set_destroy slot_env (Some x) d w = (0, fst w, (snd w)(x \<mapsto> d))"
  "sd_get_error slot_env p w = None" "sd_is_method_error slot_env p w = 0" "sd_get_type slot_env p w = 2"
  "janet_channel_closed slot_env ch w = False"
  by (simp_all add: slot_env_def base_env_def)

lemma slot_env_laws: "unref_law slot_env holds_slot" "slot_laws slot_env holds_slot snd"
proof -
  show u: "unref_law slot_env holds_slot"
    by (auto simp: unref_law_def slot_env_def holds_slot_def)
  have unref: "case snd w x of None \<Rightarrow> \<exists>w'. sd_slot_unref slot_env (Some x) w = Done () w'
      | Some d \<Rightarrow> \<exists>w1 g. sd_slot_unref slot_env (Some x) w = Invoke d w1 (\<lambda>_ w'. Done () (g w'))"
    if "\<not> holds_slot w x" for w x
    using that by (auto simp: slot_env_def holds_slot_def intro!: exI [where x = "\<lambda>w. w"] split: option.split)
  show "slot_laws slot_env holds_slot snd"
    unfolding slot_laws_def
    by (intro conjI allI impI u unref) (auto simp: slot_env_simps holds_slot_def fun_eq_iff)
qed

end
