(* ===== verification/Async_Spec.thy ===== *)
theory Async_Spec
  imports Slots Call_Spec
begin

text \<open>
  What the event loop integration does: the dispatch loop as a relation between states, arming the
  timer, and telling every pending call that the connection is gone.
\<close>

subsection \<open>The dispatch loop\<close>

text \<open>One call of \<open>sd_bus_process\<close> on the bus of connection \<open>c\<close>, with the callbacks it runs.\<close>

definition sd_bus_process :: "'w env \<Rightarrow> nat \<Rightarrow> ('w, int) prog" where
  "sd_bus_process e c =
     bnd (gets (\<lambda>s. cbus (conns s c))) (\<lambda>bus. calls_back (dispatch e bus) (sd_process e bus))"

text \<open>
  \<open>dispatches e c k rv s t\<close>: from \<open>s\<close>, \<open>k\<close> messages are dispatched and then \<open>sd_bus_process\<close>
  returns \<open>rv\<close> in \<open>t\<close>: zero when the bus is quiet, or an error.
\<close>

inductive dispatches :: "'w env \<Rightarrow> nat \<Rightarrow> nat \<Rightarrow> int \<Rightarrow> 'w world \<Rightarrow> 'w world \<Rightarrow> bool" for e :: "'w env" and c where
  stops: "sd_bus_process e c s = (Inr rv, t) \<Longrightarrow> rv \<le> 0 \<Longrightarrow> dispatches e c 0 rv s t"
| a_message: "sd_bus_process e c s = (Inr r, s1) \<Longrightarrow> 0 < r \<Longrightarrow> dispatches e c k rv s1 t \<Longrightarrow>
     dispatches e c (Suc k) rv s t"

inductive_cases dispatches_0E: "dispatches e c 0 rv s t"
inductive_cases dispatches_SucE: "dispatches e c (Suc k) rv s t"

lemma dispatches_result: "dispatches e c k rv s t \<Longrightarrow> rv \<le> 0"
  by (induction rule: dispatches.induct)

lemma process_loop_step:
  "process_loop (Suc n) e c = bnd (sd_bus_process e c) (\<lambda>rv. if rv > 0 then process_loop n e c else ret rv)"
  by (simp add: sd_bus_process_def bnd_assoc)

declare process_loop.simps(2) [simp del]

text \<open>The loop with enough fuel and the relation agree.\<close>

lemma process_loop_dispatches:
  "dispatches e c k rv s t \<Longrightarrow> k < n \<Longrightarrow> process_loop n e c s = (Inr rv, t)"
proof (induction arbitrary: n rule: dispatches.induct)
  case (stops s rv t)
  then show ?case by (cases n) (simp_all add: process_loop_step bnd_apply)
next
  case (a_message s r s1 k rv t)
  then show ?case by (cases n) (simp_all add: process_loop_step bnd_apply)
qed

lemma dispatches_process_loop:
  "process_loop n e c s = (Inr rv, t) \<Longrightarrow> \<exists>k < n. dispatches e c k rv s t"
proof (induction n arbitrary: s)
  case (Suc n)
  then obtain r s1 where one: "sd_bus_process e c s = (Inr r, s1)"
    "(if r > 0 then process_loop n e c else ret r) s1 = (Inr rv, t)"
    by (auto simp: process_loop_step bnd_eq_Inr)
  show ?case
  proof (cases "r > 0")
    case True
    then obtain k where "k < n" "dispatches e c k rv s1 t" using Suc.IH one(2) by auto
    then show ?thesis using a_message [OF one(1) True] by auto
  next
    case False
    then show ?thesis using one stops [of e c s r t] by auto
  qed
qed simp

text \<open>There is one number of messages and one state in which the loop stops.\<close>

lemma dispatches_unique:
  "dispatches e c k rv s t \<Longrightarrow> dispatches e c j rv' s u \<Longrightarrow> j = k \<and> rv' = rv \<and> u = t"
proof (induction arbitrary: j rule: dispatches.induct)
  case (stops s rv t)
  then show ?case by (cases j) (auto elim!: dispatches_0E dispatches_SucE)
next
  case (a_message s r s1 k rv t)
  then show ?case by (cases j) (auto elim!: dispatches_0E dispatches_SucE)
qed

subsection \<open>Events and the timer\<close>

definition poll_flags :: "int \<Rightarrow> stream_flag set" where
  "poll_flags events =
     (if events AND POLLIN \<noteq> 0 then {StreamReadable} else {}) \<union>
     (if events AND POLLOUT \<noteq> 0 then {StreamWritable} else {})"

definition with_flags :: "nat \<Rightarrow> stream_flag set \<Rightarrow> 'w world \<Rightarrow> 'w world" where
  "with_flags a new s = s\<lparr>streams := (streams s)(a := (streams s a)\<lparr>s_flags :=
     (s_flags (streams s a) - {StreamReadable, StreamWritable}) \<union> new\<rparr>),
     trace := trace s @ [EdgeTriggered a]\<rparr>"

lemma with_flags_simps [simp]:
  "ext (with_flags a new s) = ext s" "conns (with_flags a new s) = conns s"
  "s_handle (streams (with_flags a new s) b) = s_handle (streams s b)"
  by (simp_all add: with_flags_def)

lemma setevents_run:
  assumes "cbus_stream (conns s c) = Some a" and "sd_get_events e (cbus (conns s c)) (ext s) = (ev, w)" and "0 \<le> ev"
  shows "setevents e c s = (Inr (), with_flags a (poll_flags ev) (s\<lparr>ext := w\<rparr>))"
  using assms
  by (simp add: setevents_def getevents_def bnd_apply nonnull_def poll_flags_def with_flags_def)

lemma arm_timer_run:
  assumes "ctimer (conns s c) = Some a"
    and "sys_timerfd_settime e (s_handle (streams s a)) (fst (timer_value usec)) (snd (timer_value usec)) (ext s) = (rv, w)"
    and "rv \<noteq> - 1"
  shows "arm_timer e c usec s = (Inr (), s\<lparr>ext := w\<rparr>)"
  using assms by (simp add: arm_timer_def bnd_apply nonnull_def)

lemma timer_value_exact:
  assumes "usec \<noteq> UINT64_MAX"
  shows "unat (fst (timer_value usec)) * 1000000 + unat (snd (timer_value usec)) div 1000 = unat usec
    \<and> unat (snd (timer_value usec)) < 1000000000 \<and> unat (snd (timer_value usec)) mod 1000 = 0"
proof -
  have m: "unat (usec mod 1000000) = unat usec mod 1000000" "unat (usec div 1000000) = unat usec div 1000000"
    by (simp_all add: unat_mod unat_div)
  have "unat (usec mod 1000000) * 1000 < 2 ^ 64"
    using m by (simp add: less_le_trans [OF mult_strict_right_mono [OF mod_less_divisor]])
  then have n: "unat (usec mod 1000000 * 1000) = unat usec mod 1000000 * 1000"
    using m by (simp add: unat_word_ariths)
  have "unat usec div 1000000 * 1000000 + unat usec mod 1000000 = unat usec" by simp
  then show ?thesis using assms m n by (simp add: timer_value_def)
qed

lemma timer_value_armed: "usec \<noteq> 0 \<Longrightarrow> usec \<noteq> UINT64_MAX \<Longrightarrow> timer_value usec \<noteq> (0, 0)"
  using timer_value_exact [of usec] by (auto simp: unat_eq_0)

text \<open>What follows the loop: with a timeout other than zero, the state is determined.\<close>

lemma settimeout_arm:
  assumes "sd_get_timeout e (cbus (conns s c)) (ext s) = ((rv, usec), w)" and "0 \<le> rv" and "usec \<noteq> 0"
  shows "settimeout (Suc n) e c s = arm_timer e c usec (s\<lparr>ext := w\<rparr>)"
  using assms by (simp add: CALL_SD_BUS_OUT_def bnd_apply)

lemma settimeout_now:
  assumes "sd_get_timeout e (cbus (conns s c)) (ext s) = ((rv, 0), w)" and "0 \<le> rv"
  shows "settimeout (Suc n) e c s = process_bus n e c (s\<lparr>ext := w\<rparr>)"
  using assms by (simp add: CALL_SD_BUS_OUT_def bnd_apply)

lemma process_bus_run:
  assumes "dispatches e c k 0 s t" and "k < n" and "cbus_stream (conns t c) = Some a"
    and "sd_get_events e (cbus (conns t c)) (ext t) = (ev, w)" and "0 \<le> ev"
  shows "process_bus n e c s = settimeout (n - 1) e c (with_flags a (poll_flags ev) (t\<lparr>ext := w\<rparr>))"
proof -
  obtain m where n: "n = Suc m" using assms(2) by (cases n) auto
  show ?thesis
    using process_loop_dispatches [OF assms(1,2)] setevents_run [OF assms(3-5)]
    by (simp add: n bnd_apply)
qed

subsection \<open>Closing all pending calls\<close>

definition chan_of :: "'w world \<Rightarrow> nat \<Rightarrow> nat" where
  "chan_of s p = pchan (the (pend s p))"

definition told :: "'w world \<Rightarrow> janet \<Rightarrow> nat list \<Rightarrow> event list" where
  "told s tuple ps = map (\<lambda>p. Give (chan_of s p) tuple) ps"

text \<open>One round of the loop, and the loop over the records that can be told.\<close>

lemma close_one:
  assumes law: "unref_law e held" and q: "pend s p = Some q" "pslot q = Some a"
    and held: "\<And>x. slots s a = Some x \<Longrightarrow> held (ext s) x"
    and open_: "\<not> janet_channel_closed e (pchan q) (ext s)"
  shows "\<exists>w. close_records (Suc n) e tuple (Some p) s =
     close_records n e tuple (pnext q) (s\<lparr>trace := trace s @ [Give (pchan q) tuple], ext := w,
       slots := (slots s)(a := None)\<rparr>) \<and> held w = held (ext s)"
proof -
  obtain w where "sd_bus_slot_unrefp e (slots s a) (s\<lparr>trace := trace s @ [Give (pchan q) tuple]\<rparr>)
      = (Inr (), s\<lparr>trace := trace s @ [Give (pchan q) tuple], ext := w\<rparr>)" "held w = held (ext s)"
    using unrefp_held [OF law, of "slots s a" "s\<lparr>trace := trace s @ [Give (pchan q) tuple]\<rparr>"] held by auto
  then show ?thesis using q open_ by (intro exI [of _ w]) (simp add: bnd_apply nonnull_def)
qed

text \<open>What the loop leaves as it is.\<close>

definition only_slots :: "'w world \<Rightarrow> 'w world \<Rightarrow> bool" where
  "only_slots s t \<longleftrightarrow> t = s\<lparr>ext := ext t, trace := trace t, slots := slots t\<rparr>"

lemma only_slotsD:
  "only_slots s t \<Longrightarrow> pend t = pend s \<and> conns t = conns s \<and> asyncs t = asyncs s \<and> fibers t = fibers s
     \<and> callbacks t = callbacks s \<and> next_id t = next_id s"
  by (auto simp: only_slots_def dest: arg_cong [where f = pend] arg_cong [where f = conns] arg_cong [where f = asyncs]
      arg_cong [where f = fibers] arg_cong [where f = callbacks] arg_cong [where f = next_id])

lemma only_slots_refl: "only_slots s s"
  by (simp add: only_slots_def)

lemma only_slots_step: "only_slots (s\<lparr>trace := tr, ext := w, slots := sl\<rparr>) t \<Longrightarrow> only_slots s t"
  by (auto simp: only_slots_def)

lemma close_records_run:
  assumes law: "unref_law e held"
  shows "chain (pend s) prev head (ps @ qs) None \<Longrightarrow> length ps \<le> n \<Longrightarrow> bus_holds held s ps \<Longrightarrow>
     (\<forall>p \<in> set ps. slot_of s p \<noteq> None \<and> (\<forall>w. \<not> janet_channel_closed e (chan_of s p) w)) \<Longrightarrow>
     \<exists>t mid. close_records n e tuple head s = close_records (n - length ps) e tuple mid t
       \<and> chain (pend s) (last_of prev ps) mid qs None
       \<and> trace t = trace s @ told s tuple ps \<and> only_slots s t \<and> held (ext t) = held (ext s)
       \<and> slots t = (\<lambda>a. if Some a \<in> slot_of s ` set ps then None else slots s a)"
proof (induction ps arbitrary: s prev head n)
  case Nil
  then show ?case by (auto simp: last_of_def told_def intro: only_slots_refl)
next
  case (Cons p ps)
  obtain q where q: "head = Some p" "pend s p = Some q" "chain (pend s) (Some p) (pnext q) (ps @ qs) None"
    using Cons.prems(1) by (auto split: option.splits)
  obtain a where a: "pslot q = Some a" using Cons.prems(4) q(2) by (auto simp: slot_of_def)
  obtain m where n: "n = Suc m" "length ps \<le> m" using Cons.prems(2) by (cases n) auto
  have op: "\<not> janet_channel_closed e (pchan q) (ext s)" using Cons.prems(4) q(2) by (simp add: chan_of_def)
  have held: "held (ext s) x" if "slots s a = Some x" for x
    using Cons.prems(3) that a q(2) by (simp add: bus_holds_def slot_of_def)
  obtain w where one: "close_records n e tuple head s = close_records m e tuple (pnext q)
      (s\<lparr>trace := trace s @ [Give (pchan q) tuple], ext := w, slots := (slots s)(a := None)\<rparr>)"
    "held w = held (ext s)"
    using close_one [OF law q(2) a held op] n q(1) by blast
  let ?s = "s\<lparr>trace := trace s @ [Give (pchan q) tuple], ext := w, slots := (slots s)(a := None)\<rparr>"
  have same: "slot_of ?s = slot_of s" "chan_of ?s = chan_of s" "told ?s = told s"
    by (auto simp: slot_of_def chan_of_def told_def fun_eq_iff)
  have "bus_holds held ?s ps" using Cons.prems(3) one(2) by (auto simp: bus_holds_def same)
  then obtain t mid where t: "close_records m e tuple (pnext q) ?s = close_records (m - length ps) e tuple mid t"
    "chain (pend s) (last_of (Some p) ps) mid qs None" "trace t = trace ?s @ told s tuple ps"
    "only_slots ?s t" "held (ext t) = held (ext s)"
    "slots t = (\<lambda>a. if Some a \<in> slot_of s ` set ps then None else slots ?s a)"
    using Cons.IH [of ?s "Some p" "pnext q" m] q(3) n(2) Cons.prems(4) same one(2) by auto
  show ?case
    using t one q a n only_slots_step [OF t(4)]
    by (intro exI [of _ t] exI [of _ mid])
      (auto simp: last_of_def told_def chan_of_def slot_of_def fun_eq_iff)
qed

lemma closeall_run:
  assumes "unref_law e held" and q: "queue_is c s ps" and "length ps \<le> n" and "bus_holds held s ps"
    and ok: "\<forall>p \<in> set ps. slot_of s p \<noteq> None \<and> (\<forall>w. \<not> janet_channel_closed e (chan_of s p) w)"
  shows "\<exists>t. closeall_pending n e c status msg s = (Inr (), t) \<and> queue_is c t [] \<and> pend t = pend s
    \<and> trace t = trace s @ told s (JTuple [status, msg]) ps
    \<and> slots t = (\<lambda>a. if Some a \<in> slot_of s ` set ps then None else slots s a)
    \<and> conns t = (conns s)(c := (conns s c)\<lparr>cqueue := None\<rparr>) \<and> asyncs t = asyncs s \<and> fibers t = fibers s
    \<and> callbacks t = callbacks s \<and> next_id t = next_id s"
proof -
  have ch: "chain (pend s) None (cqueue (conns s c)) (ps @ []) None" using q by (simp add: queue_is_def)
  obtain t mid where t: "close_records n e (JTuple [status, msg]) (cqueue (conns s c)) s
      = close_records (n - length ps) e (JTuple [status, msg]) mid t"
    "mid = None" "trace t = trace s @ told s (JTuple [status, msg]) ps" "only_slots s t"
    "slots t = (\<lambda>a. if Some a \<in> slot_of s ` set ps then None else slots s a)"
    using close_records_run [OF assms(1) ch assms(3,4) ok, where tuple = "JTuple [status, msg]"] by auto
  show ?thesis
  proof (cases ps)
    case Nil
    then have "(conns s)(c := (conns s c)\<lparr>cqueue := None\<rparr>) = conns s" using ch by (intro fun_upd_idem) simp
    then show ?thesis using ch q Nil by (simp add: closeall_pending_def bnd_apply told_def)
  next
    case (Cons p ps')
    then have "cqueue (conns s c) \<noteq> None" using ch by simp
    then show ?thesis using t only_slotsD [OF t(4)] by (auto simp: closeall_pending_def bnd_apply queue_is_def)
  qed
qed

text \<open>A closed channel stops the loop: nobody behind it is told, and the queue keeps all records.\<close>

lemma closeall_closed_channel:
  assumes law: "unref_law e held" and q: "queue_is c s (ps @ p # qs)" and n: "length ps < n"
    and held: "bus_holds held s ps"
    and ok: "\<forall>p \<in> set ps. slot_of s p \<noteq> None \<and> (\<forall>w. \<not> janet_channel_closed e (chan_of s p) w)"
    and closed: "\<forall>w. janet_channel_closed e (chan_of s p) w"
  shows "\<exists>t. closeall_pending n e c status msg s = (Inl (Panicf ''cannot write to closed channel'' []), t)
    \<and> queue_is c t (ps @ p # qs) \<and> trace t = trace s @ told s (JTuple [status, msg]) ps"
proof -
  have ch: "chain (pend s) None (cqueue (conns s c)) (ps @ (p # qs)) None" using q by (simp add: queue_is_def)
  obtain t mid where t: "close_records n e (JTuple [status, msg]) (cqueue (conns s c)) s
      = close_records (n - length ps) e (JTuple [status, msg]) mid t"
    "chain (pend s) (last_of None ps) mid (p # qs) None"
    "trace t = trace s @ told s (JTuple [status, msg]) ps" "only_slots s t"
    using close_records_run [OF law ch less_imp_le [OF n] held ok, where tuple = "JTuple [status, msg]"] by auto
  obtain x where x: "mid = Some p" "pend s p = Some x" using t(2) by (auto split: option.splits)
  obtain m where m: "n - length ps = Suc m" using n by (cases "n - length ps") auto
  have "cqueue (conns s c) \<noteq> None" using ch by (cases ps) auto
  then show ?thesis
    using t(1,3) x m closed q only_slotsD [OF t(4)]
    by (auto simp: closeall_pending_def bnd_apply queue_is_def chan_of_def)
qed

subsection \<open>Listeners\<close>

text \<open>What the end of the connection means: the status and text for the channels and the fiber's end.\<close>

definition goodbye :: "nat \<Rightarrow> async_event \<Rightarrow> (janet \<times> event list) option" where
  "goodbye fiber ev =
     (if ev = EvClose then
        Some (JTuple [JKeyword ''close'', JString ''D-Bus connection closed''],
          [Schedule fiber JNil, AsyncEnd fiber])
      else if ev = EvHup \<or> ev = EvErr then
        Some (JTuple [JKeyword ''error'', JString ''D-Bus connection error''],
          [Cancel fiber (JString ''D-Bus connection error''), AsyncEnd fiber])
      else None)"

lemma bus_callback_ends:
  assumes "unref_law e held" and fib: "fibers s fiber = c" and "queue_is c s ps" and "length ps \<le> n"
    and "bus_holds held s ps"
    and "\<forall>p \<in> set ps. slot_of s p \<noteq> None \<and> (\<forall>w. \<not> janet_channel_closed e (chan_of s p) w)"
    and bye: "goodbye fiber ev = Some (tuple, evs)"
  shows "\<exists>t. bus_callback n e fiber ev s = (Inr (), t) \<and> queue_is c t [] \<and> pend t = pend s
    \<and> trace t = trace s @ told s tuple ps @ evs
    \<and> slots t = (\<lambda>a. if Some a \<in> slot_of s ` set ps then None else slots s a)
    \<and> conns t = (conns s)(c := (conns s c)\<lparr>cqueue := None\<rparr>) \<and> asyncs t = asyncs s \<and> fibers t = fibers s \<and> callbacks t = callbacks s \<and> next_id t = next_id s"
proof (cases "ev = EvClose")
  case True
  obtain t where "closeall_pending n e c (JKeyword ''close'') (JString ''D-Bus connection closed'') s = (Inr (), t)"
    "queue_is c t []" "pend t = pend s" "trace t = trace s @ told s tuple ps"
    "slots t = (\<lambda>a. if Some a \<in> slot_of s ` set ps then None else slots s a)"
    "conns t = (conns s)(c := (conns s c)\<lparr>cqueue := None\<rparr>)" "asyncs t = asyncs s" "fibers t = fibers s" "callbacks t = callbacks s" "next_id t = next_id s"
    using closeall_run [OF assms(1,3-6), of "JKeyword ''close''" "JString ''D-Bus connection closed''"] bye True
    by (auto simp: goodbye_def)
  then show ?thesis using True fib bye by (auto simp: bus_callback_def bnd_apply END_LISTENER_def goodbye_def)
next
  case False
  then have ev: "ev = EvHup \<or> ev = EvErr" using bye by (auto simp: goodbye_def split: if_splits)
  obtain t where "closeall_pending n e c (JKeyword ''error'') (JString ''D-Bus connection error'') s = (Inr (), t)"
    "queue_is c t []" "pend t = pend s" "trace t = trace s @ told s tuple ps"
    "slots t = (\<lambda>a. if Some a \<in> slot_of s ` set ps then None else slots s a)"
    "conns t = (conns s)(c := (conns s c)\<lparr>cqueue := None\<rparr>)" "asyncs t = asyncs s" "fibers t = fibers s" "callbacks t = callbacks s" "next_id t = next_id s"
    using closeall_run [OF assms(1,3-6), of "JKeyword ''error''" "JString ''D-Bus connection error''"] bye ev
    by (auto simp: goodbye_def)
  then show ?thesis
    using ev fib bye by (auto simp: bus_callback_def bnd_apply CANCEL_LISTENER_def goodbye_def Let_def)
qed

lemma janet_poll_run:
  assumes "fst (sys_malloc e (ext s))"
  shows "\<exists>w. janet_poll e c fd flags cb s = (Inr (next_id s), s\<lparr>ext := w,
    streams := (streams s)(next_id s := \<lparr>s_handle = fd, s_flags = flags\<rparr>),
    fibers := (fibers s)(Suc (next_id s) := c), callbacks := (callbacks s)(Suc (next_id s) := cb), next_id := Suc (Suc (next_id s)),
    trace := trace s @ [AsyncStart (Suc (next_id s)) (next_id s)]\<rparr>)"
  using assms
  by (intro exI [of _ "snd (sys_malloc e (ext s))"])
    (simp add: janet_poll_def janet_stream_def fresh_def bnd_apply janet_malloc_def)

text \<open>
  A connection is put into the event loop with two new streams, one on the timer descriptor and one
  on the bus descriptor that Janet must not close, each with a listener fiber that knows the connection.
\<close>

lemma init_async_run:
  assumes "sys_timerfd_create e (ext s) = (tfd, w1)" and "tfd \<noteq> - 1" and "\<forall>w. fst (sys_malloc e w)"
    and "\<forall>w. fst (sd_get_fd e (cbus (conns s c)) w) = fd" and "0 \<le> fd"
    and "\<forall>w. fst (sd_get_events e (cbus (conns s c)) w) = ev" and "0 \<le> ev"
  shows "\<exists>t. init_async e c s = (Inr (), t)
    \<and> conns t = (conns s)(c := (conns s c)\<lparr>ctimer := Some (next_id s), cbus_stream := Some (next_id s + 2)\<rparr>)
    \<and> streams t (next_id s) = \<lparr>s_handle = tfd, s_flags = {StreamReadable}\<rparr>
    \<and> streams t (next_id s + 2) = \<lparr>s_handle = fd, s_flags = poll_flags ev \<union> {StreamNotCloseable}\<rparr>
    \<and> fibers t (next_id s + 1) = c \<and> fibers t (next_id s + 3) = c
    \<and> callbacks t (next_id s + 1) = TimerCallback \<and> callbacks t (next_id s + 3) = BusCallback
    \<and> trace t = trace s @ [AsyncStart (next_id s + 1) (next_id s), AsyncStart (next_id s + 3) (next_id s + 2)]"
proof -
  obtain w2 where poll: "janet_poll e c tfd {StreamReadable} TimerCallback (s\<lparr>ext := w1\<rparr>) = (Inr (next_id s), s\<lparr>ext := w2,
      streams := (streams s)(next_id s := \<lparr>s_handle = tfd, s_flags = {StreamReadable}\<rparr>),
      fibers := (fibers s)(Suc (next_id s) := c), callbacks := (callbacks s)(Suc (next_id s) := TimerCallback),
      next_id := Suc (Suc (next_id s)), trace := trace s @ [AsyncStart (Suc (next_id s)) (next_id s)]\<rparr>)" (is "_ = (_, ?s2)")
    using janet_poll_run [of e "s\<lparr>ext := w1\<rparr>" c tfd "{StreamReadable}" TimerCallback] assms(3) by auto
  let ?s3 = "?s2\<lparr>conns := (conns s)(c := (conns s c)\<lparr>ctimer := Some (next_id s)\<rparr>)\<rparr>"
  obtain w3 where fd: "sd_get_fd e (cbus (conns s c)) w2 = (fd, w3)" using assms(4) by (metis prod.collapse)
  obtain w4 where ev: "sd_get_events e (cbus (conns s c)) w3 = (ev, w4)" using assms(6) by (metis prod.collapse)
  obtain w5 where poll2: "janet_poll e c fd (poll_flags ev \<union> {StreamNotCloseable}) BusCallback (?s3\<lparr>ext := w4\<rparr>) =
      (Inr (next_id ?s3), ?s3\<lparr>ext := w5,
      streams := (streams ?s3)(next_id ?s3 := \<lparr>s_handle = fd, s_flags = poll_flags ev \<union> {StreamNotCloseable}\<rparr>),
      fibers := (fibers ?s3)(Suc (next_id ?s3) := c), callbacks := (callbacks ?s3)(Suc (next_id ?s3) := BusCallback),
      next_id := Suc (Suc (next_id ?s3)), trace := trace ?s3 @ [AsyncStart (Suc (next_id ?s3)) (next_id ?s3)]\<rparr>)"
    using janet_poll_run [of e "?s3\<lparr>ext := w4\<rparr>" c fd "poll_flags ev \<union> {StreamNotCloseable}" BusCallback] assms(3) by auto
  show ?thesis
    using assms(1,2,5,7) poll fd ev poll2
    by (simp add: init_async_def bnd_apply getevents_def poll_flags_def [symmetric] Un_commute fun_upd_twist)
qed

end
