(* ===== verification/Async_Claims.thy ===== *)
theory Async_Claims
  imports Async_Spec
begin

text \<open>
  The properties of \<open>src/async.c\<close>. The examples use a bus with a number of messages that no
  handler wants, and the connection at address 0 with its streams at 1 and 2.
\<close>

definition bus_env :: "64 word \<Rightarrow> nat env" where
  "bus_env usec = base_env\<lparr>
     sd_process := \<lambda>_ w. (case w of 0 \<Rightarrow> Done 0 0 | Suc k \<Rightarrow> Done 1 k),
     sd_get_events := \<lambda>_ w. (5, w), sd_get_timeout := \<lambda>_ w. ((1, usec), w)\<rparr>"

definition bus_world :: "nat \<Rightarrow> nat world" where
  "bus_world k = (base_world k)\<lparr>conns := \<lambda>_.
     \<lparr>cbus = Some 1, cbus_stream = Some 1, ctimer = Some 2, cqueue = None\<rparr>, next_id := 10\<rparr>"

lemma bus_process: "sd_bus_process (bus_env u) 0 (bus_world 0) = (Inr 0, bus_world 0)"
  "sd_bus_process (bus_env u) 0 (bus_world (Suc k)) = (Inr 1, bus_world k)"
  by (simp_all add: sd_bus_process_def bus_env_def bus_world_def calls_back_def bnd_apply base_world_def)

lemma bus_dispatches: "dispatches (bus_env u) 0 k 0 (bus_world k) (bus_world 0)"
  by (induction k) (auto intro: stops a_message bus_process simp: bus_process)

subsection \<open>Processing\<close>

text \<open>C15: \<open>process_bus\<close> dispatches messages until the bus is quiet, however many there are: when
  \<open>k\<close> messages are waiting and the next timeout is not immediate, it returns with every fuel above
  \<open>k + 1\<close>, the listener waits for exactly the events sd-bus asks for, and the timer is set.\<close>

theorem process_bus_returns:
  assumes "dispatches e c k 0 s t" and "k + 2 \<le> n"
    and "cbus_stream (conns t c) = Some a" and "ctimer (conns t c) = Some d"
    and "sd_get_events e (cbus (conns t c)) (ext t) = (ev, w1)" and "0 \<le> ev"
    and "sd_get_timeout e (cbus (conns t c)) w1 = ((rv, usec), w2)" and "0 \<le> rv" and "usec \<noteq> 0"
    and "sys_timerfd_settime e (s_handle (streams t d)) (fst (timer_value usec)) (snd (timer_value usec)) w2 = (r, w3)"
    and "r \<noteq> - 1"
  shows "process_bus n e c s = (Inr (), (with_flags a (poll_flags ev) (t\<lparr>ext := w1\<rparr>))\<lparr>ext := w3\<rparr>)"
proof -
  let ?t = "with_flags a (poll_flags ev) (t\<lparr>ext := w1\<rparr>)"
  obtain m where n: "n - 1 = Suc m" using assms(2) by (cases "n - 1") auto
  have "process_bus n e c s = settimeout (Suc m) e c ?t"
    using process_bus_run [OF assms(1) _ assms(3,5,6), of n] assms(2) n by simp
  also have "\<dots> = arm_timer e c usec (?t\<lparr>ext := w2\<rparr>)"
    by (rule settimeout_arm) (use assms(7-9) in simp_all)
  also have "\<dots> = (Inr (), (?t\<lparr>ext := w2\<rparr>)\<lparr>ext := w3\<rparr>)"
    by (rule arm_timer_run) (use assms(4,10,11) in simp_all)
  finally show ?thesis by simp
qed

theorem process_bus_returns_witness:
  "\<exists>t. process_bus 4 (bus_env 2500000) 0 (bus_world 2) = (Inr (), t)
    \<and> s_flags (streams t 1) = {StreamReadable, StreamWritable} \<and> ext t = 0"
  using process_bus_returns [OF bus_dispatches [of 2500000 2], of 4 1 2 5 0 1 2500000 0 0 0]
  by (auto simp: bus_world_def base_world_def bus_env_def base_env_def with_flags_def poll_flags_def
      POLLIN_def POLLOUT_def)

text \<open>C35: \<open>process_bus\<close> dispatches until \<open>sd_bus_process\<close> stops, and only then looks at the result: after
  an error it panics in the state in which the error occurred, with neither the listener nor the
  timer touched. Conversely every run that gets past the loop has dispatched a definite number
  of messages, the same for every fuel.\<close>

theorem process_bus_stops:
  "(dispatches e c k rv s t \<and> rv < 0 \<and> k < n \<longrightarrow>
      process_bus n e c s = (Inl (Panicf ''failed to call sd_bus_process: %s'' [PInt (- rv)]), t))
   \<and> (process_bus n e c s = (Inr (), u) \<longrightarrow>
      (\<exists>j < n. \<exists>t'. dispatches e c j 0 s t' \<and> (\<forall>i rv' u'. dispatches e c i rv' s u' \<longrightarrow> i = j \<and> rv' = 0 \<and> u' = t')))"
proof (intro conjI impI)
  assume "dispatches e c k rv s t \<and> rv < 0 \<and> k < n"
  then have "process_loop n e c s = (Inr rv, t)" "rv < 0" "0 < n"
    using process_loop_dispatches [of e c k rv s t n] by auto
  then show "process_bus n e c s = (Inl (Panicf ''failed to call sd_bus_process: %s'' [PInt (- rv)]), t)"
    by (cases n) (simp_all add: bnd_apply)
next
  assume run: "process_bus n e c s = (Inr (), u)"
  then obtain m where n: "n = Suc m" by (cases n) auto
  obtain rv t where loop: "process_loop n e c s = (Inr rv, t)" "\<not> rv < 0"
    using run unfolding n by (auto simp: bnd_eq_Inr split: if_splits)
  obtain j where j: "j < n" "dispatches e c j rv s t" using dispatches_process_loop [OF loop(1)] by blast
  then have "rv = 0" using dispatches_result [OF j(2)] loop(2) by simp
  then show "\<exists>j < n. \<exists>t'. dispatches e c j 0 s t' \<and>
      (\<forall>i rv' u'. dispatches e c i rv' s u' \<longrightarrow> i = j \<and> rv' = 0 \<and> u' = t')"
    using j dispatches_unique by blast
qed

definition broken_env :: "unit env" where
  "broken_env = base_env\<lparr>sd_process := \<lambda>_ w. Done (- 104) w\<rparr>"

theorem process_bus_stops_witness:
  "process_bus 3 broken_env 0 (base_world ())
     = (Inl (Panicf ''failed to call sd_bus_process: %s'' [PInt 104]), base_world ())"
proof -
  have "dispatches broken_env 0 0 (- 104) (base_world ()) (base_world ())"
    by (rule stops) (simp_all add: sd_bus_process_def calls_back_def bnd_apply broken_env_def base_world_def)
  then show ?thesis using process_bus_stops [of broken_env 0 0 "- 104" "base_world ()" "base_world ()" 3] by auto
qed

text \<open>C36: The timer is set to exactly the absolute time sd-bus asks for, in seconds and
  nanoseconds, without overflow; an infinite timeout disarms it, and no other does.\<close>

theorem timer_value_correct:
  "(usec \<noteq> UINT64_MAX \<longrightarrow>
      unat (fst (timer_value usec)) * 1000000 + unat (snd (timer_value usec)) div 1000 = unat usec
      \<and> unat (snd (timer_value usec)) < 1000000000 \<and> 1000 dvd unat (snd (timer_value usec)))
   \<and> timer_value UINT64_MAX = (0, 0)
   \<and> (timer_value usec = (0, 0) \<longrightarrow> usec = 0 \<or> usec = UINT64_MAX)"
  using timer_value_exact [of usec] timer_value_armed [of usec]
  by (auto simp: timer_value_def mod_eq_0_iff_dvd split: if_splits)

theorem timer_value_correct_witness:
  "unat (fst (timer_value 2500000)) * 1000000 + unat (snd (timer_value 2500000)) div 1000 = 2500000"
  using timer_value_correct [of 2500000] by (simp add: UINT64_MAX_def)

text \<open>\<open>setevents\<close> makes the stream readable exactly when sd-bus polls for input and writable
  exactly when it polls for output, keeps the stream's other flags and every other stream, and
  registers the change with the event loop.\<close>

lemma setevents_correct:
  assumes "cbus_stream (conns s c) = Some a" and "sd_get_events e (cbus (conns s c)) (ext s) = (ev, w)" and "0 \<le> ev"
  shows "\<exists>t. setevents e c s = (Inr (), t)
    \<and> (StreamReadable \<in> s_flags (streams t a) \<longleftrightarrow> bit ev 0)
    \<and> (StreamWritable \<in> s_flags (streams t a) \<longleftrightarrow> bit ev 2)
    \<and> s_flags (streams t a) - {StreamReadable, StreamWritable} = s_flags (streams s a) - {StreamReadable, StreamWritable}
    \<and> (\<forall>b. b \<noteq> a \<longrightarrow> streams t b = streams s b) \<and> trace t = trace s @ [EdgeTriggered a]"
proof -
  have "ev AND 1 \<noteq> 0 \<longleftrightarrow> bit ev 0" by (simp add: and_one_eq bit_0 odd_iff_mod_2_eq_one)
  moreover have "ev AND 4 \<noteq> 0 \<longleftrightarrow> bit ev 2"
    using and_exp_eq_0_iff_not_bit [of ev 2] by simp
  ultimately show ?thesis
    using setevents_run [OF assms]
    by (auto simp: with_flags_def poll_flags_def POLLIN_def POLLOUT_def)
qed

subsection \<open>The end of a connection\<close>

text \<open>C12: When the connection is closed, hung up or broken, and none of the channels of the pending calls
  and matches was closed and the bus still holds their slots, every one of them receives exactly
  one tuple, \<open>:close\<close> or \<open>:error\<close>, the most recent first; their slots are released, the queue is
  empty, and the listener fiber is ended or cancelled last. The fuel needed is the length of the
  queue.\<close>

theorem connection_end_told:
  assumes "unref_law e held" and "fibers s fiber = c" and "queue_is c s ps" and "length ps \<le> n"
    and "bus_holds held s ps"
    and "\<forall>p \<in> set ps. slot_of s p \<noteq> None \<and> (\<forall>w. \<not> janet_channel_closed e (chan_of s p) w)"
    and "goodbye fiber ev = Some (tuple, evs)"
  shows "\<exists>t. bus_callback n e fiber ev s = (Inr (), t) \<and> queue_is c t []
    \<and> trace t = trace s @ map (\<lambda>p. Give (chan_of s p) tuple) ps @ evs
    \<and> (\<forall>p \<in> set ps. \<forall>a. slot_of s p = Some a \<longrightarrow> slots t a = None) \<and> pend t = pend s"
  using bus_callback_ends [OF assms] by (force simp: told_def)

text \<open>Two pending calls at 10 and 12, with channels 5 and 7.\<close>

definition pending_world :: "unit world" where
  "pending_world = (base_world ())\<lparr>
     conns := \<lambda>_. \<lparr>cbus = Some 1, cbus_stream = Some 1, ctimer = Some 2, cqueue = Some 10\<rparr>,
     pend := [10 \<mapsto> \<lparr>pslot = Some 6, pchan = 5, pnext = Some 12, pprev = None, pkind = Call\<rparr>,
              12 \<mapsto> \<lparr>pslot = Some 8, pchan = 7, pnext = None, pprev = Some 10, pkind = Match\<rparr>],
     slots := \<lambda>a. Some (a + 100), next_id := 30\<rparr>"

lemma pending_world_queue: "queue_is 0 pending_world [10, 12]"
  "chan_of pending_world 10 = 5" "chan_of pending_world 12 = 7"
  "slot_of pending_world 10 = Some 6" "slot_of pending_world 12 = Some 8"
  "fibers pending_world f = 0" "trace pending_world = []"
  by (simp_all add: pending_world_def queue_is_def chan_of_def slot_of_def base_world_def)

text \<open>The bus holds every slot: \<open>base_env\<close> never destroys one.\<close>

lemma base_unref: "unref_law base_env (\<lambda>_ _. True)" "\<not> janet_channel_closed base_env ch w"
  "bus_holds (\<lambda>_ _. True) s ps"
  by (simp_all add: unref_law_def base_env_def bus_holds_def)

theorem connection_end_told_witness:
  "\<exists>t. bus_callback 2 base_env 3 EvHup pending_world = (Inr (), t) \<and> queue_is 0 t [] \<and> trace t =
     [Give 5 (JTuple [JKeyword ''error'', JString ''D-Bus connection error'']),
      Give 7 (JTuple [JKeyword ''error'', JString ''D-Bus connection error'']),
      Cancel 3 (JString ''D-Bus connection error''), AsyncEnd 3]"
  using connection_end_told [OF base_unref(1) pending_world_queue(6,1) _ base_unref(3), where n = 2 and ev = EvHup]
  by (auto simp: goodbye_def pending_world_queue base_unref)

text \<open>C25: If one of the channels was closed, \<open>closeall_pending\<close> panics there: the calls behind it in
  the queue are never told, and all of them stay in the queue.\<close>

theorem closed_channel_stops_closing:
  assumes "unref_law e held" and "queue_is c s (ps @ p # qs)" and "length ps < n" and "bus_holds held s ps"
    and "\<forall>p \<in> set ps. slot_of s p \<noteq> None \<and> (\<forall>w. \<not> janet_channel_closed e (chan_of s p) w)"
    and "\<forall>w. janet_channel_closed e (chan_of s p) w"
  shows "\<exists>t. closeall_pending n e c status msg s = (Inl (Panicf ''cannot write to closed channel'' []), t)
    \<and> queue_is c t (ps @ p # qs)
    \<and> trace t = trace s @ map (\<lambda>p. Give (chan_of s p) (JTuple [status, msg])) ps"
  using closeall_closed_channel [OF assms] by (simp add: told_def)

definition no_chan5 :: "unit env" where
  "no_chan5 = base_env\<lparr>janet_channel_closed := \<lambda>ch _. ch = 5\<rparr>"

theorem closed_channel_stops_closing_witness:
  "\<exists>t. closeall_pending 2 no_chan5 0 JNil JNil pending_world
      = (Inl (Panicf ''cannot write to closed channel'' []), t) \<and> queue_is 0 t [10, 12] \<and> trace t = []"
  using closed_channel_stops_closing [of no_chan5 "\<lambda>_ _. True" 0 pending_world "[]" 10 "[12]" 2 JNil JNil]
  by (simp add: pending_world_queue no_chan5_def unref_law_def bus_holds_def base_env_def)

end
