(* ===== verification/Export_Spec.thy ===== *)
theory Export_Spec
  imports Export
begin

text \<open>
  What an exported interface promises. A \<open>member\<close> is the description of a method, property or signal
  that \<open>sdbus/method\<close> and its relatives build, \<open>describes x m\<close> says that the dictionary \<open>x\<close> has the
  fields of \<open>m\<close>, and \<open>vtable_for\<close> is the table sd-bus should be given. Flags are specified bit by bit.
\<close>

subsection \<open>Flags\<close>

text \<open>The bit of \<open>sd-bus-vtable.h\<close> that each character stands for; \<open>w\<close> stands for none.\<close>

definition flag_table :: "(char \<times> nat) list" where
  "flag_table = [(CHR ''d'', 0), (CHR ''h'', 1), (CHR ''n'', 3), (CHR ''r'', 4), (CHR ''e'', 5),
     (CHR ''i'', 6), (CHR ''x'', 7), (CHR ''s'', 8)]"

definition known_flags :: "string \<Rightarrow> bool" where
  "known_flags keys \<longleftrightarrow> set keys \<subseteq> set ''dhsnreixw''"

lemmas sd_bus_vtable_flags =
  SD_BUS_VTABLE_DEPRECATED_def SD_BUS_VTABLE_HIDDEN_def SD_BUS_VTABLE_METHOD_NO_REPLY_def
  SD_BUS_VTABLE_PROPERTY_CONST_def SD_BUS_VTABLE_PROPERTY_EMITS_CHANGE_def
  SD_BUS_VTABLE_PROPERTY_EMITS_INVALIDATION_def SD_BUS_VTABLE_PROPERTY_EXPLICIT_def SD_BUS_VTABLE_SENSITIVE_def

lemma flag_bit_known: "flag_bit c \<noteq> None \<longleftrightarrow> c \<in> set ''dhsnreixw''"
  by (auto simp: flag_bit_def)

lemma bit_flag: "k < 64 \<Longrightarrow> bit ((2::64 word) ^ k) n \<longleftrightarrow> n = k"
  by (auto simp: bit_exp_iff possible_bit_def)

lemma flag_bit_table: "flag_bit c = Some x \<Longrightarrow> bit x n \<longleftrightarrow> (c, n) \<in> set flag_table"
  using bit_flag [of 0 n] bit_flag [of 1 n] bit_flag [of 3 n] bit_flag [of 4 n] bit_flag [of 5 n]
    bit_flag [of 6 n] bit_flag [of 7 n] bit_flag [of 8 n]
  by (auto simp: flag_bit_def flag_table_def sd_bus_vtable_flags split: if_splits)

lemma flags_loop_bits:
  "known_flags keys \<Longrightarrow> \<exists>m. flags_loop b keys = Inr m
    \<and> (\<forall>n. bit m n \<longleftrightarrow> bit b n \<or> (\<exists>c \<in> set keys. (c, n) \<in> set flag_table))"
proof (induction keys arbitrary: b)
  case (Cons c cs)
  have "flag_bit c \<noteq> None" using Cons.prems unfolding flag_bit_known by (auto simp: known_flags_def)
  then obtain x where x: "flag_bit c = Some x" by auto
  have "known_flags cs" using Cons.prems by (simp add: known_flags_def)
  then obtain m where "flags_loop (b OR x) cs = Inr m"
    "\<forall>n. bit m n \<longleftrightarrow> bit (b OR x) n \<or> (\<exists>c \<in> set cs. (c, n) \<in> set flag_table)"
    using Cons.IH by blast
  then show ?case using x flag_bit_table [OF x] by (auto simp: bit_or_iff)
qed simp

lemma flags_loop_unknown:
  "known_flags pre \<Longrightarrow> c \<notin> set ''dhsnreixw'' \<Longrightarrow>
     flags_loop b (pre @ c # post) = Inl (Panicf ''Unknown export flag: %c'' [PChar c])"
proof (induction pre arbitrary: b)
  case Nil
  have "flag_bit c = None" using Nil(2) flag_bit_known [of c] by blast
  then show ?case by simp
next
  case (Cons d ds)
  have "flag_bit d \<noteq> None" using Cons.prems(1) unfolding flag_bit_known by (auto simp: known_flags_def)
  moreover have "known_flags ds" using Cons.prems(1) by (simp add: known_flags_def)
  ultimately show ?case using Cons.IH Cons.prems(2) by auto
qed

subsection \<open>Members\<close>

datatype member =
    Method string string nat string
  | Property string bool string
  | Signal string string

text \<open>The text of a string, symbol or keyword, and a field of a dictionary.\<close>

fun text_of :: "janet \<Rightarrow> string option" where
  "text_of (JString str) = Some str"
| "text_of (JSymbol str) = Some str"
| "text_of (JKeyword str) = Some str"
| "text_of _ = None"

definition field :: "janet \<Rightarrow> string \<Rightarrow> janet option" where
  "field x key = map_option (\<lambda>kvs. dictionary_get kvs (JKeyword key)) (dictionary_view x)"

definition text_field :: "janet \<Rightarrow> string \<Rightarrow> string option" where
  "text_field x key = Option.bind (field x key) text_of"

fun describes :: "janet \<Rightarrow> member \<Rightarrow> bool" where
  "describes x (Method inp out f keys) \<longleftrightarrow> field x ''type'' = Some (JSymbol ''method'')
     \<and> text_field x ''sig-in'' = Some inp \<and> text_field x ''sig-out'' = Some out
     \<and> field x ''function'' = Some (JFunction f) \<and> text_field x ''flags'' = Some keys"
| "describes x (Property sig writable keys) \<longleftrightarrow> field x ''type'' = Some (JSymbol ''property'')
     \<and> text_field x ''sig'' = Some sig \<and> field x ''writable'' = Some (JBoolean writable)
     \<and> text_field x ''flags'' = Some keys"
| "describes x (Signal sig keys) \<longleftrightarrow> field x ''type'' = Some (JSymbol ''signal'')
     \<and> text_field x ''sig'' = Some sig \<and> text_field x ''flags'' = Some keys"

fun flags_text :: "member \<Rightarrow> string" where
  "flags_text (Method _ _ _ keys) = keys"
| "flags_text (Property _ _ keys) = keys"
| "flags_text (Signal _ keys) = keys"

fun signatures :: "member \<Rightarrow> string" where
  "signatures (Method inp out _ _) = inp @ out"
| "signatures (Property sig _ _) = sig"
| "signatures (Signal sig _) = sig"

definition member_ok :: "member \<Rightarrow> bool" where
  "member_ok m \<longleftrightarrow> known_flags (flags_text m) \<and> NUL \<notin> set (signatures m)"

text \<open>The bits of the flags, and the entry of the table.\<close>

definition flag_bits :: "string \<Rightarrow> 64 word" where
  "flag_bits keys = (case sd_bus_flags keys of Inr m \<Rightarrow> m | Inl _ \<Rightarrow> 0)"

fun vtable_for :: "string \<Rightarrow> member \<Rightarrow> vtable_entry" where
  "vtable_for name (Method inp out f keys) = VMethod name inp out (flag_bits keys)"
| "vtable_for name (Property sig writable keys) =
     (if writable then VWritable name sig (CHR ''e'' \<in> set keys \<or> CHR ''i'' \<in> set keys) (flag_bits keys)
      else VProperty name sig (flag_bits keys))"
| "vtable_for name (Signal sig keys) = VSignal name sig (flag_bits keys)"

lemma known_flag_bits:
  "known_flags keys \<Longrightarrow> sd_bus_flags keys = Inr (flag_bits keys)"
  "known_flags keys \<Longrightarrow> bit (flag_bits keys) n \<longleftrightarrow> (\<exists>c \<in> set keys. (c, n) \<in> set flag_table)"
  using flags_loop_bits [of keys 0] by (auto simp: flag_bits_def sd_bus_flags_def)

lemma word_nonzero_bit: "(w :: 64 word) \<noteq> 0 \<longleftrightarrow> (\<exists>n. bit w n)"
proof
  assume "w \<noteq> 0"
  then obtain n where "bit w n \<noteq> bit (0 :: 64 word) n" using bit_eqI [of w 0] by blast
  then show "\<exists>n. bit w n" by auto
qed auto

lemma emits_bits:
  assumes "known_flags keys"
  shows "flag_bits keys AND (SD_BUS_VTABLE_PROPERTY_EMITS_CHANGE OR SD_BUS_VTABLE_PROPERTY_EMITS_INVALIDATION) \<noteq> 0
    \<longleftrightarrow> CHR ''e'' \<in> set keys \<or> CHR ''i'' \<in> set keys"
proof -
  have "bit (SD_BUS_VTABLE_PROPERTY_EMITS_CHANGE OR SD_BUS_VTABLE_PROPERTY_EMITS_INVALIDATION) n
      \<longleftrightarrow> n = 5 \<or> n = 6" for n
    unfolding bit_or_iff sd_bus_vtable_flags using bit_flag [of 5 n] bit_flag [of 6 n] by simp
  moreover have "(c, 5) \<in> set flag_table \<longleftrightarrow> c = CHR ''e''" "(c, 6) \<in> set flag_table \<longleftrightarrow> c = CHR ''i''" for c
    by (auto simp: flag_table_def)
  ultimately show ?thesis
    unfolding word_nonzero_bit bit_and_iff known_flag_bits(2) [OF assms] by metis
qed

lemma dict_symget_field: "field x key = Some v \<Longrightarrow> v \<noteq> JNil \<Longrightarrow> dict_symget x key = ret v"
  by (auto simp: field_def dict_symget_def view_of_def guard_def)

lemma dict_symget_text:
  assumes "text_field x key = Some str"
  shows "\<exists>v. (dict_symget x key :: ('w, janet) prog) = ret v \<and> (unwrap_string v :: ('w, string) prog) = ret str
    \<and> (cstr v :: ('w, string) prog) = ret (takeWhile (\<lambda>ch. ch \<noteq> NUL) str)"
proof -
  obtain v where v: "field x key = Some v" "text_of v = Some str"
    using assms by (auto simp: text_field_def bind_eq_Some_conv)
  have u: "(unwrap_string v :: ('w, string) prog) = ret str" using v(2) by (cases v) (simp_all add: unwrap_string_def)
  have "v \<noteq> JNil" using v(2) by auto
  then have "(dict_symget x key :: ('w, janet) prog) = ret v" using v(1) dict_symget_field by blast
  moreover have "(cstr v :: ('w, string) prog) = ret (takeWhile (\<lambda>ch. ch \<noteq> NUL) str)"
    by (rule ext) (simp add: cstr_def u)
  ultimately show ?thesis using u by blast
qed

lemma cstr_whole: "NUL \<notin> set str \<Longrightarrow> takeWhile (\<lambda>ch. ch \<noteq> NUL) str = str"
  by (auto simp: takeWhile_eq_all_conv)

lemma flags_of_text:
  assumes "text_field x ''flags'' = Some keys" "known_flags keys"
  shows "(flags_of x :: ('w, 64 word) prog) = ret (flag_bits keys)"
proof -
  obtain v where v: "(dict_symget x ''flags'' :: ('w, janet) prog) = ret v" "(unwrap_string v :: ('w, string) prog) = ret keys"
    using dict_symget_text [OF assms(1)] by blast
  show ?thesis
    unfolding flags_of_def v(1) bnd_ret v(2) known_flag_bits(1) [OF assms(2)] by (simp add: lift_def ret_def)
qed

lemma bnd_Pair [simp]: "bnd (Pair (Inr x)) f = f x"
  by (simp add: bnd_def)

text \<open>A well-formed member becomes its entry.\<close>

lemma member_entry:
  assumes d: "describes x m" and ok: "member_ok m"
  shows "(case m of Method _ _ _ _ \<Rightarrow> create_vtable_method name x | Property _ _ _ \<Rightarrow> create_vtable_property name x
      | Signal _ _ \<Rightarrow> create_vtable_signal name x) = (ret (vtable_for name m) :: ('w, vtable_entry) prog)"
proof (cases m)
  case (Method inp out f keys)
  obtain v where v: "(dict_symget x ''sig-in'' :: ('w, janet) prog) = ret v"
      "(cstr v :: ('w, string) prog) = ret (takeWhile (\<lambda>ch. ch \<noteq> NUL) inp)"
    using d dict_symget_text [of x "''sig-in''" inp] Method by auto
  obtain v' where v': "(dict_symget x ''sig-out'' :: ('w, janet) prog) = ret v'"
      "(cstr v' :: ('w, string) prog) = ret (takeWhile (\<lambda>ch. ch \<noteq> NUL) out)"
    using d dict_symget_text [of x "''sig-out''" out] Method by auto
  have f: "(dict_symget x ''function'' :: ('w, janet) prog) = ret (JFunction f)"
    using d Method by (intro dict_symget_field) auto
  have fl: "(flags_of x :: ('w, 64 word) prog) = ret (flag_bits keys)"
    using d ok Method by (intro flags_of_text) (auto simp: member_ok_def)
  show ?thesis
    using ok Method by (intro ext) (simp add: create_vtable_method_def v v' f fl member_ok_def cstr_whole guard_def)
next
  case (Property sig writable keys)
  obtain v where v: "(dict_symget x ''sig'' :: ('w, janet) prog) = ret v"
      "(cstr v :: ('w, string) prog) = ret (takeWhile (\<lambda>ch. ch \<noteq> NUL) sig)"
    using d dict_symget_text [of x "''sig''" sig] Property by auto
  have w: "(dict_symget x ''writable'' :: ('w, janet) prog) = ret (JBoolean writable)"
    using d Property by (intro dict_symget_field) auto
  have known: "known_flags keys" using ok Property by (simp add: member_ok_def)
  have fl: "(flags_of x :: ('w, 64 word) prog) = ret (flag_bits keys)"
    using d known Property by (intro flags_of_text) auto
  show ?thesis
    using ok Property emits_bits [OF known]
    by (intro ext) (simp add: create_vtable_property_def v w fl member_ok_def cstr_whole unwrap_boolean_def)
next
  case (Signal sig keys)
  obtain v where v: "(dict_symget x ''sig'' :: ('w, janet) prog) = ret v"
      "(cstr v :: ('w, string) prog) = ret (takeWhile (\<lambda>ch. ch \<noteq> NUL) sig)"
    using d dict_symget_text [of x "''sig''" sig] Signal by auto
  have fl: "(flags_of x :: ('w, 64 word) prog) = ret (flag_bits keys)"
    using d ok Signal by (intro flags_of_text) (auto simp: member_ok_def)
  show ?thesis using ok Signal by (intro ext) (simp add: create_vtable_signal_def v fl member_ok_def cstr_whole)
qed

subsection \<open>The table\<close>

text \<open>An interface: valid names, each with a dictionary that describes a well-formed member.\<close>

definition interface_ok :: "'w env \<Rightarrow> (janet \<times> janet) list \<Rightarrow> (string \<times> member) list \<Rightarrow> bool" where
  "interface_ok e kvs ms \<longleftrightarrow> list_all2 (\<lambda>(k, x) (name, m).
     text_of k = Some name \<and> NUL \<notin> set name \<and> sd_member_name_is_valid e name \<noteq> 0 \<and> describes x m \<and> member_ok m) kvs ms"

lemma describes_type:
  "describes x m \<Longrightarrow> field x ''type'' = Some (JSymbol (case m of Method _ _ _ _ \<Rightarrow> ''method''
     | Property _ _ _ \<Rightarrow> ''property'' | Signal _ _ \<Rightarrow> ''signal''))"
  by (cases m) auto

lemma cstr_text: "text_of k = Some name \<Longrightarrow> NUL \<notin> set name \<Longrightarrow> cstr k = ret name"
  by (intro ext, cases k) (simp_all add: cstr_def unwrap_string_def cstr_whole)

text \<open>A table whose first entries are written.\<close>

definition filled :: "nat \<Rightarrow> vtable_entry list \<Rightarrow> vtable_entry option list" where
  "filled len xs = map Some xs @ replicate (len - length xs) None"

lemma filled_put: "length xs < len \<Longrightarrow> (filled len xs)[length xs := Some v] = filled len (xs @ [v])"
  by (cases "len - length xs") (auto simp: filled_def list_update_append Suc_diff_Suc [symmetric])

lemma length_filled [simp]: "length xs \<le> len \<Longrightarrow> length (filled len xs) = len"
  by (simp add: filled_def)

lemma fill_vtable_run:
  fixes e :: "'w env"
  shows "interface_ok e kvs ms \<Longrightarrow> length xs + length kvs < len \<Longrightarrow> xs \<noteq> [] \<Longrightarrow>
    fill_vtable e len (length xs - 1) (filled len xs) kvs
      = ret (filled len (xs @ map (\<lambda>(name, m). vtable_for name m) ms))"
proof (induction kvs arbitrary: xs ms)
  case Nil
  then show ?case by (simp add: interface_ok_def)
next
  case (Cons kv kvs)
  obtain k x where kv: "kv = (k, x)" by (cases kv)
  obtain name m ms' where ms: "ms = (name, m) # ms'" and k: "text_of k = Some name" "NUL \<notin> set name"
    "sd_member_name_is_valid e name \<noteq> 0" and m: "describes x m" "member_ok m" and rest: "interface_ok e kvs ms'"
    using Cons.prems(1) kv by (auto simp: interface_ok_def list_all2_Cons1)
  have type: "(dict_symget x ''type'' :: ('w, janet) prog) = ret (JSymbol (case m of Method _ _ _ _ \<Rightarrow> ''method''
     | Property _ _ _ \<Rightarrow> ''property'' | Signal _ _ \<Rightarrow> ''signal''))"
    using describes_type [OF m(1)] by (intro dict_symget_field) auto
  have room: "\<not> len - 1 \<le> length xs - 1" "Suc (length xs - 1) = length xs" "length xs < len"
    using Cons.prems(2,3) by (cases xs, simp_all)+
  note entry = member_entry [OF m, of name, where 'w = 'w]
  have "fill_vtable e len (length xs - 1) (filled len xs) (kv # kvs)
      = fill_vtable e len (length xs) (filled len (xs @ [vtable_for name m])) kvs"
    using k kv room entry
    by (intro ext, cases m) (simp_all add: guard_def cstr_text type put_entry_def filled_put)
  then show ?case using Cons.IH [OF rest, of "xs @ [vtable_for name m]"] Cons.prems(2) ms by simp
qed

lemma create_vtable_run:
  assumes "interface_ok e kvs ms" and "sys_malloc e (ext s) = (True, w)"
  shows "create_vtable e (length kvs + 2) kvs s =
    (Inr (map Some (VStart # map (\<lambda>(name, m). vtable_for name m) ms @ [VEnd])), s\<lparr>ext := w\<rparr>)"
proof -
  let ?len = "length kvs + 2" and ?vs = "map (\<lambda>(name, m). vtable_for name m) ms"
  have ms: "length ms = length kvs" using assms(1) by (auto simp: interface_ok_def list_all2_lengthD)
  have start: "(replicate ?len None)[0 := Some VStart] = filled ?len [VStart]" by (simp add: filled_def)
  have fill: "fill_vtable e ?len 0 (filled ?len [VStart]) kvs = ret (filled ?len (VStart # ?vs))"
    using fill_vtable_run [OF assms(1), of "[VStart]" ?len] by simp
  have last: "(filled ?len (VStart # ?vs))[Suc (length kvs) := Some VEnd] = filled ?len (VStart # ?vs @ [VEnd])"
    using filled_put [of "VStart # ?vs" ?len VEnd] ms by simp
  have full: "filled ?len (VStart # ?vs @ [VEnd]) = map Some (VStart # ?vs @ [VEnd])"
    using ms by (simp add: filled_def)
  show ?thesis
    using assms(2) ms
    by (simp add: create_vtable_def put_entry_def guard_def start [simplified] fill [simplified]
        last [simplified] full [simplified] janet_malloc_def bnd_apply)
qed

text \<open>
  Whatever the dictionary: the loop never runs out of the table, and a table that is returned has no
  entry that was not written.
\<close>

definition too_many :: "panic \<Rightarrow> bool" where
  "too_many p \<longleftrightarrow> p = UB OutOfBounds \<or> (\<exists>xs. p = Panicf ''Too many members for D-Bus interface: %d'' xs)"

definition tame :: "('w, 'a) prog \<Rightarrow> bool" where
  "tame m \<longleftrightarrow> (\<forall>s. snd (m s) = s \<and> (\<forall>p. fst (m s) = Inl p \<longrightarrow> \<not> too_many p))"

lemma tame_bnd [intro]: "tame m \<Longrightarrow> (\<And>x. tame (f x)) \<Longrightarrow> tame (bnd m f)"
  unfolding tame_def by (auto simp: bnd_apply split: prod.split sum.split) (metis fst_conv snd_conv)+

lemma tame_simps [simp, intro]:
  "tame (ret x)" "tame (raise p) \<longleftrightarrow> \<not> too_many p" "tame (guard b p) \<longleftrightarrow> b \<or> \<not> too_many p"
  "tame (lift r) \<longleftrightarrow> (\<forall>p. r = Inl p \<longrightarrow> \<not> too_many p)"
  by (auto simp: tame_def guard_def)

lemma tame_view: "tame (view_of x)"
  by (auto simp: view_of_def too_many_def split: option.split)

lemma tame_symget: "tame (dict_symget x key)"
  unfolding dict_symget_def Let_def by (intro tame_bnd tame_view) (simp_all add: too_many_def)

lemma tame_unwrap: "tame (unwrap_string x)" "tame (cstr x)" "tame (unwrap_boolean x)"
proof -
  show "tame (unwrap_string x)" for x :: janet
    by (auto simp: unwrap_string_def too_many_def split: janet.split)
  then show "tame (cstr x)" unfolding cstr_def by auto
  show "tame (unwrap_boolean x)"
    by (auto simp: unwrap_boolean_def too_many_def split: janet.split)
qed

lemma tame_flags: "tame (flags_of x)"
proof -
  have "flags_loop b keys = Inl p \<Longrightarrow> \<not> too_many p" for b keys p
    by (induction b keys rule: flags_loop.induct) (auto simp: too_many_def split: option.splits)
  then show ?thesis
    unfolding flags_of_def sd_bus_flags_def by (intro tame_bnd tame_symget tame_unwrap) simp
qed

lemma tame_create:
  "tame (create_vtable_method name x)" "tame (create_vtable_property name x)" "tame (create_vtable_signal name x)"
  unfolding create_vtable_method_def create_vtable_property_def create_vtable_signal_def
  by (intro tame_bnd tame_symget tame_unwrap tame_flags tame_simps(1); simp add: too_many_def)+

definition create_entry :: "string \<Rightarrow> janet \<Rightarrow> janet \<Rightarrow> ('w, vtable_entry) prog" where
  "create_entry member type val =
     (if type = JSymbol ''method'' then create_vtable_method member val
      else if type = JSymbol ''property'' then create_vtable_property member val
      else if type = JSymbol ''signal'' then create_vtable_signal member val
      else bnd (cstr type) (\<lambda>str. raise (Panicf ''Unknown D-Bus member type: %s'' [PStr str])))"

lemma tame_entry: "tame (create_entry member type val)"
  unfolding create_entry_def by (auto intro!: tame_bnd tame_create tame_unwrap simp: too_many_def)

fun entry_name :: "vtable_entry \<Rightarrow> string option" where
  "entry_name (VMethod name _ _ _) = Some name"
| "entry_name (VProperty name _ _) = Some name"
| "entry_name (VWritable name _ _ _) = Some name"
| "entry_name (VSignal name _ _) = Some name"
| "entry_name _ = None"

lemma create_entry_name: "create_entry member type val s = (Inr v, t) \<Longrightarrow> entry_name v = Some member"
  by (auto simp: create_entry_def create_vtable_method_def create_vtable_property_def create_vtable_signal_def
      bnd_eq_Inr split: if_splits)

lemma tameD: "tame m \<Longrightarrow> m s = (r, t) \<Longrightarrow> t = s \<and> (\<forall>p. r = Inl p \<longrightarrow> \<not> too_many p)"
  unfolding tame_def by (metis fst_conv snd_conv)

lemma fill_vtable_Cons:
  assumes "xs \<noteq> []" and "Suc (length xs) < len"
  shows "fill_vtable e len (length xs - 1) (filled len xs) ((key, val) # kvs) =
     bnd (cstr key) (\<lambda>member.
     bnd (guard (sd_member_name_is_valid e member \<noteq> 0)
            (Panicf ''Invalid D-Bus member name: %s'' [PStr member])) (\<lambda>_.
     bnd (dict_symget val ''type'') (\<lambda>type.
     bnd (create_entry member type val) (\<lambda>v.
     fill_vtable e len (length xs) (filled len (xs @ [v])) kvs))))"
proof -
  have "\<not> len - 1 \<le> length xs - 1" "Suc (length xs - 1) = length xs" "length xs < len"
    using assms by (cases xs, simp_all)+
  then show ?thesis by (simp add: create_entry_def [symmetric] put_entry_def filled_put cong: if_cong)
qed

lemma fill_vtable_any:
  fixes e :: "'w env"
  shows "fill_vtable e len (length xs - 1) (filled len xs) kvs s = (r, t) \<Longrightarrow>
     length xs + length kvs < len \<Longrightarrow> xs \<noteq> [] \<Longrightarrow>
     t = s \<and> (case r of Inl p \<Rightarrow> \<not> too_many p
       | Inr v \<Rightarrow> (\<exists>ys. v = filled len (xs @ ys)
           \<and> list_all2 (\<lambda>(key, x) y. \<exists>name. cstr key s = (Inr name, s) \<and> entry_name y = Some name) kvs ys))"
proof (induction kvs arbitrary: xs)
  case Nil
  then show ?case by auto
next
  case (Cons kv kvs)
  obtain key val where kv: "kv = (key, val)" by (cases kv)
  note run = Cons.prems(1) [unfolded kv]
  have "Suc (length xs) < len" using Cons.prems(2) by simp
  note run = run [unfolded fill_vtable_Cons [OF Cons.prems(3) this]]
  obtain r1 t1 where r1: "cstr key s = (r1, t1)" by fastforce
  note w1 = tameD [OF tame_unwrap(2) r1]
  show ?case
  proof (cases r1)
    case (Inl p)
    then show ?thesis using run r1 w1 by (auto simp: bnd_apply)
  next
    case (Inr name)
    show ?thesis
    proof (cases "sd_member_name_is_valid e name \<noteq> 0")
      case False
      then show ?thesis using run r1 w1 Inr by (auto simp: bnd_apply guard_def too_many_def)
    next
      case True
      obtain r2 t2 where r2: "dict_symget val ''type'' s = (r2, t2)" by fastforce
      note w2 = tameD [OF tame_symget r2]
      show ?thesis
      proof (cases r2)
        case (Inl p)
        then show ?thesis using run r1 w1 r2 w2 Inr True by (auto simp: bnd_apply guard_def)
      next
        case type: (Inr type)
        obtain r3 t3 where r3: "create_entry name type val s = (r3, t3)" by fastforce
        note w3 = tameD [OF tame_entry r3]
        show ?thesis
        proof (cases r3)
          case (Inl p)
          then show ?thesis using run r1 w1 r2 w2 r3 w3 Inr True type by (auto simp: bnd_apply guard_def)
        next
          case v: (Inr v)
          have "fill_vtable e len (length (xs @ [v]) - 1) (filled len (xs @ [v])) kvs s = (r, t)"
            using run r1 w1 r2 w2 r3 w3 Inr True type v by (auto simp: bnd_apply guard_def)
          from Cons.IH [OF this] Cons.prems(2)
          have ih: "t = s" "case r of Inl p \<Rightarrow> \<not> too_many p
            | Inr u \<Rightarrow> (\<exists>ys. u = filled len ((xs @ [v]) @ ys)
               \<and> list_all2 (\<lambda>(key, x) y. \<exists>name. cstr key s = (Inr name, s) \<and> entry_name y = Some name) kvs ys)"
            by simp_all
          have "entry_name v = Some name" using create_entry_name r3 v by fastforce
          moreover have "cstr key s = (Inr name, s)" using r1 w1 Inr by simp
          ultimately have "list_all2 (\<lambda>(key, x) y. \<exists>name. cstr key s = (Inr name, s) \<and> entry_name y = Some name) (kv # kvs) (v # ys)"
            if "list_all2 (\<lambda>(key, x) y. \<exists>name. cstr key s = (Inr name, s) \<and> entry_name y = Some name) kvs ys" for ys
            using that kv by simp
          then show ?thesis using ih by (cases r) (fastforce simp del: list_all2_Cons)+
        qed
      qed
    qed
  qed
qed

lemma create_vtable_any:
  fixes e :: "'w env"
  assumes "create_vtable e (length kvs + 2) kvs s = (r, t)"
  shows "case r of Inl p \<Rightarrow> \<not> too_many p
    | Inr v \<Rightarrow> (\<exists>ys. v = map Some (VStart # ys @ [VEnd])
        \<and> list_all2 (\<lambda>(key, x) y. \<exists>name. cstr key s = (Inr name, s) \<and> entry_name y = Some name) kvs ys)"
proof -
  let ?len = "length kvs + 2"
  have start: "(replicate ?len None)[0 := Some VStart] = filled ?len [VStart]" by (simp add: filled_def)
  obtain r1 t1 where r1: "fill_vtable e ?len 0 (filled ?len [VStart]) kvs s = (r1, t1)" by fastforce
  then have "fill_vtable e ?len (length [VStart] - 1) (filled ?len [VStart]) kvs s = (r1, t1)" by simp
  note any = fill_vtable_any [OF this]
  have run: "create_vtable e ?len kvs s = bnd (fill_vtable e ?len 0 (filled ?len [VStart]) kvs) (\<lambda>vtable.
     bnd (put_entry vtable (Suc (length kvs)) VEnd) (\<lambda>vtable. bnd (janet_malloc e) (\<lambda>_. ret vtable))) s"
    by (simp add: create_vtable_def put_entry_def start [simplified])
  show ?thesis
  proof (cases r1)
    case (Inl p)
    then show ?thesis using any r1 assms run by (auto simp: bnd_apply)
  next
    case (Inr v)
    obtain ys where ys: "v = filled ?len (VStart # ys)" "t1 = s" "list_all2 (\<lambda>(key, x) y.
        \<exists>name. cstr key s = (Inr name, s) \<and> entry_name y = Some name) kvs ys"
      using any Inr by auto
    have len: "length ys = length kvs" using list_all2_lengthD [OF ys(3)] by simp
    have last: "(filled ?len (VStart # ys))[Suc (length kvs) := Some VEnd] = filled ?len (VStart # ys @ [VEnd])"
      using filled_put [of "VStart # ys" ?len VEnd] len by simp
    have full: "filled ?len (VStart # ys @ [VEnd]) = map Some (VStart # ys @ [VEnd])"
      using len by (simp add: filled_def)
    show ?thesis
      using assms run r1 Inr ys len last full
      by (auto simp: bnd_apply put_entry_def guard_def janet_malloc_def too_many_def split: prod.splits if_splits)
  qed
qed

end
