(* ===== verification/Export_Life.thy ===== *)
theory Export_Life
  imports Export_Spec "HOL-Library.Multiset"
begin

text \<open>
  The handlers of an exported interface and the life of an export, from \<open>cfun_export\<close> to
  \<open>destroy_export_callback\<close>. What Janet's collector must keep is compared as a multiset of roots.
\<close>

subsection \<open>Dispatch\<close>

text \<open>The state in which a handler calls Janet: the message object at \<open>obj\<close> is new and a root.\<close>

definition calling :: "ptr \<Rightarrow> 'w \<Rightarrow> 'w world \<Rightarrow> 'w world" where
  "calling m w s = s\<lparr>next_id := Suc (next_id s), ext := w, msgs := (msgs s)(next_id s := m),
     roots := JAbstract AbsMessage (next_id s) # roots s\<rparr>"

definition member_of :: "janet \<Rightarrow> string \<Rightarrow> janet option" where
  "member_of members name = field members name"

lemma member_ofD:
  assumes "member_of members name = Some entry"
  obtains kvs where "dictionary_view members = Some kvs" "dictionary_get kvs (JKeyword name) = entry"
  using assms by (auto simp: member_of_def field_def)

lemma pcall_apply: "pcall e f argv s = (let (r, t) = janet_pcall e f argv s in (Inr r, t))"
  by (simp add: pcall_def Let_def split: prod.split)

lemma method_handler_run:
  fixes e :: "'w env"
  assumes "exports s x = Some st" and "sd_get_member e msg (ext s) = Some name"
    and "member_of (xs_members st) name = Some entry" and "field entry ''function'' = Some (JFunction f)"
    and "sd_message_ref e msg (ext s) = (m, w)"
    and "janet_pcall e f [JAbstract AbsBus (xs_bus st), JAbstract AbsMessage (next_id s)] (calling m w s) = ((failed, out), t)"
  shows "method_handler e x msg s =
    (Inr (if failed then error_reply e ''internal method error: '' out else (1, None)),
     t\<lparr>roots := remove1 (JAbstract AbsMessage (next_id s)) (roots t)\<rparr>)"
proof -
  obtain kvs where kvs: "dictionary_view (xs_members st) = Some kvs" "dictionary_get kvs (JKeyword name) = entry"
    using member_ofD [OF assms(3)] .
  have fn: "(dict_symget entry ''function'' :: ('w, janet) prog) = ret (JFunction f)" using assms(4) by (intro dict_symget_field) auto
  show ?thesis
    using assms kvs fn
    by (simp add: method_handler_def get_export_def view_of_def share_message_def fresh_def gcroot_def gcunroot_def
        unwrap_function_def pcall_apply bnd_apply calling_def)
qed

lemma property_core_run:
  fixes e :: "'w env"
  assumes "exports s x = Some st"
    and "member_of (xs_members st) name = Some prop" and "field prop method = Some (JFunction f)"
    and "sd_message_ref e msg (ext s) = (m, w)"
    and "janet_pcall e f [prop, JAbstract AbsMessage (next_id s)] (calling m w s) = ((failed, out), t)"
  shows "property_handler_core e name method msg x s =
    (Inr (if failed then error_reply e ''internal property error: '' out else (if out = JNil then 1 else 0, None)),
     t\<lparr>roots := remove1 (JAbstract AbsMessage (next_id s)) (roots t)\<rparr>)"
proof -
  obtain kvs where kvs: "dictionary_view (xs_members st) = Some kvs" "dictionary_get kvs (JKeyword name) = prop"
    using member_ofD [OF assms(2)] .
  have fn: "(dict_symget prop method :: ('w, janet) prog) = ret (JFunction f)" using assms(3) by (intro dict_symget_field) auto
  show ?thesis
    using assms kvs fn
    by (simp add: property_handler_core_def get_export_def view_of_def share_message_def fresh_def gcroot_def gcunroot_def
        unwrap_function_def pcall_apply bnd_apply calling_def)
qed

text \<open>
  A member that the dictionary has under a string or symbol, not under a keyword: the table has it,
  but the handler does not find it, and goes on with the \<open>nil\<close> it found.
\<close>

lemma method_handler_string_key:
  fixes e :: "'w env"
  assumes "exports s x = Some st" and "sd_get_member e msg (ext s) = Some name"
    and "dictionary_view (xs_members st) = Some kvs" and "JKeyword name \<notin> fst ` set kvs"
    and "sd_message_ref e msg (ext s) = (m, w)"
  shows "method_handler e x msg s = (Inl (UB Uninitialised), calling m w s)"
proof -
  have "dictionary_get kvs (JKeyword name) = JNil"
    using assms(4) by (auto simp: dictionary_get_def map_of_eq_None_iff [symmetric])
  then show ?thesis
    using assms
    by (simp add: method_handler_def get_export_def view_of_def share_message_def fresh_def gcroot_def dict_symget_def
        bnd_apply calling_def)
qed

subsection \<open>The life of an export\<close>

definition export_vtable :: "(string \<times> member) list \<Rightarrow> vtable_entry option list" where
  "export_vtable ms = map Some (VStart # map (\<lambda>(name, m). vtable_for name m) ms @ [VEnd])"

text \<open>Arguments that \<open>cfun_export\<close> accepts: an interface with the members \<open>ms\<close>, at least one.\<close>

definition export_args :: "'w env \<Rightarrow> nat \<Rightarrow> string \<Rightarrow> string \<Rightarrow> janet \<Rightarrow> (string \<times> member) list \<Rightarrow> janet list \<Rightarrow> bool" where
  "export_args e c path iface members ms argv \<longleftrightarrow>
     argv = [JAbstract AbsBus c, JString path, JString iface, members]
     \<and> janet_getcbytes e (JString path) = Inr path \<and> sd_object_path_is_valid e path \<noteq> 0
     \<and> janet_getcbytes e (JString iface) = Inr iface \<and> sd_interface_name_is_valid e iface \<noteq> 0
     \<and> ms \<noteq> [] \<and> (case dictionary_view members of Some kvs \<Rightarrow> interface_ok e kvs ms | None \<Rightarrow> False)"

definition after_mallocs :: "'w env \<Rightarrow> 'w \<Rightarrow> 'w" where
  "after_mallocs e w = snd (sys_malloc e (snd (sys_malloc e w)))"

lemma export_run:
  fixes e :: "'w env"
  assumes args: "export_args e c path iface members ms argv" and mem: "\<forall>w. fst (sys_malloc e w)"
    and reg: "sd_add_object_vtable e (cbus (conns s c)) path iface (export_vtable ms) (next_id s)
      (after_mallocs e (ext s)) = ((rv, sl), w)"
  shows "cfun_export e argv s =
    (if rv < 0 then
       (Inl (Panicf ''failed to register D-Bus interface: %s'' [PInt (- rv)]),
        s\<lparr>ext := snd (sd_slot_set_floating e None True w), next_id := Suc (Suc (next_id s)),
          slots := (slots s)(Suc (next_id s) := None), exports := (exports s)(next_id s := None)\<rparr>)
     else
       (Inr (JAbstract AbsSlot (Suc (next_id s))),
        s\<lparr>ext := snd (sd_slot_set_destroy e sl (DestroyExport (next_id s)) (snd (sd_slot_set_floating e sl True w))),
          next_id := Suc (Suc (next_id s)), slots := (slots s)(Suc (next_id s) := sl),
          exports := (exports s)(next_id s \<mapsto> \<lparr>xs_vtable = export_vtable ms, xs_bus = c, xs_members = members\<rparr>),
          roots := members # JAbstract AbsBus c # roots s\<rparr>))"
proof -
  obtain kvs where kvs: "dictionary_view members = Some kvs" "interface_ok e kvs ms"
    using args by (auto simp: export_args_def split: option.splits)
  have len: "length kvs = length ms" using kvs(2) list_all2_lengthD by (auto simp: interface_ok_def)
  have ne: "kvs \<noteq> []" using len args by (auto simp: export_args_def)
  obtain w1 where w1: "sys_malloc e (ext s) = (True, w1)" using mem by (metis (full_types) prod.collapse)
  obtain w2 where w2: "sys_malloc e w1 = (True, w2)" using mem by (metis (full_types) prod.collapse)
  have reg': "sd_add_object_vtable e (cbus (conns s c)) path iface (export_vtable ms) (next_id s) w2 = ((rv, sl), w)"
    using reg w1 w2 by (simp add: after_mallocs_def)
  have table: "create_vtable e (Suc (Suc (length kvs))) kvs s = (Inr (export_vtable ms), s\<lparr>ext := w1\<rparr>)"
    using create_vtable_run [OF kvs(2) w1] by (simp add: export_vtable_def)
  have dict: "members \<noteq> JAbstract AbsBus c" using kvs(1) by auto
  have argv: "argv = [JAbstract AbsBus c, JString path, JString iface, members]"
    "janet_getcbytes e (JString path) = Inr path" "sd_object_path_is_valid e path \<noteq> 0"
    "janet_getcbytes e (JString iface) = Inr iface" "sd_interface_name_is_valid e iface \<noteq> 0"
    using args by (auto simp: export_args_def)
  have getdict: "janet_getdictionary argv 3 s = (Inr kvs, s)"
    using kvs(1) by (simp add: janet_getdictionary_def bnd_apply argv(1))
  have get1: "janet_getcstring e argv (Suc 0) s = (Inr path, s)" "janet_getcstring e argv 2 s = (Inr iface, s)"
    using argv by (auto intro!: janet_getcstring_apply)
  show ?thesis
    using argv(1,3,5) getdict get1 ne table w2 reg' dict
    by (simp add: cfun_export_def bnd_apply init_export_state_def new_slot_def fresh_def gcroot_def gcunroot_def
        janet_malloc_def FREE_EXPORT_STATE_def get_export_def guard_def)
qed

lemma destroy_export_run:
  "exports s x = Some st \<Longrightarrow> destroy_export_callback x s =
     (Inr (), s\<lparr>roots := remove1 (xs_members st) (remove1 (JAbstract AbsBus (xs_bus st)) (roots s)),
        exports := (exports s)(x := None)\<rparr>)"
  by (simp add: destroy_export_callback_def FREE_EXPORT_STATE_def get_export_def gcunroot_def bnd_apply)

text \<open>Members under keywords, each once, as the entries of a Janet dictionary are.\<close>

definition keyword_keys :: "janet \<Rightarrow> bool" where
  "keyword_keys members \<longleftrightarrow> (case dictionary_view members of
      Some kvs \<Rightarrow> distinct (map fst kvs) \<and> list_all (\<lambda>(k, x). \<exists>name. k = JKeyword name) kvs
    | None \<Rightarrow> False)"

lemma interface_member:
  assumes "interface_ok e kvs ms" and "(name, m) \<in> set ms"
  shows "\<exists>k x. (k, x) \<in> set kvs \<and> text_of k = Some name \<and> describes x m"
proof -
  obtain i where i: "i < length ms" "ms ! i = (name, m)" using assms(2) by (auto simp: in_set_conv_nth)
  then have "case kvs ! i of (k, x) \<Rightarrow> text_of k = Some name \<and> describes x m"
    using assms(1) by (auto simp: interface_ok_def list_all2_conv_all_nth split: prod.splits)
  moreover have "kvs ! i \<in> set kvs" using i assms(1) list_all2_lengthD by (fastforce simp: interface_ok_def)
  ultimately show ?thesis by (cases "kvs ! i") auto
qed

lemma exported_member:
  assumes args: "export_args e c path iface members ms argv" and keys: "keyword_keys members"
    and m: "(name, m) \<in> set ms"
  shows "\<exists>x. member_of members name = Some x \<and> describes x m"
proof -
  obtain kvs where kvs: "dictionary_view members = Some kvs" "interface_ok e kvs ms"
    using args by (auto simp: export_args_def split: option.splits)
  obtain k x where x: "(k, x) \<in> set kvs" "text_of k = Some name" "describes x m"
    using interface_member [OF kvs(2) m] by blast
  have "\<exists>name. k = JKeyword name" using keys kvs(1) x(1) by (force simp: keyword_keys_def list_all_iff)
  then have k: "k = JKeyword name" using x(2) by auto
  have "map_of kvs k = Some x" using keys kvs(1) x(1) by (simp add: keyword_keys_def)
  then show ?thesis using k kvs(1) x(3) by (auto simp: member_of_def field_def dictionary_get_def)
qed

end
