(* ===== verification/Export_System.thy ===== *)
theory Export_System
  imports Export_Life Transition
begin

text \<open>
  Exports in any order: interfaces are exported and destroyed, and methods and properties run Janet
  code, which may do all of this again. \<open>export_step\<close> is one such operation of the program, \<open>export_run\<close>
  a sequence of them. The invariant is that whatever a living export points to is a root of Janet's
  collector.
\<close>

text \<open>What the living exports need, each its connection and its dictionary.\<close>

definition held :: "(nat \<Rightarrow> export_state option) \<Rightarrow> janet multiset" where
  "held ex = (\<Sum>x \<in> dom ex. {#JAbstract AbsBus (xs_bus (the (ex x))), xs_members (the (ex x))#})"

definition export_inv :: "'w world \<Rightarrow> bool" where
  "export_inv s \<longleftrightarrow> finite (dom (exports s)) \<and> (\<forall>x \<in> dom (exports s). x < next_id s)
     \<and> (\<forall>x st. exports s x = Some st \<longrightarrow> dictionary_view (xs_members st) \<noteq> None)
     \<and> held (exports s) \<subseteq># mset (roots s)"

lemma held_insert:
  assumes "finite (dom ex)" "ex x = None"
  shows "held (ex(x \<mapsto> st)) = {#JAbstract AbsBus (xs_bus st), xs_members st#} + held ex"
proof -
  have "x \<notin> dom ex" using assms(2) by auto
  moreover have "(\<Sum>y \<in> dom ex. {#JAbstract AbsBus (xs_bus (the ((ex(x \<mapsto> st)) y))), xs_members (the ((ex(x \<mapsto> st)) y))#})
      = held ex"
    unfolding held_def using calculation by (intro sum.cong) auto
  ultimately show ?thesis using assms(1) by (simp add: held_def)
qed

lemma held_remove:
  assumes "finite (dom ex)" "ex x = Some st"
  shows "held ex = {#JAbstract AbsBus (xs_bus st), xs_members st#} + held (ex(x := None))"
proof -
  have "held ((ex(x := None))(x \<mapsto> st)) = {#JAbstract AbsBus (xs_bus st), xs_members st#} + held (ex(x := None))"
    using assms(1) by (intro held_insert) auto
  moreover have "(ex(x := None))(x \<mapsto> st) = ex" using assms(2) by (intro ext) auto
  ultimately show ?thesis by metis
qed

lemma held_roots: "held (exports s) \<subseteq># mset (roots s) \<Longrightarrow> finite (dom (exports s)) \<Longrightarrow> exports s x = Some st \<Longrightarrow>
    JAbstract AbsBus (xs_bus st) \<in> set (roots s) \<and> xs_members st \<in> set (roots s)"
  using held_remove [of "exports s" x st] mset_subset_eqD [of "held (exports s)" "mset (roots s)"] by auto

text \<open>Unrooting something no export holds.\<close>

lemma held_no_message:
  assumes "finite (dom ex)" "\<forall>x st. ex x = Some st \<longrightarrow> dictionary_view (xs_members st) \<noteq> None"
  shows "JAbstract AbsMessage a \<notin># held ex"
proof
  assume "JAbstract AbsMessage a \<in># held ex"
  then obtain x where x: "x \<in> dom ex" "JAbstract AbsMessage a = xs_members (the (ex x))"
    using assms(1) by (auto simp: held_def set_mset_sum)
  then obtain st where "ex x = Some st" by auto
  then have "dictionary_view (JAbstract AbsMessage a) \<noteq> None" using x(2) assms(2) by auto
  then show False by simp
qed

lemma subseteq_remove1:
  assumes "A \<subseteq># mset xs" "y \<notin># A"
  shows "A \<subseteq># mset (remove1 y xs)"
proof (rule mset_subset_eqI)
  fix z
  show "count A z \<le> count (mset (remove1 y xs)) z"
    using mset_subset_eq_count [OF assms(1), of z] assms(2) by (cases "z = y") (auto simp: not_in_iff)
qed

lemma export_inv_unroot:
  assumes "export_inv s"
  shows "export_inv (s\<lparr>roots := remove1 (JAbstract AbsMessage a) (roots s)\<rparr>)"
proof -
  have "JAbstract AbsMessage a \<notin># held (exports s)"
    using assms by (intro held_no_message) (simp_all add: export_inv_def)
  then show ?thesis
    using assms subseteq_remove1 [of "held (exports s)" "roots s" "JAbstract AbsMessage a"] by (simp add: export_inv_def)
qed

text \<open>What touches neither exports nor roots, and what only adds a root.\<close>

lemma export_inv_same:
  "export_inv s \<Longrightarrow> exports t = exports s \<Longrightarrow> roots t = roots s \<Longrightarrow> next_id s \<le> next_id t \<Longrightarrow> export_inv t"
  unfolding export_inv_def by (metis less_le_trans)

lemma subseteq_add: "A \<subseteq># M \<Longrightarrow> A \<subseteq># add_mset x M"
  by (metis add_mset_add_single mset_subset_eq_add_left subset_mset.order_trans)

lemma export_inv_calling: "export_inv s \<Longrightarrow> export_inv (calling m w s)"
  by (auto simp: export_inv_def calling_def less_SucI subseteq_add)

subsection \<open>Every function keeps the invariant\<close>

lemma keeps_same: "(\<And>s. snd (m s) = s) \<Longrightarrow> keeps P m"
  by (simp add: keeps_def)

lemma keeps_tame: "tame m \<Longrightarrow> keeps P m"
  by (simp add: keeps_def tame_def)

lemma keeps_inv_same:
  "(\<And>s. exports (snd (m s)) = exports s \<and> roots (snd (m s)) = roots s \<and> next_id s \<le> next_id (snd (m s)))
     \<Longrightarrow> keeps export_inv m"
  by (auto intro: keepsI export_inv_same)

lemma keeps_inv_simple:
  "keeps export_inv (extern f)" "keeps export_inv fresh" "keeps export_inv (CALL_SD_BUS_FUNC fn g)"
  "keeps export_inv (janet_malloc e)" "keeps export_inv new_slot"
  "keeps export_inv (upd (\<lambda>s. s\<lparr>msgs := (msgs s)(a := m)\<rparr>))" "keeps export_inv (upd (\<lambda>s. s\<lparr>slots := (slots s)(a := m)\<rparr>))"
  by (auto intro!: keeps_inv_same simp: fresh_def janet_malloc_def new_slot_def bnd_apply Let_def split: prod.split)

lemma keeps_accessors:
  "keeps P (janet_getabstract argv i k)" "keeps P (janet_getcstring e argv i)" "keeps P (janet_fixarity argv n)"
  "keeps P (view_of x)" "keeps P (dict_symget x key)" "keeps P (unwrap_function x)" "keeps P (get_export a)"
proof -
  show "keeps P (janet_getabstract argv i k)" "keeps P (janet_getcstring e argv i)" "keeps P (janet_fixarity argv n)"
    by (rule keeps_same, simp add: accessors_same_state)+
  show "keeps P (view_of x)" "keeps P (dict_symget x key)"
    by (rule keeps_tame, rule tame_view tame_symget)+
  show "keeps P (unwrap_function x)" "keeps P (get_export a)"
    by (rule keeps_same, simp add: unwrap_function_def get_export_def split: janet.split option.split)+
qed

lemma keeps_put_entry: "keeps P (put_entry vtable i v)"
  unfolding put_entry_def by (intro keeps_bnd keeps_guard keeps_ret)

lemma keeps_fill_vtable: "keeps P (fill_vtable e len i vtable kvs)"
proof (induction kvs arbitrary: i vtable)
  case (Cons kv kvs)
  obtain key val where kv: "kv = (key, val)" by (cases kv)
  show ?case
    unfolding kv fill_vtable.simps create_entry_def [symmetric]
    by (intro keeps_bnd keeps_guard keeps_put_entry Cons.IH keeps_accessors keeps_tame [OF tame_unwrap(2)]
        keeps_tame [OF tame_entry])
qed simp

lemma keeps_create_vtable: "keeps export_inv (create_vtable e len kvs)"
  unfolding create_vtable_def
  by (intro keeps_bnd keeps_put_entry keeps_ret keeps_fill_vtable keeps_inv_simple)

lemma keeps_getdictionary:
  assumes "\<And>kvs. dictionary_view (argv ! i) \<noteq> None \<Longrightarrow> keeps P (f kvs)"
  shows "keeps P (bnd (janet_getdictionary argv i) f)"
  using assms
  by (auto simp: keeps_def janet_getdictionary_def bnd_apply split: option.split)

lemma keeps_init_export:
  assumes "dictionary_view members \<noteq> None"
  shows "keeps export_inv (init_export_state e c vtable members)"
proof (rule keepsI)
  fix s :: "'a world" assume inv: "export_inv s"
  obtain ok w where m: "sys_malloc e (ext s) = (ok, w)" by fastforce
  let ?st = "\<lparr>xs_vtable = vtable, xs_bus = c, xs_members = members\<rparr>"
  have new: "exports s (next_id s) = None" using inv by (auto simp: export_inv_def)
  have "held ((exports s)(next_id s \<mapsto> ?st)) \<subseteq># mset (members # JAbstract AbsBus c # roots s)"
    using inv held_insert [where ex = "exports s" and x = "next_id s" and st = ?st] new
    by (simp add: export_inv_def add_mset_commute)
  then have "export_inv (s\<lparr>ext := w, next_id := Suc (next_id s), exports := (exports s)(next_id s \<mapsto> ?st),
      roots := members # JAbstract AbsBus c # roots s\<rparr>)"
    using inv assms by (auto simp: export_inv_def less_SucI)
  then show "export_inv (snd (init_export_state e c vtable members s))"
    using m inv export_inv_same [OF inv, of "s\<lparr>ext := w\<rparr>"]
    by (cases ok) (simp_all add: init_export_state_def janet_malloc_def fresh_def gcroot_def bnd_apply guard_def)
qed

lemma keeps_free_export: "keeps export_inv (FREE_EXPORT_STATE x)"
proof (rule keepsI)
  fix s :: "'a world" assume inv: "export_inv s"
  show "export_inv (snd (FREE_EXPORT_STATE x s))"
  proof (cases "exports s x")
    case None
    then show ?thesis using inv by (simp add: FREE_EXPORT_STATE_def get_export_def bnd_apply)
  next
    case (Some st)
    have fin: "finite (dom (exports s))" using inv by (simp add: export_inv_def)
    have "held ((exports s)(x := None)) \<subseteq># mset (roots s) - {#JAbstract AbsBus (xs_bus st), xs_members st#}"
    proof (rule mset_subset_eqI)
      fix z
      have sub: "held (exports s) \<subseteq># mset (roots s)" using inv by (simp add: export_inv_def)
      have "count ({#JAbstract AbsBus (xs_bus st), xs_members st#} + held ((exports s)(x := None))) z \<le> count (mset (roots s)) z"
        using mset_subset_eq_count [OF sub, of z] unfolding held_remove [OF fin Some] .
      then show "count (held ((exports s)(x := None))) z
          \<le> count (mset (roots s) - {#JAbstract AbsBus (xs_bus st), xs_members st#}) z" by (auto split: if_splits)
    qed
    then have "export_inv (s\<lparr>roots := remove1 (xs_members st) (remove1 (JAbstract AbsBus (xs_bus st)) (roots s)),
        exports := (exports s)(x := None)\<rparr>)"
      using inv by (auto simp: export_inv_def add_mset_commute)
    then show ?thesis using Some by (simp add: FREE_EXPORT_STATE_def get_export_def gcunroot_def bnd_apply)
  qed
qed

lemma keeps_cfun_export: "keeps export_inv (cfun_export e argv)"
  unfolding cfun_export_def
  by (intro keeps_bnd keeps_accessors keeps_guard keeps_getdictionary keeps_create_vtable keeps_init_export
      keeps_inv_simple keeps_gets)
    (auto intro!: keeps_bnd keeps_inv_simple keeps_free_export split: prod.split)

text \<open>The handlers, when the Janet code they call keeps the invariant.\<close>

definition pcall_keeps :: "('w world \<Rightarrow> bool) \<Rightarrow> 'w env \<Rightarrow> bool" where
  "pcall_keeps P e \<longleftrightarrow> (\<forall>f argv s. P s \<longrightarrow> P (snd (janet_pcall e f argv s)))"

lemma keeps_pcall: "pcall_keeps P e \<Longrightarrow> keeps P (pcall e f argv)"
  by (auto simp: keeps_def pcall_keeps_def pcall_apply Let_def split: prod.split) (metis snd_conv)

lemma keeps_gcroot: "keeps export_inv (gcroot x)"
  by (auto intro!: keepsI simp: gcroot_def export_inv_def subseteq_add)

lemma keeps_gcunroot: "keeps export_inv (gcunroot (JAbstract AbsMessage a))"
  by (auto intro!: keepsI export_inv_unroot simp: gcunroot_def)

lemma keeps_share:
  assumes "\<And>a. keeps export_inv (f (JAbstract AbsMessage a))"
  shows "keeps export_inv (bnd (share_message e msg) f)"
  using assms by (auto simp: share_message_def bnd_assoc intro!: keeps_bnd keeps_inv_simple)

lemma keeps_method_handler: "pcall_keeps export_inv e \<Longrightarrow> keeps export_inv (method_handler e x msg)"
  unfolding method_handler_def Let_def
  by (intro keeps_bnd keeps_gets keeps_accessors keeps_share)
    (auto intro!: keeps_bnd keeps_accessors keeps_pcall keeps_gcunroot keeps_gcroot split: option.split prod.split)

lemma keeps_property_core: "pcall_keeps export_inv e \<Longrightarrow> keeps export_inv (property_handler_core e property method msg x)"
  unfolding property_handler_core_def Let_def
  by (intro keeps_bnd keeps_accessors keeps_share)
    (auto intro!: keeps_bnd keeps_accessors keeps_pcall keeps_gcunroot keeps_gcroot split: prod.split)

lemma keeps_property_handlers:
  assumes "pcall_keeps export_inv e"
  shows "keeps export_inv (property_getter e property msg x)" "keeps export_inv (property_setter e property msg x)"
    "keeps export_inv (property_setter_with_signal e bus path interface property msg x)"
  unfolding property_getter_def property_setter_def property_setter_with_signal_def
  by (auto intro!: keeps_bnd keeps_property_core [OF assms] keeps_inv_simple split: prod.split)

subsection \<open>The system\<close>

text \<open>
  The library is reentrant: the Janet function a handler calls may export, destroy and be called again.
  Whatever it does is a run of such operations. Operations that concern
  neither exports nor roots may happen between any two.
\<close>

inductive export_step :: "'w env \<Rightarrow> 'w world \<Rightarrow> 'w world \<Rightarrow> bool"
  and export_run :: "'w env \<Rightarrow> 'w world \<Rightarrow> 'w world \<Rightarrow> bool" for e where
  do_export: "export_step e s (snd (cfun_export e argv s))"
| do_destroy: "export_step e s (snd (destroy_export_callback x s))"
| do_method: "\<forall>f argv u. export_run e u (snd (janet_pcall e f argv u)) \<Longrightarrow>
    export_step e s (snd (method_handler e x msg s))"
| do_get: "\<forall>f argv u. export_run e u (snd (janet_pcall e f argv u)) \<Longrightarrow>
    export_step e s (snd (property_getter e property msg x s))"
| do_set: "\<forall>f argv u. export_run e u (snd (janet_pcall e f argv u)) \<Longrightarrow>
    export_step e s (snd (property_setter e property msg x s))"
| do_set_signal: "\<forall>f argv u. export_run e u (snd (janet_pcall e f argv u)) \<Longrightarrow>
    export_step e s (snd (property_setter_with_signal e bus path interface property msg x s))"
| unrelated: "exports t = exports s \<Longrightarrow> roots t = roots s \<Longrightarrow> next_id s \<le> next_id t \<Longrightarrow> export_step e s t"
| run_stop: "export_run e s s"
| run_step: "export_step e s t \<Longrightarrow> export_run e t u \<Longrightarrow> export_run e s u"

lemma export_step_run_inv:
  "export_step e s t \<Longrightarrow> export_inv s \<longrightarrow> export_inv t"
  "export_run e s t \<Longrightarrow> export_inv s \<longrightarrow> export_inv t"
proof (induction rule: export_step_export_run.inducts)
  case (do_export s argv)
  then show ?case using keepsD [OF keeps_cfun_export] by blast
next
  case (do_destroy s x)
  then show ?case using keepsD [OF keeps_free_export] unfolding destroy_export_callback_def by blast
next
  case (do_method s x msg)
  then have "pcall_keeps export_inv e" by (simp add: pcall_keeps_def)
  then show ?case using keepsD [OF keeps_method_handler] by blast
next
  case (do_get s property msg x)
  then have "pcall_keeps export_inv e" by (simp add: pcall_keeps_def)
  then show ?case using keepsD [OF keeps_property_handlers(1)] by blast
next
  case (do_set s property msg x)
  then have "pcall_keeps export_inv e" by (simp add: pcall_keeps_def)
  then show ?case using keepsD [OF keeps_property_handlers(2)] by blast
next
  case (do_set_signal s bus path interface property msg x)
  then have "pcall_keeps export_inv e" by (simp add: pcall_keeps_def)
  then show ?case using keepsD [OF keeps_property_handlers(3)] by blast
next
  case (unrelated t s)
  then show ?case using export_inv_same by blast
qed auto

definition no_exports :: "'w world \<Rightarrow> bool" where
  "no_exports s \<longleftrightarrow> exports s = Map.empty"

interpretation export_life: invariant_system no_exports "export_step e" export_inv for e
proof
  show "no_exports s \<Longrightarrow> export_inv s" for s :: "'a world"
    by (simp add: no_exports_def export_inv_def held_def)
  show "export_inv s \<Longrightarrow> export_step e s t \<Longrightarrow> export_inv t" for s t :: "'a world"
    using export_step_run_inv(1) by blast
qed

end
