(* ===== verification/Export_Claims.thy ===== *)
theory Export_Claims
  imports Export_System Base_Env
begin

text \<open>
  The properties of \<open>src/export.c\<close>. The examples export an interface with a method \<open>Ping\<close>, a
  writable property \<open>Level\<close> and a signal \<open>Changed\<close>.
\<close>

definition ping :: janet where
  "ping = JStruct [(JKeyword ''type'', JSymbol ''method''), (JKeyword ''sig-in'', JString ''s''),
     (JKeyword ''sig-out'', JString ''i''), (JKeyword ''function'', JFunction 7), (JKeyword ''flags'', JKeyword ''n'')]"

definition level :: janet where
  "level = JTable [(JKeyword ''type'', JSymbol ''property''), (JKeyword ''sig'', JString ''u''),
     (JKeyword ''writable'', JBoolean True), (JKeyword ''flags'', JString ''ew''),
     (JKeyword ''getter'', JFunction 8), (JKeyword ''setter'', JFunction 9)]"

definition changed :: janet where
  "changed = JStruct [(JKeyword ''type'', JSymbol ''signal''), (JKeyword ''sig'', JString ''u''),
     (JKeyword ''flags'', JString '''')]"

definition example_kvs :: "(janet \<times> janet) list" where
  "example_kvs = [(JKeyword ''Ping'', ping), (JKeyword ''Level'', level), (JKeyword ''Changed'', changed)]"

definition example_members :: "(string \<times> member) list" where
  "example_members = [(''Ping'', Method ''s'' ''i'' 7 ''n''), (''Level'', Property ''u'' True ''ew''),
     (''Changed'', Signal ''u'' '''')]"

lemma example_ok: "interface_ok base_env example_kvs example_members"
  by (simp add: interface_ok_def example_kvs_def example_members_def ping_def level_def changed_def
      member_ok_def known_flags_def text_field_def field_def dictionary_get_def base_env_def NUL_def)

lemma example_world:
  "sys_malloc base_env w = (True, w)" "ext (base_world w) = w" "(base_world w)\<lparr>ext := w\<rparr> = base_world w"
  "length example_kvs + 2 = 5"
  by (simp_all add: base_env_def base_world_def example_kvs_def)

lemma example_table:
  "export_vtable example_members = [Some VStart, Some (VMethod ''Ping'' ''s'' ''i'' 8),
     Some (VWritable ''Level'' ''u'' True 32), Some (VSignal ''Changed'' ''u'' 0), Some VEnd]"
  by (simp add: example_members_def export_vtable_def flag_bits_def sd_bus_flags_def flag_bit_def sd_bus_vtable_flags)

subsection \<open>The table\<close>

text \<open>C37: The flags of a member are translated bit by bit: for known characters the result has exactly
  the bits that sd-bus gives to the characters, in any order and however often they occur; the first
  unknown character panics with that character.\<close>

theorem flags_correct:
  "(known_flags keys \<longrightarrow>
      (\<exists>m. sd_bus_flags keys = Inr m \<and> (\<forall>n. bit m n \<longleftrightarrow> (\<exists>c \<in> set keys. (c, n) \<in> set flag_table))))
   \<and> (known_flags pre \<and> c \<notin> set ''dhsnreixw'' \<longrightarrow>
      sd_bus_flags (pre @ c # post) = Inl (Panicf ''Unknown export flag: %c'' [PChar c]))"
  using flags_loop_bits [of keys 0] flags_loop_unknown [of pre c 0 post] by (auto simp: sd_bus_flags_def)

theorem flags_correct_witness:
  "\<exists>m. sd_bus_flags ''dne'' = Inr m \<and> bit m 5 \<and> \<not> bit m 1"
  using flags_correct [of "''dne''" "''''" "CHR ''q''" "''''"] by (auto simp: known_flags_def flag_table_def)

text \<open>C16: Whatever the dictionary holds, the table never runs full and nothing is written outside it; a
  table that is returned has one entry per member between the start and the end marker, with the
  member's name, in the order of the dictionary, and no entry is left unwritten.\<close>

theorem vtable_complete:
  fixes e :: "'w env"
  assumes "create_vtable e (length kvs + 2) kvs s = (r, t)"
  shows "case r of Inl p \<Rightarrow> \<not> too_many p
    | Inr v \<Rightarrow> (\<exists>ys. v = map Some (VStart # ys @ [VEnd])
        \<and> list_all2 (\<lambda>(key, x) y. \<exists>name. cstr key s = (Inr name, s) \<and> entry_name y = Some name) kvs ys)"
  by (rule create_vtable_any [OF assms])

theorem vtable_complete_witness:
  "\<exists>v ys. fst (create_vtable base_env 5 example_kvs (base_world ())) = Inr v \<and> length ys = 3
     \<and> v = map Some (VStart # ys @ [VEnd])"
proof -
  have run: "create_vtable base_env (length example_kvs + 2) example_kvs (base_world ())
      = (Inr (export_vtable example_members), base_world ())"
    using create_vtable_run [OF example_ok, of "base_world ()" "()"] by (simp add: export_vtable_def example_world)
  obtain ys where ys: "export_vtable example_members = map Some (VStart # ys @ [VEnd])"
    using vtable_complete [OF run] by auto
  then have "length (export_vtable example_members) = length ys + 2" by simp
  then have "length ys = 3" by (simp add: example_table)
  then show ?thesis using run ys by (auto simp only: example_world fst_conv)
qed

text \<open>C10: The table for a well-formed interface is the one that \<open>vtable_for\<close> specifies: every member
  in order, with its signatures and flags, and a property that is writable calls the setter that
  emits a signal exactly when it has one of the flags \<open>e\<close> and \<open>i\<close>.\<close>

theorem vtable_of_interface:
  assumes "interface_ok e kvs ms" and "sys_malloc e (ext s) = (True, w)"
  shows "create_vtable e (length kvs + 2) kvs s = (Inr (export_vtable ms), s\<lparr>ext := w\<rparr>)"
  using create_vtable_run [OF assms] by (simp add: export_vtable_def)

theorem vtable_of_interface_witness:
  "create_vtable base_env 5 example_kvs (base_world ()) = (Inr [Some VStart, Some (VMethod ''Ping'' ''s'' ''i'' 8),
     Some (VWritable ''Level'' ''u'' True 32), Some (VSignal ''Changed'' ''u'' 0), Some VEnd], base_world ())"
  using vtable_of_interface [OF example_ok, of "base_world ()" "()"]
  unfolding example_world example_table by simp

subsection \<open>Dispatch\<close>

text \<open>C7: After an export of a dictionary whose members are under keywords, each keyword once, and as long
  as its slot is alive, every call of one of its methods runs the function of that method in the
  exported dictionary, with the connection and a new message object
  that holds a reference and is a root of the collector while the function runs; the caller gets
  1, or the function's error as the D-Bus error \<open>org.janet.error\<close>.\<close>

theorem exported_method_called:
  fixes e :: "'w env"
  assumes args: "export_args e c path iface members ms argv" and mem: "\<forall>w. fst (sys_malloc e w)"
    and reg: "sd_add_object_vtable e (cbus (conns s c)) path iface (export_vtable ms) (next_id s)
      (after_mallocs e (ext s)) = ((rv, sl), w)" "0 \<le> rv"
    and keys: "keyword_keys members" and m: "(name, Method inp outp f flags) \<in> set ms"
    and alive: "exports u (next_id s) = exports (snd (cfun_export e argv s)) (next_id s)"
    and msg: "sd_get_member e msg (ext u) = Some name" "sd_message_ref e msg (ext u) = (ref, w')"
    and call: "janet_pcall e f [JAbstract AbsBus c, JAbstract AbsMessage (next_id u)] (calling ref w' u) = ((failed, out), t)"
  shows "method_handler e (next_id s) msg u =
    (Inr (if failed then error_reply e ''internal method error: '' out else (1, None)),
     t\<lparr>roots := remove1 (JAbstract AbsMessage (next_id u)) (roots t)\<rparr>)"
proof -
  have st: "exports u (next_id s) = Some \<lparr>xs_vtable = export_vtable ms, xs_bus = c, xs_members = members\<rparr>"
    using alive reg(2) by (simp add: export_run [OF args mem reg(1)])
  obtain x where "member_of members name = Some x" "describes x (Method inp outp f flags)"
    using exported_member [OF args keys m] by blast
  then show ?thesis using st msg call by (intro method_handler_run [where entry = x and st = "\<lparr>xs_vtable = export_vtable ms, xs_bus = c, xs_members = members\<rparr>"]) simp_all
qed

definition ping_env :: "unit env" where
  "ping_env = base_env\<lparr>sd_get_member := \<lambda>_ _. Some ''Ping'',
     janet_pcall := \<lambda>f argv s. ((False, JNumber (Fin (of_nat f))), s\<lparr>trace := [Schedule f (JTuple argv)]\<rparr>)\<rparr>"

definition example_argv :: "janet list" where
  "example_argv = [JAbstract AbsBus 0, JString ''/a'', JString ''b.C'', JStruct example_kvs]"

lemma example_args: "export_args ping_env 0 ''/a'' ''b.C'' (JStruct example_kvs) example_members example_argv"
proof -
  have "interface_ok ping_env example_kvs example_members"
    using example_ok by (simp add: interface_ok_def ping_env_def)
  then show ?thesis
    by (simp add: export_args_def example_argv_def ping_env_def base_env_def cbytes_def NUL_def example_members_def)
qed

lemma ping_simps:
  "sys_malloc ping_env w = (True, w)" "sd_add_object_vtable ping_env bus path i v x w = ((0, Some 1), w)"
  "sd_get_member ping_env msg w = Some ''Ping''" "sd_message_ref ping_env msg w = (msg, w)"
  "janet_pcall ping_env f argv s = ((False, JNumber (Fin (of_nat f))), s\<lparr>trace := [Schedule f (JTuple argv)]\<rparr>)"
  "sd_slot_set_floating ping_env p b w = (1, w)" "sd_slot_set_destroy ping_env p d w = (0, w)"
  "next_id (base_world w) = 0" "exports (base_world w) x = None" "roots (base_world w) = []"
  by (simp_all add: ping_env_def base_env_def base_world_def)

lemma example_keys: "keyword_keys (JStruct example_kvs)"
  by (simp add: keyword_keys_def example_kvs_def)

theorem exported_method_called_witness:
  "\<exists>t. method_handler ping_env 0 (Some 4) (snd (cfun_export ping_env example_argv (base_world ()))) = (Inr (1, None), t)
     \<and> trace t = [Schedule 7 (JTuple [JAbstract AbsBus 0, JAbstract AbsMessage 2])]"
proof -
  let ?u = "snd (cfun_export ping_env example_argv (base_world ()))"
  have run: "next_id ?u = 2"
    using export_run [OF example_args _ ping_simps(2), of "base_world ()"] by (simp add: ping_simps)
  show ?thesis
    using exported_method_called [OF example_args _ ping_simps(2) _ example_keys, where s = "base_world ()"
        and name = "''Ping''" and inp = "''s''" and outp = "''i''" and f = 7 and flags = "''n''" and u = ?u and msg = "Some 4"
        and ref = "Some 4" and failed = False]
    by (simp add: run ping_simps example_members_def)
qed

text \<open>C24: A dictionary whose members are under strings is accepted and its members are registered, but
  the handlers look for keywords only: a call of such a member reads an uninitialised view.\<close>

theorem exported_string_key:
  fixes e :: "'w env"
  assumes args: "export_args e c path iface members ms argv" and mem: "\<forall>w. fst (sys_malloc e w)"
    and reg: "sd_add_object_vtable e (cbus (conns s c)) path iface (export_vtable ms) (next_id s)
      (after_mallocs e (ext s)) = ((rv, sl), w)" "0 \<le> rv"
    and key: "dictionary_view members = Some kvs" "JKeyword name \<notin> fst ` set kvs"
    and m: "(name, Method inp outp f flags) \<in> set ms"
    and alive: "exports u (next_id s) = exports (snd (cfun_export e argv s)) (next_id s)"
    and msg: "sd_get_member e msg (ext u) = Some name"
  shows "(\<exists>slot. fst (cfun_export e argv s) = Inr slot)
    \<and> Some (VMethod name inp outp (flag_bits flags)) \<in> set (export_vtable ms)
    \<and> fst (method_handler e (next_id s) msg u) = Inl (UB Uninitialised)"
proof -
  note run = export_run [OF args mem reg(1)]
  have st: "exports u (next_id s) = Some \<lparr>xs_vtable = export_vtable ms, xs_bus = c, xs_members = members\<rparr>"
    using alive reg(2) by (simp add: run)
  obtain ref w' where "sd_message_ref e msg (ext u) = (ref, w')" by fastforce
  then have "fst (method_handler e (next_id s) msg u) = Inl (UB Uninitialised)"
    using method_handler_string_key [OF st msg] key by simp
  moreover have "Some (VMethod name inp outp (flag_bits flags)) \<in> (\<lambda>x. Some (case x of (name, m) \<Rightarrow> vtable_for name m)) ` set ms"
    using m by (rule rev_image_eqI) simp
  ultimately show ?thesis using reg(2) by (simp add: run export_vtable_def)
qed

theorem exported_string_key_witness:
  "fst (method_handler ping_env 0 (Some 4) (snd (cfun_export ping_env
     [JAbstract AbsBus 0, JString ''/a'', JString ''b.C'', JStruct [(JString ''Ping'', ping)]] (base_world ()))))
     = Inl (UB Uninitialised)"
proof -
  have ms: "interface_ok ping_env [(JString ''Ping'', ping)] [(''Ping'', Method ''s'' ''i'' 7 ''n'')]"
    using example_ok by (auto simp: interface_ok_def ping_env_def example_kvs_def example_members_def)
  have args: "export_args ping_env 0 ''/a'' ''b.C'' (JStruct [(JString ''Ping'', ping)])
      [(''Ping'', Method ''s'' ''i'' 7 ''n'')]
      [JAbstract AbsBus 0, JString ''/a'', JString ''b.C'', JStruct [(JString ''Ping'', ping)]]"
    using ms by (simp add: export_args_def ping_env_def base_env_def cbytes_def NUL_def)
  show ?thesis
    using exported_string_key [OF args _ ping_simps(2), where s = "base_world ()" and kvs = "[(JString ''Ping'', ping)]"
        and name = "''Ping''" and inp = "''s''" and outp = "''i''" and f = 7 and flags = "''n''" and msg = "Some 4"]
    by (simp add: ping_simps)
qed

text \<open>C38: Writing a property that announces its changes runs the setter with the property and the
  message, and emits \<open>PropertiesChanged\<close> exactly when the setter returned and its result is not
  \<open>nil\<close>; an error of the setter becomes the D-Bus error and nothing is emitted.\<close>

theorem property_write_signals:
  fixes e :: "'w env"
  assumes "exports s x = Some st" and "member_of (xs_members st) name = Some prop"
    and "field prop ''setter'' = Some (JFunction f)" and "sd_message_ref e msg (ext s) = (m, w)"
    and "janet_pcall e f [prop, JAbstract AbsMessage (next_id s)] (calling m w s) = ((failed, out), t)"
    and "sd_emit_properties_changed e bus path iface name (ext t) = (rv, w2)" and "0 \<le> rv"
    and "\<forall>err. sd_error_setf e err \<noteq> 0"
  shows "property_setter_with_signal e bus path iface name msg x s =
    (Inr (0, if failed then snd (error_reply e ''internal property error: '' out) else None),
     t\<lparr>roots := remove1 (JAbstract AbsMessage (next_id s)) (roots t),
       ext := if failed \<or> out = JNil then ext t else w2\<rparr>)"
  using assms(6-8)
  by (simp add: property_setter_with_signal_def bnd_apply property_core_run [OF assms(1-5)] error_reply_def Let_def)

definition level_env :: "bool \<Rightarrow> janet \<Rightarrow> nat env" where
  "level_env failed out = base_env\<lparr>sd_emit_properties_changed := \<lambda>_ _ _ _ w. (1, Suc w),
     janet_pcall := \<lambda>_ _ s. ((failed, out), s)\<rparr>"

definition level_world :: "nat world" where
  "level_world = (base_world 0)\<lparr>exports := [5 \<mapsto> \<lparr>xs_vtable = [], xs_bus = 0, xs_members = JStruct example_kvs\<rparr>],
     next_id := 9\<rparr>"

theorem property_write_signals_witness:
  "ext (snd (property_setter_with_signal (level_env False (JBoolean True)) None ''/a'' ''b.C'' ''Level'' (Some 4) 5 level_world)) = 1
   \<and> ext (snd (property_setter_with_signal (level_env True (JString ''no'')) None ''/a'' ''b.C'' ''Level'' (Some 4) 5 level_world)) = 0"
proof -
  have st: "exports level_world 5 = Some \<lparr>xs_vtable = [], xs_bus = 0, xs_members = JStruct example_kvs\<rparr>"
    by (simp add: level_world_def)
  have mem: "member_of (xs_members \<lparr>xs_vtable = [], xs_bus = 0, xs_members = JStruct example_kvs\<rparr>) ''Level'' = Some level"
    by (simp add: member_of_def field_def dictionary_get_def example_kvs_def)
  have setter: "field level ''setter'' = Some (JFunction 9)"
    by (simp add: field_def level_def dictionary_get_def)
  have env: "sd_message_ref (level_env b x) m w = (m, w)" "sd_error_setf (level_env b x) err = - 5"
    "sd_emit_properties_changed (level_env b x) bus p i name w = (1, Suc w)"
    "janet_pcall (level_env b x) f argv s = ((b, x), s)" for b x m w err bus p i name f argv s
    by (simp_all add: level_env_def base_env_def)
  show ?thesis
    using property_write_signals [OF st mem setter env(1) env(4) env(3), of False "JBoolean True"]
      property_write_signals [OF st mem setter env(1) env(4) env(3), of True "JString ''no''"]
    by (simp add: env calling_def level_world_def base_world_def)
qed

subsection \<open>The life of an export\<close>

text \<open>C17: The collector's roots are balanced: an export makes the connection and the dictionary roots
  and destroying it, whenever that is, releases exactly these two and the state; an export that
  sd-bus refuses panics with nothing left behind.\<close>

theorem export_roots_balanced:
  fixes e :: "'w env"
  assumes args: "export_args e c path iface members ms argv" and mem: "\<forall>w. fst (sys_malloc e w)"
    and reg: "sd_add_object_vtable e (cbus (conns s c)) path iface (export_vtable ms) (next_id s)
      (after_mallocs e (ext s)) = ((rv, sl), w)"
    and new: "exports s (next_id s) = None"
  shows "(case cfun_export e argv s of
      (Inl p, t) \<Rightarrow> rv < 0 \<and> roots t = roots s \<and> exports t = exports s
    | (Inr v, t) \<Rightarrow> 0 \<le> rv \<and> mset (roots t) = mset (roots s) + {#JAbstract AbsBus c, members#}
        \<and> (\<forall>u :: 'w world. exports u (next_id s) = exports t (next_id s) \<longrightarrow>
            (\<exists>u'. destroy_export_callback (next_id s) u = (Inr (), u') \<and> exports u' (next_id s) = None
              \<and> mset (roots u') = mset (roots u) - {#JAbstract AbsBus c, members#})))"
proof (cases "rv < 0")
  case True
  have "(exports s)(next_id s := None) = exports s" using new by (simp add: fun_upd_idem)
  then show ?thesis using True by (simp add: export_run [OF args mem reg])
next
  case False
  have destroy: "\<exists>u'. destroy_export_callback (next_id s) u = (Inr (), u') \<and> exports u' (next_id s) = None
      \<and> mset (roots u') = mset (roots u) - {#JAbstract AbsBus c, members#}"
    if "exports u (next_id s) = Some \<lparr>xs_vtable = export_vtable ms, xs_bus = c, xs_members = members\<rparr>" for u :: "'w world"
    using destroy_export_run [OF that] by (simp add: add_mset_commute)
  show ?thesis using False destroy by (simp add: export_run [OF args mem reg] add_mset_commute)
qed

theorem export_roots_balanced_witness:
  "\<exists>u. destroy_export_callback 0 (snd (cfun_export ping_env example_argv (base_world ()))) = (Inr (), u)
     \<and> mset (roots u) = {#}"
proof -
  let ?t = "snd (cfun_export ping_env example_argv (base_world ()))"
  have "fst (cfun_export ping_env example_argv (base_world ())) = Inr (JAbstract AbsSlot 1)"
    "roots ?t = [JStruct example_kvs, JAbstract AbsBus 0]"
    using export_run [OF example_args _ ping_simps(2), of "base_world ()"] by (simp_all add: ping_simps)
  then show ?thesis
    using export_roots_balanced [OF example_args _ ping_simps(2), of "base_world ()"]
    by (cases "cfun_export ping_env example_argv (base_world ())") (fastforce simp: ping_simps)
qed

text \<open>C18: However exports, destructions, method calls and property accesses are interleaved and nested,
  the connection and the dictionary of every living export are roots of the collector, as often
  as living exports need them; destroying one export never unroots what another still uses.\<close>

theorem exports_rooted:
  assumes "no_exports s0" and "(export_step e)\<^sup>*\<^sup>* s0 s"
  shows "held (exports s) \<subseteq># mset (roots s) \<and> (\<forall>x st. exports s x = Some st \<longrightarrow>
    JAbstract AbsBus (xs_bus st) \<in> set (roots s) \<and> xs_members st \<in> set (roots s))"
proof -
  have inv: "export_inv s" by (rule export_life.reached_inv [OF assms])
  then have "held (exports s) \<subseteq># mset (roots s)" "finite (dom (exports s))" by (simp_all add: export_inv_def)
  then show ?thesis using held_roots by blast
qed

theorem exports_rooted_witness:
  "JStruct example_kvs \<in> set (roots (snd (cfun_export ping_env example_argv (base_world ()))))"
proof -
  let ?t = "snd (cfun_export ping_env example_argv (base_world ()))"
  have "no_exports (base_world ())" by (simp add: no_exports_def base_world_def)
  moreover have "(export_step ping_env)\<^sup>*\<^sup>* (base_world ()) ?t" by (intro r_into_rtranclp do_export)
  moreover have "exports ?t 0 = Some \<lparr>xs_vtable = export_vtable example_members, xs_bus = 0, xs_members = JStruct example_kvs\<rparr>"
    using export_run [OF example_args _ ping_simps(2), of "base_world ()"] by (simp add: ping_simps)
  ultimately show ?thesis using exports_rooted [of "base_world ()" ping_env ?t] by fastforce
qed

text \<open>A key that is neither a string nor a symbol nor a keyword is read as one all the same.\<close>

lemma number_key_undefined:
  "create_vtable e (length kvs + 3) ((JNumber x, v) # kvs) s = (Inl (UB WrongMember), s)"
  by (simp add: create_vtable_def put_entry_def guard_def bnd_apply cstr_def unwrap_string_def)

end
