(* ===== verification/Call_Api.thy ===== *)
theory Call_Api
  imports Async
begin

text \<open>
  \<open>src/call.c\<close>, the functions exported to Janet: starting an asynchronous call and subscribing to
  a match. Both make the \<open>AsyncState\<close>, hand it to sd-bus together with the slot, and put the
  record in the queue of the connection. sd-bus sets the slot only when it returns no error.
\<close>

definition set_slot :: "nat \<Rightarrow> ptr \<Rightarrow> ('w, unit) prog" where
  "set_slot slot p = upd (\<lambda>s. s\<lparr>slots := (slots s)(slot := p)\<rparr>)"

definition set_kind :: "nat \<Rightarrow> pending_kind \<Rightarrow> ('w, unit) prog" where
  "set_kind p k = put_pending p (pkind_update (\<lambda>_. k))"

text \<open>The second half of both functions, from the sd-bus call \<open>f\<close> on.\<close>

definition register :: "'w env \<Rightarrow> string \<Rightarrow> nat \<Rightarrow> nat \<Rightarrow> ('w \<Rightarrow> (int \<times> ptr) \<times> 'w) \<Rightarrow> ('w, nat) prog" where
  "register e fn c a f =
     bnd (get_async a) (\<lambda>st.
     bnd (get_pending (as_pending st)) (\<lambda>q.
     bnd (nonnull (pslot q)) (\<lambda>slot.
     bnd (extern f) (\<lambda>(rv, sd_slot).
     bnd (if rv < 0 then
            bnd (FREE_CALL_STATE a) (\<lambda>_.
            raise (Panicf (''failed to call '' @ fn @ '': %s'') [PInt (- rv)]))
          else set_slot slot sd_slot) (\<lambda>_.
     bnd (gets (\<lambda>s. slots s slot)) (\<lambda>p.
     bnd (extern (sd_slot_set_floating e p True)) (\<lambda>_.
     bnd (queue_pending c (as_pending st)) (\<lambda>_.
     bnd (extern (sd_slot_set_destroy e p (DestroyCall a))) (\<lambda>_.
     ret slot)))))))))"

definition cfun_call_async :: "nat \<Rightarrow> 'w env \<Rightarrow> janet list \<Rightarrow> ('w, janet) prog" where
  "cfun_call_async n e argv =
     bnd (janet_arity argv 3 (Some 4)) (\<lambda>_.
     bnd (janet_getabstract argv 0 AbsBus) (\<lambda>c.
     bnd (get_message argv 1) (\<lambda>msg.
     bnd (janet_getabstract argv 2 AbsChannel) (\<lambda>ch.
     bnd (janet_optinteger64 e argv 3 0) (\<lambda>timeout.
     bnd (init_callback_state e c ch) (\<lambda>a.
     bnd (get_async a) (\<lambda>st.
     bnd (set_kind (as_pending st) Call) (\<lambda>_.
     bnd (gets (\<lambda>s. cbus (conns s c))) (\<lambda>bus.
     bnd (register e ''sd_bus_call_async'' c a (sd_call_async e bus msg a timeout)) (\<lambda>slot.
     bnd (settimeout n e c) (\<lambda>_.
     bnd (get_async a) (\<lambda>st.
     bnd (get_pending (as_pending st)) (\<lambda>q.
     bnd (nonnull (pslot q)) (\<lambda>slot.
     ret (JAbstract AbsSlot slot)))))))))))))))"

definition cfun_match_async :: "'w env \<Rightarrow> janet list \<Rightarrow> ('w, janet) prog" where
  "cfun_match_async e argv =
     bnd (janet_fixarity argv 3) (\<lambda>_.
     bnd (janet_getabstract argv 0 AbsBus) (\<lambda>c.
     bnd (janet_getcstring e argv 1) (\<lambda>rule.
     bnd (janet_getabstract argv 2 AbsChannel) (\<lambda>ch.
     bnd (init_callback_state e c ch) (\<lambda>a.
     bnd (get_async a) (\<lambda>st.
     bnd (set_kind (as_pending st) Match) (\<lambda>_.
     bnd (gets (\<lambda>s. cbus (conns s c))) (\<lambda>bus.
     bnd (register e ''sd_bus_add_match_async'' c a (sd_add_match_async e bus rule a)) (\<lambda>slot.
     ret (JAbstract AbsSlot slot))))))))))"

end
