(* ===== verification/Lifecycle.thy ===== *)
theory Lifecycle
  imports Async_Spec Call_Api Transition
begin

text \<open>
  The life of asynchronous calls and matches as a transition system over \<open>src/call.c\<close> and
  \<open>src/async.c\<close>: calls are started, answered, cancelled and closed in any order. \<open>call_op\<close> lists
  the operations, \<open>hazard\<close> the situations in which one of them goes wrong, \<open>reachable\<close> the states
  that arise from a fresh connection without a hazard, and \<open>call_inv\<close> is the invariant: the queue
  is well linked, its records and the callback states belong together, and every record has a slot.
\<close>

text \<open>What \<open>cfun_call_async\<close> and \<open>cfun_match_async\<close> have in common.\<close>

definition start_call ::
  "'w env \<Rightarrow> string \<Rightarrow> nat \<Rightarrow> nat \<Rightarrow> pending_kind \<Rightarrow> (ptr \<Rightarrow> nat \<Rightarrow> 'w \<Rightarrow> (int \<times> ptr) \<times> 'w) \<Rightarrow> ('w, nat \<times> nat) prog" where
  "start_call e fn c ch k f =
     bnd (init_callback_state e c ch) (\<lambda>a.
     bnd (get_async a) (\<lambda>st.
     bnd (set_kind (as_pending st) k) (\<lambda>_.
     bnd (gets (\<lambda>s. cbus (conns s c))) (\<lambda>bus.
     bnd (register e fn c a (f bus a)) (\<lambda>slot. ret (a, slot))))))"

lemma match_async_start:
  "cfun_match_async e argv =
     bnd (janet_fixarity argv 3) (\<lambda>_.
     bnd (janet_getabstract argv 0 AbsBus) (\<lambda>c.
     bnd (janet_getcstring e argv 1) (\<lambda>rule.
     bnd (janet_getabstract argv 2 AbsChannel) (\<lambda>ch.
     bnd (start_call e ''sd_bus_add_match_async'' c ch Match (\<lambda>bus a. sd_add_match_async e bus rule a)) (\<lambda>(_, slot).
     ret (JAbstract AbsSlot slot))))))"
  by (simp add: cfun_match_async_def start_call_def bnd_assoc, simp add: ret_def)

lemma call_async_start:
  "cfun_call_async n e argv =
     bnd (janet_arity argv 3 (Some 4)) (\<lambda>_.
     bnd (janet_getabstract argv 0 AbsBus) (\<lambda>c.
     bnd (get_message argv 1) (\<lambda>msg.
     bnd (janet_getabstract argv 2 AbsChannel) (\<lambda>ch.
     bnd (janet_optinteger64 e argv 3 0) (\<lambda>timeout.
     bnd (start_call e ''sd_bus_call_async'' c ch Call (\<lambda>bus a. sd_call_async e bus msg a timeout)) (\<lambda>(a, _).
     bnd (settimeout n e c) (\<lambda>_.
     bnd (get_async a) (\<lambda>st.
     bnd (get_pending (as_pending st)) (\<lambda>q.
     bnd (nonnull (pslot q)) (\<lambda>slot.
     ret (JAbstract AbsSlot slot)))))))))))"
  by (simp add: cfun_call_async_def start_call_def bnd_assoc)

subsection \<open>The invariant\<close>

definition owners :: "nat \<Rightarrow> 'w world \<Rightarrow> bool" where
  "owners c s \<longleftrightarrow>
     (\<forall>a st. asyncs s a = Some st \<longrightarrow> as_conn st = c \<and> pend s (as_pending st) \<noteq> None \<and> a < next_id s) \<and>
     (\<forall>a b st st'. asyncs s a = Some st \<longrightarrow> asyncs s b = Some st' \<longrightarrow> as_pending st = as_pending st' \<longrightarrow> a = b) \<and>
     (\<forall>p q. pend s p = Some q \<longrightarrow> pslot q \<noteq> None \<and> p < next_id s)"

definition owned :: "'w world \<Rightarrow> nat set" where
  "owned s = {p. \<exists>a st. asyncs s a = Some st \<and> as_pending st = p}"

definition call_inv :: "nat \<Rightarrow> 'w world \<Rightarrow> bool" where
  "call_inv c s \<longleftrightarrow> owners c s \<and> (\<exists>ps. queue_is c s ps \<and> set ps \<subseteq> owned s)"

lemma call_invI: "owners c s \<Longrightarrow> queue_is c s ps \<Longrightarrow> set ps \<subseteq> owned s \<Longrightarrow> call_inv c s"
  by (auto simp: call_inv_def)

lemma queue_is_unique: "queue_is c s ps \<Longrightarrow> queue_is c s qs \<Longrightarrow> ps = qs"
proof -
  have "chain h prev head ps None \<Longrightarrow> chain h prev head qs None \<Longrightarrow> ps = qs" for h prev head
  proof (induction ps arbitrary: prev head qs)
    case Nil
    then show ?case by (cases qs) auto
  next
    case (Cons p ps)
    then show ?case by (cases qs) (auto split: option.splits)
  qed
  then show "queue_is c s ps \<Longrightarrow> queue_is c s qs \<Longrightarrow> ps = qs" by (auto simp: queue_is_def)
qed

text \<open>Parts of the state the invariant does not look at.\<close>

lemma call_inv_frame [frame_simps]:
  "call_inv c (s\<lparr>ext := w\<rparr>) = call_inv c s" "call_inv c (s\<lparr>trace := tr\<rparr>) = call_inv c s"
  "call_inv c (s\<lparr>msgs := ms\<rparr>) = call_inv c s" "call_inv c (s\<lparr>slots := sl\<rparr>) = call_inv c s"
  by (simp_all add: call_inv_def owners_def owned_def queue_is_def)

lemma owners_relinks:
  assumes own: "owners c s" and r: "relinks c P s t"
  shows "owners c t" "owned t = owned s"
proof -
  note same = relinksD [OF r]
  have old: "\<exists>q'. pend s p = Some q' \<and> pslot q' = pslot q" if q: "pend t p = Some q" for p q
    using same(10) [of p] q by (cases "pend s p") (auto simp: payload_def)
  have alive: "pend t p \<noteq> None" if q: "pend s p = Some q" for p q
    using same(10) [of p] q by (cases "pend t p") auto
  have slot: "pslot q \<noteq> None \<and> p < next_id s" if q: "pend t p = Some q" for p q
    using old [OF q] own unfolding owners_def by metis
  show "owners c t"
    using own alive slot unfolding owners_def same(3,6) by blast
  show "owned t = owned s" by (simp add: owned_def same)
qed

text \<open>Freeing a callback state with its record, when the record is not queued.\<close>

lemma call_inv_free:
  assumes own: "owners c s" and q: "queue_is c s ps" "set ps \<subseteq> owned s"
    and a: "asyncs s a = Some st" "as_pending st = p" "p \<notin> set ps"
  shows "call_inv c (s\<lparr>pend := (pend s)(p := None), asyncs := (asyncs s)(a := None)\<rparr>)"
proof (rule call_invI [where ps = ps])
  let ?t = "s\<lparr>pend := (pend s)(p := None), asyncs := (asyncs s)(a := None)\<rparr>"
  show "owners c ?t" using own a unfolding owners_def by auto
  show "queue_is c ?t ps" using q(1) a(3) by (simp add: queue_is_def)
  show "set ps \<subseteq> owned ?t"
  proof
    fix r assume r: "r \<in> set ps"
    then obtain b st' where "asyncs s b = Some st'" "as_pending st' = r" using q(2) by (auto simp: owned_def)
    moreover have "b \<noteq> a" using calculation a r by auto
    ultimately show "r \<in> owned ?t" by (auto simp: owned_def)
  qed
qed

subsection \<open>Starting\<close>

lemma init_callback_run:
  "init_callback_state e c ch s =
     (let n = next_id s; (ok, w) = sys_malloc e (ext s); (ok', w') = sys_malloc e w;
          s1 = s\<lparr>ext := w, next_id := Suc (Suc n), slots := (slots s)(Suc n := None),
            pend := (pend s)(n \<mapsto> \<lparr>pslot = Some (Suc n), pchan = ch, pnext = None, pprev = None, pkind = Call\<rparr>)\<rparr>
      in if \<not> ok then (Inl OutOfMemory, s\<lparr>ext := w\<rparr>)
         else if \<not> ok' then (Inl OutOfMemory, s1\<lparr>ext := w'\<rparr>)
         else (Inr (Suc (Suc n)), s1\<lparr>ext := w', next_id := Suc (Suc (Suc n)),
           asyncs := (asyncs s)(Suc (Suc n) \<mapsto> \<lparr>as_conn = c, as_pending = n\<rparr>)\<rparr>))"
  by (simp add: init_callback_state_def create_async_pending_def new_slot_def janet_malloc_def fresh_def
      bnd_apply Let_def split: prod.split)

lemma new_call_state:
  assumes inv: "call_inv c s" and n: "n = next_id s"
    and t: "pend t = (pend s)(n \<mapsto> q)" "pslot q \<noteq> None" "conns t = conns s"
      "asyncs t = (asyncs s)(Suc (Suc n) \<mapsto> \<lparr>as_conn = c, as_pending = n\<rparr>)" "next_id t = Suc (Suc (Suc n))"
  shows "owners c t \<and> (\<exists>ps. queue_is c t ps \<and> set ps \<subseteq> owned t \<and> n \<notin> set ps)"
proof -
  obtain ps where own: "owners c s" and ps: "queue_is c s ps" "set ps \<subseteq> owned s"
    using inv by (auto simp: call_inv_def)
  have new: "pend s n = None" "asyncs s (Suc (Suc n)) = None"
    using own n unfolding owners_def by (metis less_irrefl option.exhaust, metis lessI less_SucI not_less_iff_gr_or_eq option.exhaust)
  have below: "as_pending st < n" if "asyncs s a = Some st" for a st
    using own that n unfolding owners_def by (metis option.exhaust)
  have "n \<notin> set ps" using ps(2) below by (fastforce simp: owned_def)
  moreover have "queue_is c t ps" using ps(1) t(1,3) calculation by (simp add: queue_is_def)
  moreover have "owned s \<subseteq> owned t"
  proof
    fix p assume "p \<in> owned s"
    then obtain a st where a: "asyncs s a = Some st" "as_pending st = p" by (auto simp: owned_def)
    then have "asyncs t a = Some st" using new(2) t(4) by auto
    then show "p \<in> owned t" using a(2) by (auto simp: owned_def)
  qed
  moreover have "owners c t"
    unfolding owners_def
  proof (intro conjI)
    obtain y where y: "pslot q = Some y" using t(2) by auto
    show "\<forall>a st. asyncs t a = Some st \<longrightarrow> as_conn st = c \<and> pend t (as_pending st) \<noteq> None \<and> a < next_id t"
      using own n by (auto simp: owners_def t less_Suc_eq)
    show "\<forall>a b st st'. asyncs t a = Some st \<longrightarrow> asyncs t b = Some st' \<longrightarrow> as_pending st = as_pending st' \<longrightarrow> a = b"
    proof (intro allI impI)
      fix a b st st'
      assume ab: "asyncs t a = Some st" "asyncs t b = Some st'" "as_pending st = as_pending st'"
      have no: "as_pending x \<noteq> n" if "asyncs s d = Some x" for d x using below [OF that] by simp
      show "a = b"
        using ab no [of a] no [of b] own unfolding owners_def t(4)
        by (cases "a = Suc (Suc n)"; cases "b = Suc (Suc n)") auto
    qed
    show "\<forall>p q. pend t p = Some q \<longrightarrow> pslot q \<noteq> None \<and> p < next_id t"
      using own n y by (auto simp: owners_def t less_Suc_eq)
  qed
  ultimately show ?thesis using ps(2) by blast
qed

lemma start_call_inv:
  assumes inv: "call_inv c s"
  shows "call_inv c (snd (start_call e fn c ch k f s)) \<and> clean_at (start_call e fn c ch k f) s"
proof -
  define n where "n = next_id s"
  obtain ok w where m1: "sys_malloc e (ext s) = (ok, w)" by (metis prod.exhaust)
  obtain ok' w' where m2: "sys_malloc e w = (ok', w')" by (metis prod.exhaust)
  let ?q = "\<lparr>pslot = Some (Suc n), pchan = ch, pnext = None, pprev = None, pkind = k\<rparr>"
  let ?s = "s\<lparr>slots := (slots s)(Suc n := None), ext := w', next_id := Suc (Suc (Suc n)),
      asyncs := (asyncs s)(Suc (Suc n) \<mapsto> \<lparr>as_conn = c, as_pending = n\<rparr>), pend := (pend s)(n \<mapsto> ?q)\<rparr>"
  show ?thesis
  proof (cases "ok \<and> ok'")
    case False
    have out: "start_call e fn c ch k f s = (Inl OutOfMemory, snd (init_callback_state e c ch s))"
      using False by (auto simp: start_call_def bnd_apply init_callback_run m1 m2 Let_def)
    have "call_inv c (snd (init_callback_state e c ch s))"
    proof (cases ok)
      case True
      have "\<forall>p. pend s p \<noteq> None \<longrightarrow> p < next_id s" using inv by (auto simp: call_inv_def owners_def)
      then have "pend s n = None" by (auto simp: n_def)
      obtain ps where own: "owners c s" and ps: "queue_is c s ps" "set ps \<subseteq> owned s"
        using inv by (auto simp: call_inv_def)
      have "n \<notin> set ps" using chain_alive ps(1) \<open>pend s n = None\<close> by (fastforce simp: queue_is_def)
      let ?t = "snd (init_callback_state e c ch s)"
      have t: "?t = s\<lparr>ext := w', next_id := Suc (Suc n), slots := (slots s)(Suc n := None),
          pend := (pend s)(n \<mapsto> ?q\<lparr>pkind := Call\<rparr>)\<rparr>"
        using True False by (simp add: init_callback_run m1 m2 Let_def n_def)
      have "owners c ?t" using own unfolding t owners_def by (auto simp: n_def less_Suc_eq)
      moreover have "queue_is c ?t ps" using ps(1) \<open>n \<notin> set ps\<close> unfolding t by (simp add: queue_is_def)
      moreover have "owned ?t = owned s" unfolding t by (simp add: owned_def)
      ultimately show ?thesis using ps(2) by (auto simp: call_inv_def)
    qed (use inv in \<open>simp add: init_callback_run m1 m2 Let_def frame_simps\<close>)
    then show ?thesis unfolding clean_at_def out by simp
  next
    case True
    have run: "start_call e fn c ch k f s = bnd (register e fn c (Suc (Suc n)) (f (cbus (conns s c)) (Suc (Suc n))))
        (\<lambda>slot. ret (Suc (Suc n), slot)) ?s"
      using True by (simp add: start_call_def bnd_apply init_callback_run m1 m2 Let_def n_def set_kind_def)
    obtain rv sl w2 where f: "f (cbus (conns s c)) (Suc (Suc n)) w' = ((rv, sl), w2)" by (metis prod.exhaust)
    show ?thesis
    proof (cases "rv < 0")
      case neg: True
      let ?s4 = "?s\<lparr>ext := w2\<rparr>"
      obtain ps where st4: "owners c ?s4" "queue_is c ?s4 ps" "set ps \<subseteq> owned ?s4" "n \<notin> set ps"
        using new_call_state [OF inv n_def, of ?s4 ?q] by auto
      have "call_inv c (?s4\<lparr>pend := (pend ?s4)(n := None), asyncs := (asyncs ?s4)(Suc (Suc n) := None)\<rparr>)"
        by (rule call_inv_free [OF st4(1-3), where st = "\<lparr>as_conn = c, as_pending = n\<rparr>"])
          (use st4(4) in simp_all)
      then show ?thesis
        unfolding clean_at_def run using neg f
        by (simp add: register_def bnd_apply nonnull_def FREE_CALL_STATE_def)
    next
      case pos: False
      define w3 where "w3 = snd (sd_slot_set_floating e sl True w2)"
      let ?s5 = "?s\<lparr>ext := w2, slots := (slots ?s)(Suc n := sl), ext := w3\<rparr>"
      obtain ps where st5: "owners c ?s5" "queue_is c ?s5 ps" "set ps \<subseteq> owned ?s5" "n \<notin> set ps"
        using new_call_state [OF inv n_def, of ?s5 ?q] by auto
      obtain t where t: "queue_pending c n ?s5 = (Inr (), t)" "queue_is c t (n # ps)" "relinks c (set (n # ps)) ?s5 t"
        using queue_pending_spec [OF st5(2,4), of ?q] by auto
      have "n \<in> owned ?s5" by (auto simp: owned_def)
      then have "call_inv c t"
        using owners_relinks [OF st5(1) t(3)] t(2) st5(3) by (intro call_invI [where ps = "n # ps"]) auto
      moreover have "register e fn c (Suc (Suc n)) (f (cbus (conns s c)) (Suc (Suc n))) ?s =
          (Inr (Suc n), t\<lparr>ext := snd (sd_slot_set_destroy e sl (DestroyCall (Suc (Suc n))) (ext t))\<rparr>)"
        using pos f t(1)
        by (simp add: register_def bnd_apply nonnull_def set_slot_def w3_def [symmetric])
      ultimately show ?thesis unfolding clean_at_def run by (simp add: frame_simps bnd_apply)
    qed
  qed
qed

subsection \<open>Replies\<close>

text \<open>A step of a handler for the record \<open>p\<close>: it keeps the invariant and the record.\<close>

definition good :: "nat \<Rightarrow> nat \<Rightarrow> pending \<Rightarrow> ('w, 'a) prog \<Rightarrow> 'w world \<Rightarrow> bool" where
  "good c p q m s \<longleftrightarrow> call_inv c (snd (m s)) \<and> pend (snd (m s)) p = Some q
     \<and> asyncs (snd (m s)) = asyncs s \<and> clean_at m s"

lemma good_bnd:
  assumes "good c p q m s"
    and "\<And>x t. m s = (Inr x, t) \<Longrightarrow> call_inv c t \<Longrightarrow> pend t p = Some q \<Longrightarrow> asyncs t = asyncs s \<Longrightarrow> good c p q (f x) t"
  shows "good c p q (bnd m f) s"
proof (cases "m s")
  case (Pair r t)
  show ?thesis
  proof (cases r)
    case (Inl err)
    then show ?thesis using assms(1) Pair by (simp add: good_def bnd_apply clean_at_def)
  next
    case (Inr x)
    have t: "call_inv c t" "pend t p = Some q" "asyncs t = asyncs s" using assms(1) Pair by (simp_all add: good_def)
    have "good c p q (f x) t" using assms(2) Pair Inr t by simp
    then show ?thesis using Pair Inr t(3) by (simp add: good_def bnd_apply clean_at_def)
  qed
qed

lemma if_goodI: "(b \<Longrightarrow> good c p q m s) \<Longrightarrow> (\<not> b \<Longrightarrow> good c p q m' s) \<Longrightarrow> good c p q (if b then m else m') s"
  by simp

lemma good_simps:
  assumes "call_inv c s" "pend s p = Some q"
  shows "good c p q (ret x) s" "good c p q (gets f) s" "good c p q (extern g) s" "good c p q (get_pending p) s"
    "good c p q (CALL_SD_BUS_FUNC fn h) s" "good c p q (CALL_SD_BUS_OUT fn k) s"
    "good c p q (CHAN_PUSH e ch status v) s" "good c p q fresh s"
    "good c p q (upd (\<lambda>s. s\<lparr>msgs := (msgs s)(b := m)\<rparr>)) s"
proof -
  show "good c p q fresh s"
    using assms
    by (auto simp: good_def fresh_def clean_at_def call_inv_def owners_def owned_def queue_is_def less_Suc_eq)
  show "good c p q (CALL_SD_BUS_OUT fn k) s"
    using assms
    by (simp add: good_def CALL_SD_BUS_OUT_def bnd_apply frame_simps clean_at_def split: prod.split)
qed (use assms in \<open>simp_all add: good_def frame_simps clean_at_def CHAN_PUSH_def Let_def split: prod.split\<close>)

lemma dequeue_ext: "dequeue_pending c p s = (r, t) \<Longrightarrow> ext t = ext s"
  by (auto simp: dequeue_pending_def bnd_apply get_pending_def put_pending_def split: if_splits option.splits)

lemma good_dequeue:
  assumes inv: "call_inv c s" and q: "pend s p = Some q" and p: "queue_is c s ps" "p \<in> set ps"
  shows "good c p q (dequeue_pending c p) s"
proof -
  obtain t where t: "dequeue_pending c p s = (Inr (), t)" "queue_is c t (remove1 p ps)" "relinks c (set ps) s t"
    "pend t p = pend s p"
    using dequeue_pending_spec [OF p] by auto
  have own: "owners c s" and sub: "set ps \<subseteq> owned s"
    using inv queue_is_unique [OF p(1)] by (auto simp: call_inv_def)
  have "set (remove1 p ps) \<subseteq> owned t"
    using owners_relinks(2) [OF own t(3)] sub set_remove1_subset [of p ps] by blast
  then have "call_inv c t" using owners_relinks(1) [OF own t(3)] t(2) by (auto simp: call_inv_def)
  then show ?thesis using t q relinksD(3) [OF t(3)] by (simp add: good_def clean_at_def)
qed

text \<open>sd-bus gives the error of every error message, and of every refused match.\<close>

definition error_law :: "'w env \<Rightarrow> bool" where
  "error_law e \<longleftrightarrow> (\<forall>m w. sd_get_type e m w = SD_BUS_MESSAGE_METHOD_ERROR \<longrightarrow> sd_get_error e m w \<noteq> None)
     \<and> (\<forall>m w. sd_is_method_error e m w \<noteq> 0 \<longrightarrow> sd_get_error e m w \<noteq> None)"

lemma good_get_error:
  "call_inv c s \<Longrightarrow> pend s p = Some q \<Longrightarrow> sd_get_error e m (ext s) \<noteq> None \<Longrightarrow> good c p q (get_error e m) s"
  by (auto simp: get_error_def good_def bnd_apply clean_at_def)

lemma good_message_copy:
  "call_inv c s \<Longrightarrow> pend s p = Some q \<Longrightarrow> good c p q (message_copy e bus m ty) s"
  unfolding message_copy_def by (intro good_bnd good_simps)

lemma good_push_message:
  assumes "call_inv c s" "pend s p = Some q"
    and "\<And>t. call_inv c t \<Longrightarrow> pend t p = Some q \<Longrightarrow> good c p q m t"
  shows "good c p q (push_message e p m) s"
  unfolding push_message_def using assms by (intro good_bnd good_simps) assumption+

text \<open>
  \<open>stale c s a\<close>: the callback state \<open>a\<close> is of a call that has left the queue, by its reply or
  because all calls were closed, and meanwhile other calls are pending. \<open>is_answer\<close>: the message is
  a reply to the call of \<open>a\<close>.
\<close>

definition stale :: "nat \<Rightarrow> 'w world \<Rightarrow> nat \<Rightarrow> bool" where
  "stale c s a \<longleftrightarrow> (\<exists>st ps. asyncs s a = Some st \<and> queue_is c s ps \<and> ps \<noteq> [] \<and> as_pending st \<notin> set ps)"

definition is_answer :: "'w env \<Rightarrow> 'w world \<Rightarrow> nat \<Rightarrow> ptr \<Rightarrow> bool" where
  "is_answer e s a msg \<longleftrightarrow> pkind (the (pend s (pending_of s a))) = Call \<and>
     sd_get_type e msg (ext s) \<in> {SD_BUS_MESSAGE_METHOD_RETURN, SD_BUS_MESSAGE_METHOD_ERROR}"

lemma dequeue_empty: "queue_is c s [] \<Longrightarrow> dequeue_pending c p s = (Inr (), s)"
  by (simp add: queue_is_def dequeue_pending_def bnd_apply)

lemma message_handler_good:
  fixes e :: "'w env"
  assumes inv: "call_inv c s" and law: "error_law e" and a: "asyncs s a \<noteq> None"
    and arr: "\<not> (stale c s a \<and> is_answer e s a msg)"
  shows "call_inv c (snd (message_handler e a msg s)) \<and> clean_at (message_handler e a msg) s"
proof -
  obtain st where a': "asyncs s a = Some st" using a by auto
  moreover obtain ps where "queue_is c s ps" using inv by (auto simp: call_inv_def)
  moreover have "pend s (as_pending st) \<noteq> None" using inv a' by (simp add: call_inv_def owners_def)
  then obtain q where "pend s (as_pending st) = Some q" by auto
  ultimately have st: "asyncs s a = Some st" "pend s (as_pending st) = Some q" "queue_is c s ps" by simp_all
  have en: "pkind q = Match \<or> as_pending st \<in> set ps \<or> ps = [] \<or>
      sd_get_type e msg (ext s) \<notin> {SD_BUS_MESSAGE_METHOD_RETURN, SD_BUS_MESSAGE_METHOD_ERROR}"
    using arr st by (cases "pkind q") (auto simp: stale_def is_answer_def pending_of_def)
  define p where "p = as_pending st"
  have conn: "as_conn st = c" using inv st(1) by (auto simp: call_inv_def owners_def)
  note q = st(2) [folded p_def]
  let ?deq = "bnd (get_pending p) (\<lambda>q. if pkind q = Call then dequeue_pending c p else ret ())"
  have deq: "good c p q ?deq s"
    if "sd_get_type e msg (ext s) \<in> {SD_BUS_MESSAGE_METHOD_RETURN, SD_BUS_MESSAGE_METHOD_ERROR}"
  proof -
    have "pkind q = Call \<Longrightarrow> p \<in> set ps \<or> ps = []" using en that by (auto simp: p_def)
    moreover have "good c p q (dequeue_pending c p) s" if "ps = []"
      using dequeue_empty [of c s p] st(3) that inv q by (simp add: good_def clean_at_def)
    ultimately have "good c p q (if pkind q = Call then dequeue_pending c p else ret ()) s"
      by (auto intro: good_dequeue [OF inv q st(3)] good_simps [OF inv q])
    then show ?thesis using q by (simp add: good_def clean_at_def bnd_apply)
  qed
  have deq_ext: "\<And>u t. ?deq s = (Inr u, t) \<Longrightarrow> ext t = ext s"
    using q dequeue_ext by (auto simp: bnd_apply split: if_splits)
  have push: "good c p q (push_message e p (bnd (get_pending p) (\<lambda>q.
      if pkind q = Call then extern (sd_message_ref e msg)
      else bnd (gets (\<lambda>s. cbus (conns s c))) (\<lambda>bus. message_copy e bus msg ty)))) t"
    if "call_inv c t" "pend t p = Some q" for t ty
    using that
    by (intro good_push_message good_bnd good_simps) (auto intro: good_simps good_bnd good_message_copy)
  let ?type = "sd_get_type e msg (ext s)"
  let ?body = "if ?type = SD_BUS_MESSAGE_METHOD_RETURN \<or> ?type = SD_BUS_MESSAGE_METHOD_CALL then
      bnd (if ?type = SD_BUS_MESSAGE_METHOD_RETURN then ?deq else ret ()) (\<lambda>_.
      push_message e p (bnd (get_pending p) (\<lambda>q.
         if pkind q = Call then extern (sd_message_ref e msg)
         else bnd (gets (\<lambda>s. cbus (conns s c))) (\<lambda>bus. message_copy e bus msg ?type))))
    else if ?type = SD_BUS_MESSAGE_SIGNAL then push_message e p (extern (sd_message_ref e msg))
    else if ?type = SD_BUS_MESSAGE_METHOD_ERROR then
      bnd ?deq (\<lambda>_. bnd (get_error e msg) (\<lambda>err. bnd (get_pending p) (\<lambda>q.
        CHAN_PUSH e (pchan q) ''error'' (JString (format_error err)))))
    else ret ()"
  have body: "good c p q ?body s"
  proof (intro if_goodI)
    assume "?type = SD_BUS_MESSAGE_METHOD_RETURN \<or> ?type = SD_BUS_MESSAGE_METHOD_CALL"
    show "good c p q (bnd (if ?type = SD_BUS_MESSAGE_METHOD_RETURN then ?deq else ret ()) (\<lambda>_.
      push_message e p (bnd (get_pending p) (\<lambda>q.
         if pkind q = Call then extern (sd_message_ref e msg)
         else bnd (gets (\<lambda>s. cbus (conns s c))) (\<lambda>bus. message_copy e bus msg ?type))))) s"
    proof (rule good_bnd)
      show "good c p q (if ?type = SD_BUS_MESSAGE_METHOD_RETURN then ?deq else ret ()) s"
        by (intro if_goodI deq good_simps inv q) simp
    qed (rule push)
  next
    assume "?type = SD_BUS_MESSAGE_SIGNAL"
    show "good c p q (push_message e p (extern (sd_message_ref e msg))) s"
      by (intro good_push_message inv q good_simps)
  next
    assume err: "?type = SD_BUS_MESSAGE_METHOD_ERROR"
    then have some: "sd_get_error e msg (ext s) \<noteq> None" using law by (simp add: error_law_def)
    have deq': "good c p q ?deq s" using deq err by simp
    have push_err: "good c p q (bnd (get_error e msg) (\<lambda>err. bnd (get_pending p) (\<lambda>q.
        CHAN_PUSH e (pchan q) ''error'' (JString (format_error err))))) t"
      if t: "call_inv c t" "pend t p = Some q" "ext t = ext s" for t
    proof (rule good_bnd)
      show "good c p q (get_error e msg) t" using t some by (intro good_get_error) simp_all
    next
      fix err and u :: "'w world" assume u: "call_inv c u" "pend u p = Some q"
      show "good c p q (bnd (get_pending p) (\<lambda>q. CHAN_PUSH e (pchan q) ''error'' (JString (format_error err)))) u"
        by (rule good_bnd, rule good_simps(4) [OF u]) (rule good_simps(7))
    qed
    show "good c p q (bnd ?deq (\<lambda>_. bnd (get_error e msg) (\<lambda>err. bnd (get_pending p) (\<lambda>q.
        CHAN_PUSH e (pchan q) ''error'' (JString (format_error err)))))) s"
      by (rule good_bnd [OF deq']) (rule push_err, assumption, assumption, rule deq_ext)
  qed (rule good_simps [OF inv q])
  have "message_handler e a msg s = bnd ?body (\<lambda>_. ret (0, None)) s"
    using st(1) by (simp add: message_handler_def Let_def conn p_def [symmetric] bnd_apply [where m = "get_async a"]
        bnd_apply [where m = "gets f" for f] cong: if_cong)
  moreover have "good c p q (bnd ?body (\<lambda>_. ret (0, None))) s"
    by (rule good_bnd [OF body]) (rule good_simps)
  ultimately have "good c p q (message_handler e a msg) s"
    unfolding good_def clean_at_def by (simp only: )
  then show ?thesis unfolding good_def by blast
qed

subsection \<open>The other operations\<close>

lemma install_good:
  fixes e :: "'w env"
  assumes inv: "call_inv c s" and law: "error_law e" and a: "asyncs s a = Some st"
  shows "call_inv c (snd (signal_install_handler e a msg s)) \<and> clean_at (signal_install_handler e a msg) s"
proof -
  have "pend s (as_pending st) \<noteq> None" using inv a by (simp add: call_inv_def owners_def)
  then obtain q where q: "pend s (as_pending st) = Some q" by auto
  have "\<exists>err. sd_get_error e msg (ext s) = Some err" if "sd_is_method_error e msg (ext s) \<noteq> 0"
    using law that by (auto simp: error_law_def)
  then show ?thesis
    unfolding signal_install_handler_def clean_at_def using a q inv
    by (cases "sd_is_method_error e msg (ext s) = 0")
      (auto simp: bnd_apply get_error_def CHAN_PUSH_def frame_simps split: if_splits)
qed

text \<open>
  The destroy callback. \<open>destroy_completed\<close>, \<open>completed_then_cancelled\<close> and \<open>completed_then_freed\<close>
  show what it does to a stale call.
\<close>

lemma destroy_good:
  assumes inv: "call_inv c s" and alive: "asyncs s a \<noteq> None" and may: "\<not> stale c s a"
  shows "call_inv c (snd (destroy_call_callback a s)) \<and> clean_at (destroy_call_callback a) s"
proof -
  obtain st ps where a: "asyncs s a = Some st" and ps: "queue_is c s ps" and p: "as_pending st \<in> set ps \<or> ps = []"
    using inv alive may by (auto simp: call_inv_def stale_def)
  have own: "owners c s" and sub: "set ps \<subseteq> owned s"
    using inv queue_is_unique [OF ps] by (auto simp: call_inv_def)
  have st: "as_conn st = c" "pend s (as_pending st) \<noteq> None" using own a by (auto simp: owners_def)
  have tr: "tracks s c a ps" "as_pending st = pending_of s a"
    using a st ps by (auto simp: tracks_def pending_of_def)
  let ?p = "as_pending st"
  show ?thesis
  proof (cases "?p \<in> set ps")
    case True
    obtain t where t: "destroy_call_callback a s = (Inr (), t)" "queue_is c t (remove1 ?p ps)"
      "pend t ?p = None" "asyncs t = (asyncs s)(a := None)"
      "\<forall>r. r \<noteq> ?p \<longrightarrow> map_option payload (pend t r) = map_option payload (pend s r)" "next_id t = next_id s"
      using destroy_pending [OF tr True] by blast
    have other: "as_pending st' \<noteq> ?p" if "asyncs s b = Some st'" "b \<noteq> a" for b st'
      using own a that unfolding owners_def by blast
    have same: "map_option payload (pend t r) = map_option payload (pend s r)" if "r \<noteq> ?p" for r
      using t(5) that by blast
    have "owners c t"
      unfolding owners_def
    proof (intro conjI allI impI)
      fix b st' assume b: "asyncs t b = Some st'"
      then have b': "asyncs s b = Some st'" "b \<noteq> a" using t(4) by (auto split: if_splits)
      have "pend s (as_pending st') \<noteq> None" "as_conn st' = c" "b < next_id s" using own b'(1) by (auto simp: owners_def)
      then show "as_conn st' = c" "b < next_id t" "pend t (as_pending st') \<noteq> None"
        using same [OF other [OF b']] t(6) by auto
    next
      fix b d st1 st2 assume "asyncs t b = Some st1" "asyncs t d = Some st2" "as_pending st1 = as_pending st2"
      then show "b = d" using own t(4) unfolding owners_def by (auto split: if_splits)
    next
      fix r q assume r: "pend t r = Some q"
      then have "r \<noteq> ?p" using t(3) by auto
      then obtain q' where q': "pend s r = Some q'" "pslot q' = pslot q"
        using same [of r] r by (cases "pend s r") (auto simp: payload_def)
      then show "pslot q \<noteq> None" "r < next_id t" using own t(6) unfolding owners_def by metis+
    qed
    moreover have "set (remove1 ?p ps) \<subseteq> owned t"
    proof
      fix r assume r: "r \<in> set (remove1 ?p ps)"
      then have "r \<noteq> ?p" "r \<in> set ps" using ps by (auto simp: queue_is_def)
      then obtain b st' where "asyncs s b = Some st'" "as_pending st' = r" "b \<noteq> a"
        using sub a by (fastforce simp: owned_def)
      then show "r \<in> owned t" using t(4) by (auto simp: owned_def)
    qed
    ultimately have "call_inv c t" using t(2) by (auto intro: call_invI)
    then show ?thesis using t(1) by (simp add: clean_at_def)
  next
    case False
    then have nil: "ps = []" using p by simp
    obtain t where t: "destroy_call_callback a s = (Inr (), t)" "queue_is c t []"
      "pend t = (pend s)(?p := None)" "asyncs t = (asyncs s)(a := None)" "next_id t = next_id s"
      using destroy_idle [of s c a ?p] tr nil by blast
    have "owners c t"
      using own a unfolding owners_def t(3,4,5) by auto
    then have "call_inv c t" using t(2) by (auto intro: call_invI)
    then show ?thesis using t(1) by (simp add: clean_at_def)
  qed
qed

text \<open>Closing touches no record.\<close>

lemma close_records_good:
  assumes law: "unref_law e held"
  shows "call_inv c s \<Longrightarrow> chain (pend s) prev head ps None \<Longrightarrow> bus_holds held s ps \<Longrightarrow>
    call_inv c (snd (close_records n e tuple head s)) \<and> clean_at (close_records n e tuple head) s
    \<and> pend (snd (close_records n e tuple head s)) = pend s \<and> conns (snd (close_records n e tuple head s)) = conns s
    \<and> owners c (snd (close_records n e tuple head s))"
proof (induction ps arbitrary: s prev head n)
  case Nil
  then show ?case by (simp add: clean_at_def call_inv_def)
next
  case (Cons p ps)
  obtain q where q: "head = Some p" "pend s p = Some q" "chain (pend s) (Some p) (pnext q) ps None"
    using Cons.prems(2) by (auto split: option.splits)
  have "pslot q \<noteq> None" using Cons.prems(1) q(2) by (simp add: call_inv_def owners_def)
  then obtain a where a: "pslot q = Some a" by auto
  have own: "owners c s" using Cons.prems(1) by (simp add: call_inv_def)
  show ?case
  proof (cases n)
    case 0
    then show ?thesis using q(1) Cons.prems(1) own by (simp add: clean_at_def)
  next
    case (Suc m)
    show ?thesis
    proof (cases "janet_channel_closed e (pchan q) (ext s)")
      case True
      then show ?thesis using q a Suc Cons.prems(1) own by (simp add: bnd_apply clean_at_def)
    next
      case False
      have held: "held (ext s) x" if "slots s a = Some x" for x
        using Cons.prems(3) that a q(2) by (simp add: bus_holds_def slot_of_def)
      obtain w where one: "close_records n e tuple head s = close_records m e tuple (pnext q)
          (s\<lparr>trace := trace s @ [Give (pchan q) tuple], ext := w, slots := (slots s)(a := None)\<rparr>)"
        "held w = held (ext s)"
        using close_one [OF law q(2) a held False] Suc q(1) by blast
      let ?s = "s\<lparr>trace := trace s @ [Give (pchan q) tuple], ext := w, slots := (slots s)(a := None)\<rparr>"
      have "call_inv c ?s" using Cons.prems(1) by (simp add: frame_simps)
      moreover have "bus_holds held ?s ps" using Cons.prems(3) one(2) by (auto simp: bus_holds_def slot_of_def)
      ultimately show ?thesis
        using Cons.IH [of ?s "Some p" "pnext q" m] q(3) one(1) by (simp add: clean_at_def)
    qed
  qed
qed

lemma closeall_good:
  assumes inv: "call_inv c s" and law: "unref_law e held" and ps: "queue_is c s ps" and held: "bus_holds held s ps"
  shows "call_inv c (snd (closeall_pending n e c status msg s)) \<and> clean_at (closeall_pending n e c status msg) s"
proof -
  let ?r = "close_records n e (JTuple [status, msg]) (cqueue (conns s c)) s"
  have good: "call_inv c (snd ?r)" "clean_at (close_records n e (JTuple [status, msg]) (cqueue (conns s c))) s"
    "owners c (snd ?r)"
    using close_records_good [OF law inv _ held] ps by (auto simp: queue_is_def)
  have closed: "call_inv c (t\<lparr>conns := (conns t)(c := (conns t c)\<lparr>cqueue := None\<rparr>)\<rparr>)" if "owners c t" for t :: "'a world"
  proof (rule call_invI [where ps = "[]"])
    show "owners c (t\<lparr>conns := (conns t)(c := (conns t c)\<lparr>cqueue := None\<rparr>)\<rparr>)" using that by (simp add: owners_def)
  qed (simp_all add: queue_is_def)
  show ?thesis
  proof (cases "fst ?r")
    case (Inl x)
    then show ?thesis using good inv
      by (cases ?r) (auto simp: closeall_pending_def bnd_apply clean_at_def)
  next
    case (Inr u)
    then show ?thesis using good inv closed
      by (cases ?r) (auto simp: closeall_pending_def bnd_apply clean_at_def)
  qed
qed

subsection \<open>Operations and reachable states\<close>

text \<open>
  The operations on the calls and matches of a connection: a call or match is started, a message is
  handed to the handler of a callback state, the installation of a match is reported, a slot loses its
  last reference, everybody is told of the end of the connection. Each may happen whenever the callback
  state it is for exists. What \<open>process_bus\<close> does is a sequence of these operations.
\<close>

datatype call_op =
    StartCall ptr nat "64 word"
  | StartMatch string nat
  | Deliver nat ptr
  | Installed nat ptr
  | Release nat
  | CloseAll nat janet janet

primrec run_op :: "'w env \<Rightarrow> nat \<Rightarrow> call_op \<Rightarrow> ('w, unit) prog" where
  "run_op e c (StartCall msg ch timeout) =
     bnd (start_call e ''sd_bus_call_async'' c ch Call (\<lambda>bus a. sd_call_async e bus msg a timeout)) (\<lambda>_. ret ())"
| "run_op e c (StartMatch rule ch) =
     bnd (start_call e ''sd_bus_add_match_async'' c ch Match (\<lambda>bus a. sd_add_match_async e bus rule a)) (\<lambda>_. ret ())"
| "run_op e c (Deliver a msg) = bnd (message_handler e a msg) (\<lambda>_. ret ())"
| "run_op e c (Installed a msg) = bnd (signal_install_handler e a msg) (\<lambda>_. ret ())"
| "run_op e c (Release a) = destroy_call_callback a"
| "run_op e c (CloseAll n status msg) = closeall_pending n e c status msg"

primrec enabled :: "'w world \<Rightarrow> call_op \<Rightarrow> bool" where
  "enabled s (StartCall msg ch timeout) \<longleftrightarrow> True"
| "enabled s (StartMatch rule ch) \<longleftrightarrow> True"
| "enabled s (Deliver a msg) \<longleftrightarrow> asyncs s a \<noteq> None"
| "enabled s (Installed a msg) \<longleftrightarrow> asyncs s a \<noteq> None"
| "enabled s (Release a) \<longleftrightarrow> asyncs s a \<noteq> None"
| "enabled s (CloseAll n status msg) \<longleftrightarrow> True"

text \<open>
  Three operations go wrong in certain states, which the theorems below have to exclude: the slot of a
  stale call is released; a stale call is answered (again); all are told of the end of the connection
  while the library holds the last reference to the slot of one of them, as after a match was refused.
\<close>

primrec hazard :: "'w env \<Rightarrow> ('w \<Rightarrow> nat \<Rightarrow> bool) \<Rightarrow> nat \<Rightarrow> 'w world \<Rightarrow> call_op \<Rightarrow> bool" where
  "hazard e held c s (StartCall msg ch timeout) \<longleftrightarrow> False"
| "hazard e held c s (StartMatch rule ch) \<longleftrightarrow> False"
| "hazard e held c s (Deliver a msg) \<longleftrightarrow> stale c s a \<and> is_answer e s a msg"
| "hazard e held c s (Installed a msg) \<longleftrightarrow> False"
| "hazard e held c s (Release a) \<longleftrightarrow> stale c s a"
| "hazard e held c s (CloseAll n status msg) \<longleftrightarrow> (\<exists>ps. queue_is c s ps \<and> \<not> bus_holds held s ps)"

text \<open>Between two operations the world outside changes as it likes.\<close>

inductive call_step :: "'w env \<Rightarrow> ('w \<Rightarrow> nat \<Rightarrow> bool) \<Rightarrow> nat \<Rightarrow> 'w world \<Rightarrow> 'w world \<Rightarrow> bool" for e held c where
  operation: "enabled s op \<Longrightarrow> \<not> hazard e held c s op \<Longrightarrow> call_step e held c s (snd (run_op e c op s))"
| outside: "call_step e held c s (s\<lparr>ext := w\<rparr>)"

definition fresh_connection :: "nat \<Rightarrow> 'w world \<Rightarrow> bool" where
  "fresh_connection c s \<longleftrightarrow> asyncs s = Map.empty \<and> pend s = Map.empty \<and> cqueue (conns s c) = None"

definition reachable :: "'w env \<Rightarrow> ('w \<Rightarrow> nat \<Rightarrow> bool) \<Rightarrow> nat \<Rightarrow> 'w world \<Rightarrow> bool" where
  "reachable e held c s \<longleftrightarrow> (\<exists>s0. fresh_connection c s0 \<and> (call_step e held c)\<^sup>*\<^sup>* s0 s)"

lemma void_good: "call_inv c (snd (m s)) \<and> clean_at m s \<Longrightarrow>
    call_inv c (snd (bnd m (\<lambda>_. ret ()) s)) \<and> clean_at (bnd m (\<lambda>_. ret ())) s"
  by (auto simp: clean_at_def bnd_apply split: prod.splits sum.splits)

lemma call_op_good:
  assumes inv: "call_inv c s" and laws: "error_law e" "unref_law e held"
    and op: "enabled s op" "\<not> hazard e held c s op"
  shows "call_inv c (snd (run_op e c op s)) \<and> clean_at (run_op e c op) s"
proof (cases op)
  case (StartCall msg ch timeout)
  show ?thesis unfolding StartCall run_op.simps by (rule void_good [OF start_call_inv [OF inv]])
next
  case (StartMatch rule ch)
  show ?thesis unfolding StartMatch run_op.simps by (rule void_good [OF start_call_inv [OF inv]])
next
  case (Deliver a msg)
  then show ?thesis using void_good [OF message_handler_good [OF inv laws(1)]] op by simp
next
  case (Installed a msg)
  then show ?thesis using void_good [OF install_good [OF inv laws(1)]] op by auto
next
  case (Release a)
  then show ?thesis using destroy_good [OF inv] op by simp
next
  case (CloseAll n status msg)
  obtain ps where ps: "queue_is c s ps" using inv by (auto simp: call_inv_def)
  then have "bus_holds held s ps" using op(2) CloseAll by auto
  then show ?thesis using closeall_good [OF inv laws(2) ps] CloseAll by simp
qed

lemma call_step_inv:
  assumes "call_step e held c s t" "error_law e" "unref_law e held" "call_inv c s"
  shows "call_inv c t"
  using assms(1)
proof cases
  case (operation op)
  then show ?thesis using call_op_good [OF assms(4,2,3)] by blast
qed (use assms(4) in \<open>simp add: frame_simps\<close>)

interpretation call_life: invariant_system "fresh_connection c"
  "\<lambda>s t. error_law e \<and> unref_law e held \<and> call_step e held c s t" "call_inv c" for e held c
proof
  show "fresh_connection c s \<Longrightarrow> call_inv c s" for s :: "'a world"
    by (auto simp: fresh_connection_def call_inv_def owners_def queue_is_def intro!: exI [where x = "[]"])
  show "call_inv c s \<Longrightarrow> error_law e \<and> unref_law e held \<and> call_step e held c s t \<Longrightarrow> call_inv c t" for s t
    using call_step_inv by blast
qed

lemma reachable_inv:
  assumes "reachable e held c s" "error_law e" "unref_law e held"
  shows "call_inv c s"
  using call_life.reached_inv [where c = c and e = e and held = held] assms by (auto simp: reachable_def)

end
