(* ===== verification/Bus.thy ===== *)
theory Bus
  imports Async
begin

text \<open>
  \<open>src/bus.c\<close> and \<open>src/slot.c\<close>: opening, inspecting and closing a connection, and cancelling a slot.
  A connection is an abstract value of Janet; \<open>Conn\<close> is its memory.
\<close>

subsection \<open>Opening\<close>

text \<open>\<open>memset(conn, 0, sizeof(Conn))\<close>, the sd-bus call, and the event loop.\<close>

definition OPEN_BUS_CORE :: "'w env \<Rightarrow> string \<Rightarrow> ('w \<Rightarrow> (int \<times> ptr) \<times> 'w) \<Rightarrow> ('w, janet) prog" where
  "OPEN_BUS_CORE e fn open_fn =
     bnd fresh (\<lambda>c.
     bnd (upd (\<lambda>s. s\<lparr>conns := (conns s)(c :=
            \<lparr>cbus = None, cbus_stream = None, ctimer = None, cqueue = None\<rparr>)\<rparr>)) (\<lambda>_.
     bnd (CALL_SD_BUS_OUT fn open_fn) (\<lambda>bus.
     bnd (upd (\<lambda>s. s\<lparr>conns := (conns s)(c := (conns s c)\<lparr>cbus := bus\<rparr>)\<rparr>)) (\<lambda>_.
     bnd (init_async e c) (\<lambda>_.
     ret (JAbstract AbsBus c))))))"

definition cfun_open_user_bus :: "'w env \<Rightarrow> janet list \<Rightarrow> ('w, janet) prog" where
  "cfun_open_user_bus e argv =
     bnd (janet_fixarity argv 0) (\<lambda>_. OPEN_BUS_CORE e ''sd_bus_open_user'' (sd_open_user e))"

definition cfun_open_system_bus :: "'w env \<Rightarrow> janet list \<Rightarrow> ('w, janet) prog" where
  "cfun_open_system_bus e argv =
     bnd (janet_fixarity argv 0) (\<lambda>_. OPEN_BUS_CORE e ''sd_bus_open_system'' (sd_open_system e))"

definition cfun_open_user_machine :: "'w env \<Rightarrow> janet list \<Rightarrow> ('w, janet) prog" where
  "cfun_open_user_machine e argv =
     bnd (janet_fixarity argv 1) (\<lambda>_.
     bnd (janet_getcstring e argv 0) (\<lambda>machine.
     OPEN_BUS_CORE e ''sd_bus_open_user_machine'' (sd_open_user_machine e machine)))"

definition cfun_open_system_machine :: "'w env \<Rightarrow> janet list \<Rightarrow> ('w, janet) prog" where
  "cfun_open_system_machine e argv =
     bnd (janet_fixarity argv 1) (\<lambda>_.
     bnd (janet_getcstring e argv 0) (\<lambda>machine.
     OPEN_BUS_CORE e ''sd_bus_open_system_machine'' (sd_open_system_machine e machine)))"

definition cfun_open_system_remote :: "'w env \<Rightarrow> janet list \<Rightarrow> ('w, janet) prog" where
  "cfun_open_system_remote e argv =
     bnd (janet_fixarity argv 1) (\<lambda>_.
     bnd (janet_getcstring e argv 0) (\<lambda>host.
     OPEN_BUS_CORE e ''sd_bus_open_system_remote'' (sd_open_system_remote e host)))"

subsection \<open>Closing\<close>

text \<open>
  An event for a fiber runs the callback the fiber was started with. Closing a stream wakes its
  listener; \<open>n\<close> bounds what it runs.
\<close>

definition run_listener :: "nat \<Rightarrow> 'w env \<Rightarrow> listener \<Rightarrow> ('w, int \<times> bus_error option) prog" where
  "run_listener n e l = (case l of Listener fiber ev \<Rightarrow>
     bnd (gets (\<lambda>s. callbacks s fiber)) (\<lambda>callback.
     bnd (case callback of
            TimerCallback \<Rightarrow> timer_callback n e fiber ev
          | BusCallback \<Rightarrow> bus_callback n e fiber ev) (\<lambda>_.
     ret (0, None))))"

definition close_stream :: "nat \<Rightarrow> 'w env \<Rightarrow> nat \<Rightarrow> ('w, unit) prog" where
  "close_stream n e stream = calls_back (run_listener n e) (janet_stream_close e stream)"

definition flush_close_unref :: "'w env \<Rightarrow> ptr \<Rightarrow> ('w, unit) prog" where
  "flush_close_unref e bus = calls_back run_destroy (sd_flush_close_unref e bus)"

definition cfun_close_bus :: "nat \<Rightarrow> 'w env \<Rightarrow> janet list \<Rightarrow> ('w, janet) prog" where
  "cfun_close_bus n e argv =
     bnd (janet_fixarity argv 1) (\<lambda>_.
     bnd (janet_getabstract argv 0 AbsBus) (\<lambda>c.
     bnd (gets (\<lambda>s. cbus_stream (conns s c))) (\<lambda>stream.
     bnd (case stream of
            None \<Rightarrow> ret ()
          | Some a \<Rightarrow> bnd (close_stream n e a) (\<lambda>_.
              upd (\<lambda>s. s\<lparr>conns := (conns s)(c := (conns s c)\<lparr>cbus_stream := None\<rparr>)\<rparr>))) (\<lambda>_.
     bnd (gets (\<lambda>s. ctimer (conns s c))) (\<lambda>timer.
     bnd (case timer of
            None \<Rightarrow> ret ()
          | Some a \<Rightarrow> bnd (close_stream n e a) (\<lambda>_.
              upd (\<lambda>s. s\<lparr>conns := (conns s)(c := (conns s c)\<lparr>ctimer := None\<rparr>)\<rparr>))) (\<lambda>_.
     bnd (gets (\<lambda>s. cbus (conns s c))) (\<lambda>bus.
     bnd (flush_close_unref e bus) (\<lambda>_.
     bnd (upd (\<lambda>s. s\<lparr>conns := (conns s)(c := (conns s c)\<lparr>cbus := None\<rparr>)\<rparr>)) (\<lambda>_.
     ret JNil)))))))))"

definition dbus_bus_gc :: "'w env \<Rightarrow> nat \<Rightarrow> ('w, int) prog" where
  "dbus_bus_gc e c =
     bnd (gets (\<lambda>s. cbus (conns s c))) (\<lambda>bus.
     bnd (flush_close_unref e bus) (\<lambda>_.
     ret 0))"

text \<open>The objects \<open>dbus_bus_gcmark\<close> marks.\<close>

definition dbus_bus_gcmark :: "nat \<Rightarrow> ('w, nat list) prog" where
  "dbus_bus_gcmark c =
     gets (\<lambda>s. (case cbus_stream (conns s c) of Some a \<Rightarrow> [a] | None \<Rightarrow> []) @
               (case ctimer (conns s c) of Some a \<Rightarrow> [a] | None \<Rightarrow> []))"

subsection \<open>Inspecting\<close>

definition is_open :: "'w env \<Rightarrow> ptr \<Rightarrow> ('w, int) prog" where
  "is_open e bus = CALL_SD_BUS_FUNC ''sd_bus_is_open'' (sd_is_open e bus)"

text \<open>The string that \<open>dbus_bus_tostring\<close> pushes to its buffer.\<close>

definition dbus_bus_tostring :: "'w env \<Rightarrow> nat \<Rightarrow> ('w, string) prog" where
  "dbus_bus_tostring e c =
     bnd (gets (\<lambda>s. cbus (conns s c))) (\<lambda>bus.
     bnd (is_open e bus) (\<lambda>up.
     if up = 0 then ret ''closed''
     else CALL_SD_BUS_OUT ''sd_bus_get_unique_name'' (sd_get_unique_name e bus)))"

text \<open>The methods of a bus and of a slot, as \<open>janet_getmethod\<close> and \<open>janet_nextmethod\<close> see them.\<close>

definition dbus_bus_methods :: "string list" where
  "dbus_bus_methods = [''close'']"

definition dbus_bus_get :: "janet \<Rightarrow> string option" where
  "dbus_bus_get key = (case key of
      JKeyword k \<Rightarrow> if k \<in> set dbus_bus_methods then Some k else None
    | _ \<Rightarrow> None)"

fun next_method :: "string list \<Rightarrow> janet \<Rightarrow> janet" where
  "next_method ms JNil = (case ms of [] \<Rightarrow> JNil | m # _ \<Rightarrow> JKeyword m)"
| "next_method ms key = (case dropWhile (\<lambda>m. JKeyword m \<noteq> key) ms of
      _ # m # _ \<Rightarrow> JKeyword m
    | _ \<Rightarrow> JNil)"

definition dbus_bus_next :: "janet \<Rightarrow> janet" where
  "dbus_bus_next key = next_method dbus_bus_methods key"

definition cfun_bus_is_open :: "'w env \<Rightarrow> janet list \<Rightarrow> ('w, janet) prog" where
  "cfun_bus_is_open e argv =
     bnd (janet_fixarity argv 1) (\<lambda>_.
     bnd (get_bus argv 0) (\<lambda>bus.
     bnd (is_open e bus) (\<lambda>check.
     ret (JBoolean (check \<noteq> 0)))))"

definition cfun_get_unique_name :: "'w env \<Rightarrow> janet list \<Rightarrow> ('w, janet) prog" where
  "cfun_get_unique_name e argv =
     bnd (janet_fixarity argv 1) (\<lambda>_.
     bnd (get_bus argv 0) (\<lambda>bus.
     bnd (is_open e bus) (\<lambda>up.
     if up = 0 then ret (JString ''closed'')
     else
       bnd (CALL_SD_BUS_OUT ''sd_bus_get_unique_name'' (sd_get_unique_name e bus)) (\<lambda>name.
       ret (JString name)))))"

definition cfun_set_allow_interactive_authorization :: "'w env \<Rightarrow> janet list \<Rightarrow> ('w, janet) prog" where
  "cfun_set_allow_interactive_authorization e argv =
     bnd (janet_fixarity argv 2) (\<lambda>_.
     bnd (get_bus argv 0) (\<lambda>bus.
     bnd (janet_getboolean argv 1) (\<lambda>allow.
     bnd (CALL_SD_BUS_FUNC ''sd_bus_set_allow_interactive_authorization''
            (sd_set_allow_interactive e bus allow)) (\<lambda>_.
     ret JNil))))"

definition cfun_list_names :: "'w env \<Rightarrow> janet list \<Rightarrow> ('w, janet) prog" where
  "cfun_list_names e argv =
     bnd (janet_fixarity argv 1) (\<lambda>_.
     bnd (get_bus argv 0) (\<lambda>bus.
     bnd (CALL_SD_BUS_OUT ''sd_bus_list_names'' (sd_list_names e bus)) (\<lambda>acquired.
     ret (JArray (map JString acquired)))))"

subsection \<open>Slots\<close>

text \<open>\<open>sd_bus_slot_unrefp(slot_ptr); *slot_ptr = NULL\<close>.\<close>

definition release_slot :: "'w env \<Rightarrow> nat \<Rightarrow> ('w, unit) prog" where
  "release_slot e slot =
     bnd (gets (\<lambda>s. slots s slot)) (\<lambda>p.
     bnd (sd_bus_slot_unrefp e p) (\<lambda>_.
     upd (\<lambda>s. s\<lparr>slots := (slots s)(slot := None)\<rparr>)))"

definition dbus_slot_gc :: "'w env \<Rightarrow> nat \<Rightarrow> ('w, int) prog" where
  "dbus_slot_gc e slot = bnd (release_slot e slot) (\<lambda>_. ret 0)"

definition dbus_slot_methods :: "string list" where
  "dbus_slot_methods = [''close'']"

definition dbus_slot_next :: "janet \<Rightarrow> janet" where
  "dbus_slot_next key = next_method dbus_slot_methods key"

definition cfun_cancel_slot :: "'w env \<Rightarrow> janet list \<Rightarrow> ('w, janet) prog" where
  "cfun_cancel_slot e argv =
     bnd (janet_fixarity argv 1) (\<lambda>_.
     bnd (janet_getabstract argv 0 AbsSlot) (\<lambda>slot.
     bnd (gets (\<lambda>s. slots s slot)) (\<lambda>p.
     bnd (extern (sd_slot_set_floating e p False)) (\<lambda>_.
     bnd (release_slot e slot) (\<lambda>_.
     ret JNil)))))"

end
