(* ===== verification/Bus_Spec.thy ===== *)
theory Bus_Spec
  imports Lifecycle Bus Handles
begin

text \<open>
  What the functions of \<open>src/bus.c\<close> and \<open>src/slot.c\<close> do together with the event loop and the callbacks:
  opening, closing, and cancelling a slot.
\<close>

subsection \<open>Closing\<close>

text \<open>
  \<open>notifies e held stream l\<close>: \<open>janet_stream_close\<close> reports the end of the stream to its listener \<open>l\<close>;
  it has nothing to do with the slots of the bus.
  \<open>destroys as\<close>: the bus is freed, and lets go of the slots of the callback states \<open>as\<close>, in this order.
\<close>

definition notifies :: "'w env \<Rightarrow> ('w \<Rightarrow> nat \<Rightarrow> bool) \<Rightarrow> nat \<Rightarrow> listener \<Rightarrow> bool" where
  "notifies e held stream l \<longleftrightarrow>
     (\<forall>w. \<exists>w1 f. janet_stream_close e stream w = Invoke l w1 (\<lambda>_ w'. Done () (f w')) \<and> held w1 = held w)"

fun destroys :: "nat list \<Rightarrow> 'w \<Rightarrow> (destroy_cb, unit, 'w) action" where
  "destroys [] w = Done () w"
| "destroys (a # as) w = Invoke (DestroyCall a) w (\<lambda>_ w'. destroys as w')"

lemma owners_freed:
  "owners c s \<Longrightarrow> asyncs s a = Some st \<Longrightarrow> pend t = (pend s)(as_pending st := None) \<Longrightarrow>
     asyncs t = (asyncs s)(a := None) \<Longrightarrow> next_id t = next_id s \<Longrightarrow> owners c t"
  unfolding owners_def by auto

lemma destroys_run:
  assumes "owners c s" "queue_is c s []" "distinct as" "\<forall>a \<in> set as. asyncs s a \<noteq> None"
  shows "\<exists>t. run_action run_destroy (destroys as w) s = (Inr (), t) \<and> asyncs t = asyncs s |` (- set as)
    \<and> pend t = pend s |` (- (pending_of s ` set as)) \<and> conns t = conns s \<and> trace t = trace s \<and> slots t = slots s"
  using assms
proof (induction as arbitrary: s w)
  case Nil
  then show ?case by (simp add: bnd_apply)
next
  case (Cons a as)
  let ?s = "s\<lparr>ext := w\<rparr>"
  obtain st where st: "asyncs s a = Some st" using Cons.prems(4) by auto
  have tr: "tracks ?s c a []" using Cons.prems(1,2) st by (auto simp: tracks_def owners_def queue_is_def)
  have p: "as_pending st = pending_of ?s a" using st by (simp add: pending_of_def)
  obtain t where t: "destroy_call_callback a ?s = (Inr (), t)" "queue_is c t []"
    "pend t = (pend ?s)(as_pending st := None)" "asyncs t = (asyncs ?s)(a := None)" "trace t = trace ?s" "ext t = ext ?s"
    "next_id t = next_id ?s" "conns t = conns ?s" "slots t = slots ?s"
    using destroy_idle [OF tr p] by blast
  have own: "owners c t" by (rule owners_freed [OF Cons.prems(1) st]) (use t in simp_all)
  have alive: "\<forall>b \<in> set as. asyncs t b \<noteq> None" using Cons.prems(3,4) t(4) by auto
  obtain u where u: "run_action run_destroy (destroys as w) t = (Inr (), u)" "asyncs u = asyncs t |` (- set as)"
    "pend u = pend t |` (- (pending_of t ` set as))" "conns u = conns t" "trace u = trace t" "slots u = slots t"
    using Cons.IH [OF own t(2) _ alive] Cons.prems(3) by auto
  have "pending_of t ` set as = pending_of s ` set as"
    using t(4) Cons.prems(3) by (intro image_cong) (auto simp: pending_of_def)
  moreover have "pending_of s a = as_pending st" using st by (simp add: pending_of_def)
  moreover have "run_destroy (DestroyCall a) ?s = (Inr (0, None), t)" using t(1) by (simp add: run_destroy_def bnd_apply)
  then have "run_action run_destroy (destroys (a # as) w) s = run_action run_destroy (destroys as w) t"
    using t(6) by (simp add: bnd_apply)
  ultimately show ?case
    using t u st by (auto simp: restrict_map_def fun_eq_iff)
qed

lemma close_stream_run:
  assumes "notifies e held stream l"
    and "\<And>w. held w = held (ext s) \<Longrightarrow> \<exists>t. run_listener n e l (s\<lparr>ext := w\<rparr>) = (Inr x, t) \<and> P t" and "\<And>t w. P t \<Longrightarrow> P (t\<lparr>ext := w\<rparr>)"
  shows "\<exists>t. close_stream n e stream s = (Inr (), t) \<and> P t"
proof -
  obtain w1 f where close: "janet_stream_close e stream (ext s) = Invoke l w1 (\<lambda>_ w'. Done () (f w'))"
    and held: "held w1 = held (ext s)"
    using assms(1) unfolding notifies_def by blast
  obtain t where t: "run_listener n e l (s\<lparr>ext := w1\<rparr>) = (Inr x, t)" "P t" using assms(2) [OF held] by blast
  then have "close_stream n e stream s = (Inr (), t\<lparr>ext := f (ext t)\<rparr>)"
    using close by (simp add: close_stream_def calls_back_def bnd_apply)
  then show ?thesis using assms(3) [OF t(2)] by blast
qed

text \<open>
  Closing a connection whose streams are in the event loop: everyone waiting is told, the fibers of
  the two listeners end, the freed bus destroys the callback states, and the connection is empty.
\<close>

lemma close_bus_run:
  fixes e :: "'w env"
  assumes law: "unref_law e held" and own: "owners c s" and q: "queue_is c s ps" "length ps \<le> n"
    and held: "bus_holds held s ps"
    and ok: "\<forall>p \<in> set ps. \<forall>w. \<not> janet_channel_closed e (chan_of s p) w"
    and streams: "cbus_stream (conns s c) = Some a" "ctimer (conns s c) = Some d"
    and fib: "fibers s fb = c" "callbacks s fb = BusCallback" "callbacks s ft = TimerCallback"
      "notifies e held a (Listener fb EvClose)" "notifies e held d (Listener ft EvClose)"
    and bus: "\<forall>w. \<exists>w'. sd_flush_close_unref e (cbus (conns s c)) w = destroys as w'"
    and as: "distinct as" "\<forall>x \<in> set as. asyncs s x \<noteq> None"
  shows "\<exists>t. cfun_close_bus n e [JAbstract AbsBus c] s = (Inr JNil, t)
    \<and> trace t = trace s @ told s (JTuple [JKeyword ''close'', JString ''D-Bus connection closed'']) ps
        @ [Schedule fb JNil, AsyncEnd fb, Schedule ft JNil, AsyncEnd ft]
    \<and> conns t c = \<lparr>cbus = None, cbus_stream = None, ctimer = None, cqueue = None\<rparr>
    \<and> asyncs t = asyncs s |` (- set as) \<and> pend t = pend s |` (- (pending_of s ` set as))"
proof -
  let ?tuple = "JTuple [JKeyword ''close'', JString ''D-Bus connection closed'']"
  let ?P = "\<lambda>t :: 'w world. pend t = pend s \<and> asyncs t = asyncs s \<and> next_id t = next_id s \<and> callbacks t = callbacks s \<and>
      trace t = trace s @ told s ?tuple ps @ [Schedule fb JNil, AsyncEnd fb] \<and>
      conns t = (conns s)(c := (conns s c)\<lparr>cqueue := None\<rparr>)"
  have slot: "slot_of s p \<noteq> None" if p: "p \<in> set ps" for p
  proof -
    have "\<exists>r. pend s p = Some r" using p q(1) chain_alive unfolding queue_is_def by blast
    then show ?thesis using own by (auto simp: owners_def slot_of_def)
  qed
  have listener: "\<exists>t. run_listener n e (Listener fb EvClose) (s\<lparr>ext := w\<rparr>) = (Inr (0, None), t) \<and> ?P t"
    if w: "held w = held (ext s)" for w
  proof -
    let ?s = "s\<lparr>ext := w\<rparr>"
    have "queue_is c ?s ps" "fibers ?s fb = c" using q(1) fib(1) by simp_all
    moreover have "bus_holds held ?s ps" using held w by (simp add: bus_holds_def slot_of_def)
    moreover have "\<forall>p \<in> set ps. slot_of ?s p \<noteq> None \<and> (\<forall>w. \<not> janet_channel_closed e (chan_of ?s p) w)"
      using slot ok by (simp add: slot_of_def chan_of_def)
    moreover have "goodbye fb EvClose = Some (?tuple, [Schedule fb JNil, AsyncEnd fb])" by (simp add: goodbye_def)
    ultimately obtain t where "bus_callback n e fb EvClose ?s = (Inr (), t)" "pend t = pend s"
      "trace t = trace s @ told ?s ?tuple ps @ [Schedule fb JNil, AsyncEnd fb]"
      "conns t = (conns s)(c := (conns s c)\<lparr>cqueue := None\<rparr>)" "asyncs t = asyncs s" "next_id t = next_id s"
      "callbacks t = callbacks s"
      using bus_callback_ends [OF law, where s = ?s and fiber = fb and c = c and ps = ps and n = n and ev = EvClose] q(2)
      by auto
    then show ?thesis using fib(2) by (simp add: run_listener_def bnd_apply told_def chan_of_def)
  qed
  obtain t1 where t1: "close_stream n e a s = (Inr (), t1)" "?P t1"
    using close_stream_run [OF fib(4) listener] by auto
  let ?c1 = "(conns s c)\<lparr>cqueue := None, cbus_stream := None\<rparr>"
  let ?t1 = "t1\<lparr>conns := (conns t1)(c := (conns t1 c)\<lparr>cbus_stream := None\<rparr>)\<rparr>"
  let ?Q = "\<lambda>t :: 'w world. pend t = pend s \<and> asyncs t = asyncs s \<and> next_id t = next_id s \<and>
      trace t = trace t1 @ [Schedule ft JNil, AsyncEnd ft] \<and> conns t = conns ?t1"
  have "\<exists>t. run_listener n e (Listener ft EvClose) (?t1\<lparr>ext := w\<rparr>) = (Inr (0, None), t) \<and> ?Q t" for w
    using t1(2) fib(3) by (simp add: run_listener_def timer_callback_def END_LISTENER_def emit_def bnd_apply)
  then obtain t2 where t2: "close_stream n e d ?t1 = (Inr (), t2)" "?Q t2"
    using close_stream_run [OF fib(5), of ?t1 n "(0, None)" ?Q] by auto
  let ?t2 = "t2\<lparr>conns := (conns t2)(c := (conns t2 c)\<lparr>ctimer := None\<rparr>)\<rparr>"
  have own2: "owners c ?t2" using own t1(2) t2(2) by (simp add: owners_def)
  have q2: "queue_is c ?t2 []" using t1(2) t2(2) by (simp add: queue_is_def)
  obtain w' where w': "sd_flush_close_unref e (cbus (conns s c)) (ext t2) = destroys as w'" using bus by blast
  have alive: "\<forall>x \<in> set as. asyncs ?t2 x \<noteq> None" using as(2) t2(2) by simp
  obtain t3 where t3: "run_action run_destroy (destroys as w') ?t2 = (Inr (), t3)" "asyncs t3 = asyncs s |` (- set as)"
    "pend t3 = pend s |` (- (pending_of ?t2 ` set as))" "conns t3 = conns ?t2" "trace t3 = trace t2"
    using destroys_run [OF own2 q2 as(1) alive, of w'] t2(2) by auto
  have run: "cfun_close_bus n e [JAbstract AbsBus c] s
      = (Inr JNil, t3\<lparr>conns := (conns t3)(c := (conns t3 c)\<lparr>cbus := None\<rparr>)\<rparr>)"
    using streams t1 t2 t3(1) w'
    by (simp add: cfun_close_bus_def bnd_apply flush_close_unref_def calls_back_def janet_getabstract_def)
  moreover have "pending_of ?t2 = pending_of s" using t2(2) by (simp add: pending_of_def fun_eq_iff)
  ultimately show ?thesis using t1(2) t2(2) t3 by (simp add: run)
qed

lemma close_bus_again:
  assumes "conns s c = \<lparr>cbus = None, cbus_stream = None, ctimer = None, cqueue = None\<rparr>"
    and "sd_flush_close_unref e None (ext s) = Done () (ext s)"
  shows "cfun_close_bus n e [JAbstract AbsBus c] s = (Inr JNil, s)"
proof -
  have "(conns s)(c := (conns s c)\<lparr>cbus := None\<rparr>) = conns s" by (intro fun_upd_idem) (simp add: assms(1))
  then show ?thesis
    using assms by (simp add: cfun_close_bus_def bnd_apply flush_close_unref_def calls_back_def janet_getabstract_def)
qed

subsection \<open>Opening\<close>

lemma open_bus_run:
  fixes e :: "'w env"
  assumes f: "f (ext s) = ((rv, bus), w0)" "0 \<le> rv"
    and timer: "sys_timerfd_create e w0 = (tfd, w1)" "tfd \<noteq> - 1" and mem: "\<forall>w. fst (sys_malloc e w)"
    and fd: "\<forall>w. fst (sd_get_fd e bus w) = fd" "0 \<le> fd" and ev: "\<forall>w. fst (sd_get_events e bus w) = ev" "0 \<le> ev"
    and c: "c = next_id s"
  shows "\<exists>t. OPEN_BUS_CORE e fn f s = (Inr (JAbstract AbsBus c), t)
    \<and> conns t c = \<lparr>cbus = bus, cbus_stream = Some (c + 3), ctimer = Some (c + 1), cqueue = None\<rparr>
    \<and> streams t (c + 1) = \<lparr>s_handle = tfd, s_flags = {StreamReadable}\<rparr>
    \<and> streams t (c + 3) = \<lparr>s_handle = fd, s_flags = poll_flags ev \<union> {StreamNotCloseable}\<rparr>
    \<and> fibers t (c + 2) = c \<and> fibers t (c + 4) = c
    \<and> callbacks t (c + 2) = TimerCallback \<and> callbacks t (c + 4) = BusCallback
    \<and> trace t = trace s @ [AsyncStart (c + 2) (c + 1), AsyncStart (c + 4) (c + 3)]"
proof -
  let ?s = "s\<lparr>next_id := Suc c, ext := w0,
      conns := (conns s)(c := \<lparr>cbus = bus, cbus_stream = None, ctimer = None, cqueue = None\<rparr>)\<rparr>"
  have bus: "cbus (conns ?s c) = bus" by simp
  obtain t where t: "init_async e c ?s = (Inr (), t)"
    "conns t = (conns ?s)(c := (conns ?s c)\<lparr>ctimer := Some (Suc c), cbus_stream := Some (Suc c + 2)\<rparr>)"
    "streams t (Suc c) = \<lparr>s_handle = tfd, s_flags = {StreamReadable}\<rparr>"
    "streams t (Suc c + 2) = \<lparr>s_handle = fd, s_flags = poll_flags ev \<union> {StreamNotCloseable}\<rparr>"
    "fibers t (Suc c + 1) = c" "fibers t (Suc c + 3) = c"
    "callbacks t (Suc c + 1) = TimerCallback" "callbacks t (Suc c + 3) = BusCallback"
    "trace t = trace ?s @ [AsyncStart (Suc c + 1) (Suc c), AsyncStart (Suc c + 3) (Suc c + 2)]"
    using init_async_run [of e ?s tfd w1 c fd ev] timer mem fd ev by (simp only: bus) auto
  have "OPEN_BUS_CORE e fn f s = (Inr (JAbstract AbsBus c), t)"
    using f c t(1)
    by (simp add: OPEN_BUS_CORE_def bnd_apply fresh_def CALL_SD_BUS_OUT_def)
  then show ?thesis using t(2-9) by (simp add: numeral_eq_Suc)
qed

text \<open>A bus that cannot be opened leaves an empty connection, which is harmless to collect.\<close>

lemma open_bus_refused:
  assumes "f (ext s) = ((rv, bus), w0)" "rv < 0" and "c = next_id s"
  shows "OPEN_BUS_CORE e fn f s = (Inl (Panicf ''failed to call %s: %s'' [PStr fn, PInt (- rv)]),
    s\<lparr>next_id := Suc c, ext := w0,
      conns := (conns s)(c := \<lparr>cbus = None, cbus_stream = None, ctimer = None, cqueue = None\<rparr>)\<rparr>)"
  using assms by (simp add: OPEN_BUS_CORE_def bnd_apply fresh_def CALL_SD_BUS_OUT_def)

subsection \<open>Slots\<close>

interpretation slot_handle: handle slots "release_slot e" for e
proof
  show "release_slot e a s = (Inr (), t) \<Longrightarrow> slots t a = None" for a s t
    by (auto simp: release_slot_def bnd_eq_Inr)
  show "\<exists>w. release_slot e a s = (Inr (), s\<lparr>ext := w\<rparr>)" if "slots s a = None" for a s
  proof -
    have "(slots s)(a := None) = slots s" using that by (simp add: fun_upd_idem)
    then show ?thesis
      using that by (intro exI [of _ "ext s"]) (simp add: release_slot_def sd_bus_slot_unrefp_def bnd_apply)
  qed
qed simp

text \<open>
  Cancelling first takes the reference of the bus, so that the library's is the last one: the destroy
  callback runs.
\<close>

lemma cancel_slot_run:
  fixes e :: "'w env"
  assumes laws: "slot_laws e held cb" and sl: "slots s slot = Some x" "cb (ext s) x = Some (DestroyCall a)"
    and tr: "tracks s c a ps" and p: "p = pending_of s a" "p \<in> set ps"
  shows "\<exists>t. cfun_cancel_slot e [JAbstract AbsSlot slot] s = (Inr JNil, t) \<and> queue_is c t (remove1 p ps)
    \<and> pend t p = None \<and> asyncs t = (asyncs s)(a := None) \<and> slots t slot = None \<and> trace t = trace s
    \<and> (\<exists>w. cfun_cancel_slot e [JAbstract AbsSlot slot] t = (Inr JNil, t\<lparr>ext := w\<rparr>))
    \<and> (\<exists>w. dbus_slot_gc e slot t = (Inr 0, t\<lparr>ext := w\<rparr>))"
proof -
  obtain rv w where fl: "sd_slot_set_floating e (Some x) False (ext s) = (rv, w)" by (metis prod.exhaust)
  then have w: "\<not> held w x" "cb w x = Some (DestroyCall a)" using not_floating [OF laws fl] sl(2) by simp_all
  obtain w1 g where u: "sd_slot_unref e (Some x) w = Invoke (DestroyCall a) w1 (\<lambda>_ w'. Done () (g w'))"
    using last_unref [OF laws w] by blast
  have tr1: "tracks (s\<lparr>ext := w1\<rparr>) c a ps" "p = pending_of (s\<lparr>ext := w1\<rparr>) a"
    using tr p(1) by (simp_all add: tracks_def pending_of_def)
  obtain t where t: "destroy_call_callback a (s\<lparr>ext := w1\<rparr>) = (Inr (), t)" "queue_is c t (remove1 p ps)"
    "pend t p = None" "asyncs t = (asyncs s)(a := None)" "trace t = trace s"
    using destroy_pending [OF tr1 p(2)] by auto
  let ?t = "t\<lparr>ext := g (ext t), slots := (slots t)(slot := None)\<rparr>"
  have "cfun_cancel_slot e [JAbstract AbsSlot slot] s = (Inr JNil, ?t)"
    using sl(1) fl u t(1)
    by (simp add: cfun_cancel_slot_def release_slot_def sd_bus_slot_unrefp_def calls_back_def run_destroy_def
        janet_getabstract_def bnd_apply)
  moreover have "(slots t)(slot := None, slot := None) = (slots t)(slot := None)" by simp
  then have "cfun_cancel_slot e [JAbstract AbsSlot slot] ?t
      = (Inr JNil, ?t\<lparr>ext := snd (sd_slot_set_floating e None False (ext ?t))\<rparr>)"
    by (simp add: cfun_cancel_slot_def release_slot_def sd_bus_slot_unrefp_def janet_getabstract_def bnd_apply)
  moreover have "\<exists>w. dbus_slot_gc e slot ?t = (Inr 0, ?t\<lparr>ext := w\<rparr>)"
    using slot_handle.harmless [of ?t slot e] by (auto simp: dbus_slot_gc_def bnd_apply)
  ultimately show ?thesis using t(2-5) by (intro exI [of _ ?t]) (auto simp: queue_is_def)
qed

text \<open>
  A match that the bus refused stays in the queue, but the bus lets go of its slot. Telling it of the
  end of the connection drops the last reference: the destroy callback frees the record that
  \<open>closeall_pending\<close> is about to write to.
\<close>

lemma close_unheld:
  assumes laws: "slot_laws e held cb" and q: "queue_is c s (p # qs)" "pend s p = Some q"
    and a: "asyncs s a = Some \<lparr>as_conn = c, as_pending = p\<rparr>"
    and sl: "pslot q = Some i" "slots s i = Some x" "\<not> held (ext s) x" "cb (ext s) x = Some (DestroyCall a)"
    and open_: "\<not> janet_channel_closed e (pchan q) (ext s)"
  shows "fst (closeall_pending (Suc n) e c status msg s) = Inl (UB UseAfterFree)"
proof -
  obtain w1 g where u: "sd_slot_unref e (Some x) (ext s) = Invoke (DestroyCall a) w1 (\<lambda>_ w'. Done () (g w'))"
    using last_unref [OF laws sl(3,4)] by blast
  let ?s = "s\<lparr>trace := trace s @ [Give (pchan q) (JTuple [status, msg])], ext := w1\<rparr>"
  have tr: "tracks ?s c a (p # qs)" "p = pending_of ?s a"
    using q a by (auto simp: tracks_def pending_of_def)
  obtain t where t: "destroy_call_callback a ?s = (Inr (), t)" "pend t p = None"
    using destroy_pending [OF tr] by auto
  have "cqueue (conns s c) = Some p" using q(1) by (simp add: queue_is_def)
  then show ?thesis
    using q(2) sl(1,2) u t open_
    by (simp add: closeall_pending_def bnd_apply nonnull_def sd_bus_slot_unrefp_def calls_back_def run_destroy_def)
qed

subsection \<open>Inspecting\<close>

text \<open>Iterating over the methods of an object visits each of them once.\<close>

lemma dropWhile_nth:
  "distinct ms \<Longrightarrow> i < length ms \<Longrightarrow> dropWhile (\<lambda>m. JKeyword m \<noteq> JKeyword (ms ! i)) ms = drop i ms"
proof (induction ms arbitrary: i)
  case (Cons m ms)
  then show ?case by (cases i) auto
qed simp

lemma next_method_nth:
  assumes "distinct ms" "i < length ms"
  shows "next_method ms (JKeyword (ms ! i)) = (if Suc i < length ms then JKeyword (ms ! Suc i) else JNil)"
proof -
  have "drop i ms = ms ! i # drop (Suc i) ms" using assms(2) by (simp add: Cons_nth_drop_Suc)
  then show ?thesis
    using dropWhile_nth [OF assms]
    by (cases "Suc i < length ms") (simp_all add: Cons_nth_drop_Suc [symmetric])
qed

text \<open>The name of a connection is what its string representation shows.\<close>

lemma unique_name_tostring:
  assumes "argv = [JAbstract AbsBus c]"
  shows "cfun_get_unique_name e argv s = (case dbus_bus_tostring e c s of (Inl p, t) \<Rightarrow> (Inl p, t)
    | (Inr name, t) \<Rightarrow> (Inr (JString name), t))"
  by (simp add: cfun_get_unique_name_def dbus_bus_tostring_def assms get_bus_def janet_getabstract_def bnd_apply
      CALL_SD_BUS_OUT_def is_open_def split: prod.split sum.split)

end
