(* ===== verification/Start_Spec.thy ===== *)
theory Start_Spec
  imports Lifecycle
begin

text \<open>
  How a call or a match starts (\<open>src/call.c\<close>): on success its record is the newest of the queue, Janet
  gets an object for the slot, and the bus holds the slot too, with the destroy callback of this very
  call; if sd-bus refuses, both blocks are freed and nobody hears of it.
\<close>

definition started ::
  "('w \<Rightarrow> nat \<Rightarrow> bool) \<Rightarrow> ('w \<Rightarrow> nat \<Rightarrow> destroy_cb option) \<Rightarrow> nat \<Rightarrow> nat list \<Rightarrow> nat \<Rightarrow> pending_kind \<Rightarrow> nat \<Rightarrow> nat \<Rightarrow>
    'w world \<Rightarrow> 'w world \<Rightarrow> bool" where
  "started held cb c ps ch k a slot s t \<longleftrightarrow> (\<exists>p r x.
     queue_is c t (p # ps) \<and> pend s p = None \<and> pend t p = Some r
     \<and> payload r = (Some slot, ch, k) \<and> asyncs s a = None \<and> asyncs t = (asyncs s)(a \<mapsto> \<lparr>as_conn = c, as_pending = p\<rparr>)
     \<and> slots t = (slots s)(slot := Some x) \<and> held (ext t) = (held (ext s))(x := True)
     \<and> cb (ext t) x = Some (DestroyCall a) \<and> trace t = trace s
     \<and> (\<forall>y. y \<noteq> p \<longrightarrow> map_option payload (pend t y) = map_option payload (pend s y)))"

lemma call_inv_fresh:
  assumes inv: "call_inv c s" and q: "queue_is c s ps" and n: "n = next_id s"
  shows "pend s n = None" "asyncs s (Suc (Suc n)) = None" "n \<notin> set ps"
proof -
  have own: "owners c s" and sub: "set ps \<subseteq> owned s"
    using inv queue_is_unique [OF q] by (auto simp: call_inv_def)
  show new: "pend s n = None"
    using own n unfolding owners_def by (metis less_irrefl option.exhaust)
  show "asyncs s (Suc (Suc n)) = None"
    using own n unfolding owners_def by (metis lessI less_SucI not_less_iff_gr_or_eq option.exhaust)
  show "n \<notin> set ps" using q new chain_alive by (fastforce simp: queue_is_def)
qed

lemma start_call_run:
  fixes e :: "'w env"
  assumes inv: "call_inv c s" and q: "queue_is c s ps" and laws: "slot_laws e held cb"
    and f: "\<And>bus a w rv p w'. f bus a w = ((rv, p), w') \<Longrightarrow>
       held w' = held w \<and> (0 \<le> rv \<longrightarrow> p \<noteq> None \<and> 0 \<le> fst (sd_slot_set_floating e p True w'))"
  shows "case start_call e fn c ch k f s of
      (Inr (a, slot), t) \<Rightarrow> started held cb c ps ch k a slot s t
    | (Inl err, t) \<Rightarrow> queue_is c t ps \<and> asyncs t = asyncs s \<and> trace t = trace s \<and>
        (err = OutOfMemory \<or> pend t = pend s \<and> (\<exists>rv < 0. err = Panicf (''failed to call '' @ fn @ '': %s'') [PInt (- rv)]))"
proof -
  define n where "n = next_id s"
  note new = call_inv_fresh [OF inv q n_def]
  obtain ok w where m1: "sys_malloc e (ext s) = (ok, w)" by (metis prod.exhaust)
  obtain ok' w' where m2: "sys_malloc e w = (ok', w')" by (metis prod.exhaust)
  let ?r = "\<lparr>pslot = Some (Suc n), pchan = ch, pnext = None, pprev = None, pkind = k\<rparr>"
  let ?s = "s\<lparr>slots := (slots s)(Suc n := None), ext := w', next_id := Suc (Suc (Suc n)),
      asyncs := (asyncs s)(Suc (Suc n) \<mapsto> \<lparr>as_conn = c, as_pending = n\<rparr>), pend := (pend s)(n \<mapsto> ?r)\<rparr>"
  show ?thesis
  proof (cases "ok \<and> ok'")
    case False
    then show ?thesis
      using q new(3) by (auto simp: start_call_def bnd_apply init_callback_run m1 m2 Let_def n_def queue_is_def)
  next
    case True
    obtain rv p w2 where fr: "f (cbus (conns s c)) (Suc (Suc n)) w' = ((rv, p), w2)" by (metis prod.exhaust)
    have run: "start_call e fn c ch k f s = bnd (register e fn c (Suc (Suc n)) (f (cbus (conns s c)) (Suc (Suc n))))
        (\<lambda>slot. ret (Suc (Suc n), slot)) ?s"
      using True by (simp add: start_call_def bnd_apply init_callback_run m1 m2 Let_def n_def set_kind_def)
    have same: "held w2 = held (ext s)"
      using malloc_slots [OF laws m1] malloc_slots [OF laws m2] f [OF fr] by simp
    show ?thesis
    proof (cases "rv < 0")
      case neg: True
      have "(pend s)(n := None) = pend s" "(asyncs s)(Suc (Suc n) := None) = asyncs s"
        using new by (simp_all add: fun_upd_idem)
      then show ?thesis
        unfolding run using neg fr q
        by (auto simp: register_def bnd_apply nonnull_def FREE_CALL_STATE_def queue_is_def)
    next
      case pos: False
      obtain x where x: "p = Some x" "0 \<le> fst (sd_slot_set_floating e p True w2)" using f [OF fr] pos by auto
      obtain r3 w3 where fl: "sd_slot_set_floating e (Some x) True w2 = (r3, w3)" "0 \<le> r3"
        using x by (cases "sd_slot_set_floating e (Some x) True w2") auto
      have w3: "held w3 = (held (ext s))(x := True)" using floating [OF laws fl(1)] fl(2) same by simp
      let ?s5 = "?s\<lparr>ext := w2, slots := (slots ?s)(Suc n := Some x), ext := w3\<rparr>"
      have q5: "queue_is c ?s5 ps" using q new(3) by (simp add: queue_is_def)
      obtain t where t: "queue_pending c n ?s5 = (Inr (), t)" "queue_is c t (n # ps)" "relinks c (set (n # ps)) ?s5 t"
        using queue_pending_spec [OF q5 new(3), of ?r] by auto
      note rel = relinksD [OF t(3)]
      obtain r4 w4 where de: "sd_slot_set_destroy e (Some x) (DestroyCall (Suc (Suc n))) (ext t) = (r4, w4)"
        by (metis prod.exhaust)
      have w4: "held w4 = (held (ext s))(x := True)" "cb w4 x = Some (DestroyCall (Suc (Suc n)))"
        using destroy_set [OF laws de] w3 rel(1) by simp_all
      obtain r where r: "pend t n = Some r" "payload r = payload ?r"
        using rel(10) [of n] by (cases "pend t n") auto
      have "start_call e fn c ch k f s = (Inr (Suc (Suc n), Suc n), t\<lparr>ext := w4\<rparr>)"
        unfolding run using pos fr x(1) fl(1) t(1) de rel(4)
        by (simp add: register_def bnd_apply nonnull_def set_slot_def)
      moreover have "started held cb c ps ch k (Suc (Suc n)) (Suc n) s (t\<lparr>ext := w4\<rparr>)"
        unfolding started_def using t(2) r new w4 rel
        by (intro exI [of _ n] exI [of _ r] exI [of _ x]) (simp add: payload_def)
      ultimately show ?thesis by simp
    qed
  qed
qed

text \<open>So the bus holds the slots of all pending calls, if it did before.\<close>

lemma started_held:
  assumes start: "started held cb c ps ch k a slot s t" and old: "queue_is c s ps" "bus_holds held s ps"
  shows "\<exists>p. queue_is c t (p # ps) \<and> bus_holds held t (p # ps)"
proof -
  obtain p r x where p: "queue_is c t (p # ps)" "pend t p = Some r" "payload r = (Some slot, ch, k)"
    "slots t = (slots s)(slot := Some x)" "held (ext t) = (held (ext s))(x := True)"
    and rest: "\<forall>y. y \<noteq> p \<longrightarrow> map_option payload (pend t y) = map_option payload (pend s y)"
    using start unfolding started_def by blast
  have "slot_of t y = slot_of s y" if y: "y \<in> set ps" for y
  proof -
    have "y \<noteq> p" using p(1) y by (auto simp: queue_is_def)
    moreover obtain z where "pend s y = Some z" using old(1) y chain_alive unfolding queue_is_def by blast
    moreover obtain z' where "pend t y = Some z'" "payload z' = payload z"
      using rest calculation by (metis (no_types, lifting) map_option_eq_Some option.simps(9))
    ultimately show ?thesis by (simp add: slot_of_def payload_def)
  qed
  then show ?thesis using p old(2) by (auto simp: bus_holds_def payload_def slot_of_def split: if_splits)
qed

end
