(* ===== verification/Bus_Claims.thy ===== *)
theory Bus_Claims
  imports Bus_Spec Start_Spec
begin

text \<open>
  The properties of connections over their whole life: \<open>src/bus.c\<close>, \<open>src/slot.c\<close> and the callbacks of
  \<open>src/call.c\<close> and \<open>src/async.c\<close> they cause. The examples use a connection at address 0 whose listeners
  are the fibers 3 and 4 and on which one call has been started.
\<close>

subsection \<open>Every run\<close>


definition close_env :: "bus_slots env" where
  "close_env = slot_env\<lparr>
     janet_stream_close := \<lambda>a w. Invoke (Listener (if a = 1 then 3 else 4) EvClose) w (\<lambda>_ w'. Done () w'),
     sd_flush_close_unref := \<lambda>p w. (case p of None \<Rightarrow> Done () w | Some _ \<Rightarrow> destroys [12] w)\<rparr>"

definition fresh_world :: "bus_slots world" where
  "fresh_world = (base_world ({}, Map.empty))\<lparr>
     conns := \<lambda>_. \<lparr>cbus = Some 1, cbus_stream = Some 1, ctimer = Some 2, cqueue = None\<rparr>,
     callbacks := \<lambda>f. if f = 4 then TimerCallback else BusCallback, next_id := 10\<rparr>"

definition one_started :: "bus_slots world" where
  "one_started = snd (run_op close_env 0 (StartCall (Some 7) 5 0) fresh_world)"

lemma close_env_simps:
  "sys_malloc close_env = sys_malloc slot_env" "sd_call_async close_env = sd_call_async slot_env"
  "sd_add_match_async close_env = sd_add_match_async slot_env"
  "sd_slot_set_floating close_env = sd_slot_set_floating slot_env" "sd_slot_set_destroy close_env = sd_slot_set_destroy slot_env"
  "sd_slot_unref close_env = sd_slot_unref slot_env" "janet_getcbytes close_env = janet_getcbytes slot_env"
  by (simp_all add: close_env_def)

lemma close_env_laws: "error_law close_env" "unref_law close_env holds_slot" "slot_laws close_env holds_slot snd"
  "\<not> janet_channel_closed close_env ch w"
proof -
  show "unref_law close_env holds_slot" "slot_laws close_env holds_slot snd"
    using slot_env_laws unfolding unref_law_def slot_laws_def close_env_simps by - assumption+
qed (simp_all add: error_law_def close_env_def slot_env_def base_env_def SD_BUS_MESSAGE_METHOD_ERROR_def)

lemma fresh_world_reachable: "reachable close_env holds_slot 0 fresh_world"
  unfolding reachable_def
  by (intro exI [of _ fresh_world] conjI rtranclp.rtrancl_refl) (simp add: fresh_connection_def fresh_world_def base_world_def)


lemma fresh_world_simps:
  "next_id fresh_world = 10" "pend fresh_world = Map.empty" "asyncs fresh_world = Map.empty" "fibers fresh_world f = 0"
  "trace fresh_world = []" "ext fresh_world = ({}, Map.empty)"
  "callbacks fresh_world f = (if f = 4 then TimerCallback else BusCallback)"
  "conns fresh_world c = \<lparr>cbus = Some 1, cbus_stream = Some 1, ctimer = Some 2, cqueue = None\<rparr>"
  by (simp_all add: fresh_world_def base_world_def)

lemma fresh_queue: "queue_is 0 fresh_world []"
  by (simp add: queue_is_def fresh_world_simps)

lemma one_started_state:
  "one_started = fresh_world\<lparr>slots := (slots fresh_world)(11 := Some 1), next_id := 13,
     asyncs := [12 \<mapsto> \<lparr>as_conn = 0, as_pending = 10\<rparr>], ext := ({1}, [1 \<mapsto> DestroyCall 12]),
     pend := [10 \<mapsto> \<lparr>pslot = Some 11, pchan = 5, pnext = None, pprev = None, pkind = Call\<rparr>],
     conns := (conns fresh_world)(0 := (conns fresh_world 0)\<lparr>cqueue := Some 10\<rparr>)\<rparr>"
  unfolding one_started_def
  by (simp add: start_call_def init_callback_run bnd_apply set_kind_def register_def nonnull_def close_env_simps
      slot_env_simps set_slot_def queue_pending_def fresh_world_simps Let_def)

lemma one_started_queue: "queue_is 0 one_started [10]" "asyncs one_started 12 = Some \<lparr>as_conn = 0, as_pending = 10\<rparr>"
  "pending_of one_started 12 = 10" "slots one_started 11 = Some 1" "fibers one_started f = 0" "trace one_started = []"
  "chan_of one_started 10 = 5" "conns one_started 0 = \<lparr>cbus = Some 1, cbus_stream = Some 1, ctimer = Some 2, cqueue = Some 10\<rparr>"
  "pend one_started 10 = Some \<lparr>pslot = Some 11, pchan = 5, pnext = None, pprev = None, pkind = Call\<rparr>"
  "callbacks one_started f = (if f = 4 then TimerCallback else BusCallback)"
  "ext one_started = ({1}, [1 \<mapsto> DestroyCall 12])" "bus_holds holds_slot one_started [10]"
  by (simp_all add: one_started_state queue_is_def pending_of_def fresh_world_simps chan_of_def bus_holds_def slot_of_def
      holds_slot_def)


subsection \<open>Starting\<close>

text \<open>C27: A match that starts is the newest pending one: Janet gets an object for its slot, a fresh callback
  state owns a fresh record with the channel, the bus holds the slot and will destroy this very
  callback state with it, and the bus still holds the slots of all pending calls if it did
  before. If sd-bus refuses, or memory runs out, the function panics with the error, the queue
  and the callback states are as before, and nobody is told.\<close>

theorem match_started:
  assumes "reachable e held c s" and "error_law e" and "slot_laws e held cb" and "queue_is c s ps"
    and "bus_holds held s ps" and "janet_getcbytes e (JString str) = Inr rule"
  shows "case cfun_match_async e [JAbstract AbsBus c, JString str, JAbstract AbsChannel ch] s of
      (Inr v, t) \<Rightarrow> (\<exists>a slot p. v = JAbstract AbsSlot slot \<and> started held cb c ps ch Match a slot s t
         \<and> queue_is c t (p # ps) \<and> bus_holds held t (p # ps))
    | (Inl err, t) \<Rightarrow> queue_is c t ps \<and> asyncs t = asyncs s \<and> trace t = trace s \<and>
        (err = OutOfMemory \<or> pend t = pend s \<and> (\<exists>rv < 0. err = Panicf ''failed to call sd_bus_add_match_async: %s'' [PInt (- rv)]))"
proof -
  let ?start = "start_call e ''sd_bus_add_match_async'' c ch Match (\<lambda>bus a. sd_add_match_async e bus rule a)"
  have inv: "call_inv c s" by (rule reachable_inv [OF assms(1,2) unref_lawI [OF assms(3)]])
  have run: "cfun_match_async e [JAbstract AbsBus c, JString str, JAbstract AbsChannel ch] s =
      bnd ?start (\<lambda>(_, slot). ret (JAbstract AbsSlot slot)) s"
    unfolding match_async_start using assms(6)
    by (simp add: bnd_apply janet_getabstract_def argument_def janet_getcstring_def)
  have out: "case ?start s of
      (Inr (a, slot), t) \<Rightarrow> started held cb c ps ch Match a slot s t
    | (Inl err, t) \<Rightarrow> queue_is c t ps \<and> asyncs t = asyncs s \<and> trace t = trace s \<and>
        (err = OutOfMemory \<or> pend t = pend s \<and> (\<exists>rv < 0. err = Panicf (''failed to call '' @ ''sd_bus_add_match_async'' @ '': %s'') [PInt (- rv)]))"
    by (rule start_call_run [OF inv assms(4,3)]) (rule match_slot [OF assms(3)])
  show ?thesis
  proof (cases "?start s")
    case (Pair r t)
    show ?thesis
    proof (cases r)
      case (Inl err)
      then show ?thesis using out Pair unfolding run by (simp add: bnd_apply)
    next
      case (Inr x)
      then show ?thesis
        using out Pair started_held [OF _ assms(4,5), of cb ch Match "fst x" "snd x" t] unfolding run
        by (cases x) (auto simp: bnd_apply)
    qed
  qed
qed

theorem match_started_witness:
  "\<exists>t p. cfun_match_async close_env [JAbstract AbsBus 0, JString ''type=signal'', JAbstract AbsChannel 9] fresh_world
      = (Inr (JAbstract AbsSlot 11), t) \<and> queue_is 0 t [p] \<and> bus_holds holds_slot t [p]"
proof -
  have bytes: "janet_getcbytes close_env (JString ''type=signal'') = Inr ''type=signal''"
    by (simp add: close_env_simps slot_env_def base_env_def cbytes_def NUL_def)
  have run: "fst (cfun_match_async close_env [JAbstract AbsBus 0, JString ''type=signal'', JAbstract AbsChannel 9] fresh_world)
      = Inr (JAbstract AbsSlot 11)"
    unfolding match_async_start
    by (simp add: start_call_def init_callback_run bnd_apply set_kind_def register_def nonnull_def close_env_simps(1-6) bytes
        slot_env_simps set_slot_def queue_pending_def fresh_world_simps Let_def janet_getabstract_def argument_def
        janet_getcstring_def)
  show ?thesis
    using match_started [OF fresh_world_reachable close_env_laws(1,3) fresh_queue _ bytes, of 9] run
    by (cases "cfun_match_async close_env [JAbstract AbsBus 0, JString ''type=signal'', JAbstract AbsChannel 9] fresh_world")
      (auto simp: bus_holds_def)
qed

subsection \<open>Closing\<close>



text \<open>C22: When sd-bus refuses a match, the installation handler reports the error, and the record stays in
  the queue, but the bus lets go of its floating slot. If the connection is then closed, the
  reference that \<open>closeall_pending\<close> drops is the last one: the destroy callback frees the
  record, whose slot the loop then clears in freed memory.\<close>

theorem refused_match_closing:
  assumes "slot_laws e held cb" and "queue_is c s (p # qs)" and "pend s p = Some q"
    and "asyncs s a = Some \<lparr>as_conn = c, as_pending = p\<rparr>" and "pslot q = Some i" and "slots s i = Some x"
    and "sd_is_method_error e msg (ext s) \<noteq> 0" and "sd_get_error e msg (ext s) = Some err"
    and "\<forall>v. \<not> janet_channel_closed e (pchan q) v"
    and "\<not> held w x" and "cb w x = Some (DestroyCall a)"
  shows "\<exists>t. signal_install_handler e a msg s = (Inr (0, None), t)
    \<and> trace t = trace s @ [Give (pchan q) (JTuple [JKeyword ''error'', JString (format_error err)])] \<and> queue_is c t (p # qs)
    \<and> fst (closeall_pending (Suc n) e c status text (t\<lparr>ext := w\<rparr>)) = Inl (UB UseAfterFree)"
proof -
  let ?t = "s\<lparr>trace := trace s @ [Give (pchan q) (JTuple [JKeyword ''error'', JString (format_error err)])]\<rparr>"
  have "signal_install_handler e a msg s = (Inr (0, None), ?t)"
    using assms(3,4,7-9) by (simp add: signal_install_handler_def bnd_apply get_error_def CHAN_PUSH_def)
  moreover have "fst (closeall_pending (Suc n) e c status text (?t\<lparr>ext := w\<rparr>)) = Inl (UB UseAfterFree)"
    using assms by (intro close_unheld [OF assms(1), where p = p and qs = qs and q = q and a = a and i = i and x = x]) simp_all
  ultimately show ?thesis using assms(2) by simp
qed

definition refuse_env :: "bus_slots env" where
  "refuse_env = slot_env\<lparr>sd_is_method_error := \<lambda>_ _. 1, sd_get_error := \<lambda>_ _. Some (''AccessDenied'', None)\<rparr>"

theorem refused_match_closing_witness:
  "\<exists>t. signal_install_handler refuse_env 12 (Some 3) one_started = (Inr (0, None), t)
    \<and> fst (closeall_pending 1 refuse_env 0 (JKeyword ''close'') JNil (t\<lparr>ext := ({}, [1 \<mapsto> DestroyCall 12])\<rparr>))
      = Inl (UB UseAfterFree)"
proof -
  have same: "sd_slot_unref refuse_env = sd_slot_unref slot_env" "sd_slot_set_floating refuse_env = sd_slot_set_floating slot_env"
    "sd_slot_set_destroy refuse_env = sd_slot_set_destroy slot_env" "sd_call_async refuse_env = sd_call_async slot_env"
    "sd_add_match_async refuse_env = sd_add_match_async slot_env" "sys_malloc refuse_env = sys_malloc slot_env"
    by (simp_all add: refuse_env_def)
  have "slot_laws refuse_env holds_slot snd"
    using slot_env_laws(2) unfolding slot_laws_def unref_law_def same .
  then show ?thesis
    using refused_match_closing [OF _ one_started_queue(1,9,2) _ one_started_queue(4),
        of refuse_env holds_slot snd "Some 3" "(''AccessDenied'', None)" "({}, [1 \<mapsto> DestroyCall 12])" 0 "JKeyword ''close''" JNil]
    by (auto simp: refuse_env_def slot_env_simps holds_slot_def)
qed

subsection \<open>Opening\<close>

text \<open>C19: Opening a bus makes a connection with the bus that sd-bus returned, a timer and a bus stream,
  each with a listener fiber that knows the connection and gets the events of its stream to the
  callback for it, and an empty queue; if sd-bus refuses, it
  panics with the name of the function and the error and leaves an empty connection, which the
  collector can finalize.\<close>

theorem bus_opened:
  fixes e :: "'w env"
  assumes f: "f (ext s) = ((rv, bus), w0)"
    and timer: "sys_timerfd_create e w0 = (tfd, w1)" "tfd \<noteq> - 1" and mem: "\<forall>w. fst (sys_malloc e w)"
    and fd: "\<forall>w. fst (sd_get_fd e bus w) = fd" "0 \<le> fd" and ev: "\<forall>w. fst (sd_get_events e bus w) = ev" "0 \<le> ev"
    and null: "\<forall>w. sd_flush_close_unref e None w = Done () w"
  shows "case OPEN_BUS_CORE e fn f s of
      (Inr v, t) \<Rightarrow> 0 \<le> rv \<and> (let c = next_id s in v = JAbstract AbsBus c \<and> queue_is c t []
        \<and> conns t c = \<lparr>cbus = bus, cbus_stream = Some (c + 3), ctimer = Some (c + 1), cqueue = None\<rparr>
        \<and> streams t (c + 1) = \<lparr>s_handle = tfd, s_flags = {StreamReadable}\<rparr>
        \<and> streams t (c + 3) = \<lparr>s_handle = fd, s_flags = poll_flags ev \<union> {StreamNotCloseable}\<rparr>
        \<and> fibers t (c + 2) = c \<and> fibers t (c + 4) = c
        \<and> callbacks t (c + 2) = TimerCallback \<and> callbacks t (c + 4) = BusCallback
        \<and> trace t = trace s @ [AsyncStart (c + 2) (c + 1), AsyncStart (c + 4) (c + 3)])
    | (Inl p, t) \<Rightarrow> rv < 0 \<and> p = Panicf ''failed to call %s: %s'' [PStr fn, PInt (- rv)]
        \<and> fst (dbus_bus_gc e (next_id s) t) = Inr 0"
proof (cases "rv < 0")
  case True
  show ?thesis
    using True null
    by (simp add: open_bus_refused [where f = f, OF f True refl] dbus_bus_gc_def flush_close_unref_def calls_back_def bnd_apply)
next
  case False
  then obtain t where "OPEN_BUS_CORE e fn f s = (Inr (JAbstract AbsBus (next_id s)), t)"
    "conns t (next_id s) = \<lparr>cbus = bus, cbus_stream = Some (next_id s + 3), ctimer = Some (next_id s + 1), cqueue = None\<rparr>"
    "streams t (next_id s + 1) = \<lparr>s_handle = tfd, s_flags = {StreamReadable}\<rparr>"
    "streams t (next_id s + 3) = \<lparr>s_handle = fd, s_flags = poll_flags ev \<union> {StreamNotCloseable}\<rparr>"
    "fibers t (next_id s + 2) = next_id s" "fibers t (next_id s + 4) = next_id s"
    "callbacks t (next_id s + 2) = TimerCallback" "callbacks t (next_id s + 4) = BusCallback"
    "trace t = trace s @ [AsyncStart (next_id s + 2) (next_id s + 1), AsyncStart (next_id s + 4) (next_id s + 3)]"
    using open_bus_run [where f = f and fn = fn, OF f _ timer mem fd ev refl] by auto
  then show ?thesis using False by (simp add: queue_is_def Let_def)
qed

theorem bus_opened_witness:
  "conns (snd (cfun_open_user_bus base_env [] (base_world ()))) 0
     = \<lparr>cbus = Some 1, cbus_stream = Some 3, ctimer = Some 1, cqueue = None\<rparr>"
proof -
  have env: "sd_open_user base_env w = ((0, Some 1), w)" "sys_timerfd_create base_env w = (4, w)" "fst (sys_malloc base_env w)"
    "fst (sd_get_fd base_env b w) = 3" "fst (sd_get_events base_env b w) = 1"
    "sd_flush_close_unref base_env p w = Done () w" for w :: unit and b p
    by (simp_all add: base_env_def)
  show ?thesis
    using bus_opened [where f = "sd_open_user base_env" and fn = "''sd_bus_open_user''" and e = base_env
        and s = "base_world ()" and rv = 0 and bus = "Some 1" and tfd = 4 and fd = 3 and ev = 1]
    by (cases "OPEN_BUS_CORE base_env ''sd_bus_open_user'' (sd_open_user base_env) (base_world ())")
      (auto simp: env cfun_open_user_bus_def bnd_apply Let_def base_world_def split: sum.splits)
qed

subsection \<open>Cancelling\<close>

text \<open>C20: Cancelling the slot of a pending call or match, whether or not the bus holds it too, releases
  it for good: the record leaves the queue, its memory and the callback state are freed, no event
  is sent, and neither cancelling the slot again nor its finalizer does anything more.\<close>

theorem slot_cancelled:
  fixes e :: "'w env"
  assumes "slot_laws e held cb" and "slots s slot = Some x" and "cb (ext s) x = Some (DestroyCall a)"
    and "tracks s c a ps" and "p = pending_of s a" and "p \<in> set ps"
  shows "\<exists>t. cfun_cancel_slot e [JAbstract AbsSlot slot] s = (Inr JNil, t) \<and> queue_is c t (remove1 p ps)
    \<and> pend t p = None \<and> asyncs t = (asyncs s)(a := None) \<and> slots t slot = None \<and> trace t = trace s
    \<and> (\<exists>w. cfun_cancel_slot e [JAbstract AbsSlot slot] t = (Inr JNil, t\<lparr>ext := w\<rparr>))
    \<and> (\<exists>w. dbus_slot_gc e slot t = (Inr 0, t\<lparr>ext := w\<rparr>))"
  by (rule cancel_slot_run [OF assms])

theorem slot_cancelled_witness:
  "\<exists>t. cfun_cancel_slot slot_env [JAbstract AbsSlot 11] one_started = (Inr JNil, t) \<and> queue_is 0 t [] \<and> pend t 10 = None"
proof -
  have tr: "tracks one_started 0 12 [10]" using one_started_queue by (auto simp: tracks_def)
  show ?thesis
    using slot_cancelled [OF slot_env_laws(2) one_started_queue(4) _ tr one_started_queue(3) [symmetric]]
    by (auto simp: one_started_queue)
qed

end
