(* ===== verification/Module.thy ===== *)
theory Module
  imports Message Call_Api Export Bus
begin








subsection \<open>What the documentation says of the arguments\<close>
























end
