(* ===== verification/Spec2Isabelle.thy ===== *)
theory Spec2Isabelle
  imports Append_Claims Message_Claims Call_Claims Async_Claims Export_Claims Bus_Claims
    Module
begin

text \<open>
  Verification of janet-sdbus, the C library under \<open>src/src/\<close> that gives Janet programs access to
  D-Bus through libsystemd's sd-bus.

  \<^bold>\<open>The program.\<close> A Janet program opens a connection (\<open>bus.c\<close>), which is put into Janet's event loop
  with two streams, one for the socket and one for a timer (\<open>async.c\<close>). It builds messages and reads
  them (\<open>message.c\<close>, with the argument conversions of \<open>unwrap.c\<close>), starts asynchronous calls and
  subscribes to matches (\<open>call.c\<close>), whose replies sd-bus hands to handlers that push them on
  channels, exports interfaces (\<open>export.c\<close>) whose methods are Janet functions, and cancels any of
  these through slots (\<open>slot.c\<close>). A connection keeps a doubly linked queue of the calls and matches
  that must be told when it ends; their memory belongs to the slots, and is freed by callbacks.

  \<^bold>\<open>The model.\<close> Every C function is a definition of the same name in a monad of state and failure
  (\<open>Sdbus_Prelude\<close>): \<open>('w, 'a) prog\<close> takes a \<open>'w world\<close> and returns a result or a \<open>panic\<close>, with the new
  world. The record \<open>world\<close> (\<open>World\<close>) holds the heap of the program as maps from addresses:
  \<open>AsyncPending\<close> records, callback and export states, connections, messages, slots, streams, scratch
  strings, the error context, the roots of the collector and a trace of what is asked of channels
  and of the event loop. A panic of Janet, the end of memory, undefined behaviour of C and a run
  longer than its fuel are different values of \<open>panic\<close>, so that safety is the absence of \<open>UB\<close>.
  Janet values are \<open>janet\<close> (\<open>Janet_Model\<close>). libsystemd, Linux and Janet's C API are parameters: the
  record \<open>env\<close> has one field per external function, a function on the unknown state \<open>'w\<close> of the
  outside; functions that call back into the program return an \<open>action\<close> that may \<open>Invoke\<close> callbacks.
  What is assumed of them are hypotheses of the theorems, and \<open>Base_Env\<close> has an instance. Slots of
  sd-bus are counted by reference: \<open>Slots\<close> says what the program relies on, with the slots that the bus
  holds (\<open>held\<close>) and their destroy callbacks (\<open>cb\<close>) as parameters, and has a bus that behaves so.

  \<^bold>\<open>Theories and sources.\<close>
  \<^item> \<open>Unwrap\<close>, \<open>Unwrap_Spec\<close>: \<open>unwrap.c\<close>, argument conversion and the error context.
  \<^item> \<open>Append\<close>: the first half of \<open>message.c\<close>, from \<open>match\<close> to \<open>append_basic_type\<close>. \<open>Signature\<close> specifies
    D-Bus types and the encoding of Janet values; \<open>Append_Spec\<close> shows that fitting arguments make
    the calls of their encoding, \<open>Append_Sound\<close> the converse, \<open>Append_Safety\<close> that nothing is
    undefined; \<open>Append_Claims\<close> has the properties.
  \<^item> \<open>Read\<close>, \<open>Message\<close>: the second half of \<open>message.c\<close>; \<open>Capi\<close> the argument accessors of Janet.
    \<open>Read_Spec\<close> specifies reading by items, \<open>Round_Trip\<close> joins it to appending, \<open>Message_Spec\<close> and
    \<open>Message_Claims\<close> cover the functions exported to Janet.
  \<^item> \<open>Pending\<close>: \<open>create_async_pending\<close>, \<open>queue_pending\<close> and \<open>dequeue_pending\<close> of \<open>async.c\<close>. \<open>chain\<close> is the
    linked list in the heap, the locale \<open>call_queue\<close> the contract of a queue of addresses, and its
    interpretation \<open>pending_queue\<close> shows that the records implement it.
  \<^item> \<open>Calls\<close>, \<open>Call_Api\<close>: \<open>call.c\<close>, the handlers and the functions exported to Janet; \<open>Call_Spec\<close> what they
    do to queue, channels and memory, \<open>Call_Claims\<close> the properties.
  \<^item> \<open>Async\<close>: the rest of \<open>async.c\<close>; the callback of a listener is a value of \<open>ev_callback\<close> that the fiber
    keeps, and \<open>run_listener\<close> (\<open>Bus\<close>) is the event loop's call of it. \<open>dispatches\<close> (\<open>Async_Spec\<close>) is the step relation of
    \<open>sd_bus_process\<close>; \<open>Async_Claims\<close> has processing, the timer and the end of a connection.
  \<^item> \<open>Export\<close>: \<open>export.c\<close>. \<open>Export_Spec\<close> specifies flags bit by bit and the table by \<open>vtable_for\<close>,
    \<open>Export_Life\<close> the handlers and the life of an export, \<open>Export_System\<close> exports and reentrant handlers
    in any order, \<open>Export_Claims\<close> has the properties.
  \<^item> \<open>Bus\<close>: \<open>bus.c\<close> and \<open>slot.c\<close>; \<open>Bus_Spec\<close> opening, closing and cancelling.
  \<^item> \<open>Lifecycle\<close>: the operations of \<open>call.c\<close> and \<open>async.c\<close> as a transition system (\<open>call_op\<close>, \<open>run_op\<close>,
    \<open>reachable\<close>) with the invariant \<open>call_inv\<close> and the situations in which an operation goes wrong
    (\<open>hazard\<close>); \<open>Start_Spec\<close> says what a started call leaves; \<open>Bus_Claims\<close> has the properties of whole
    connections.
  \<^item> \<open>Module\<close>: \<open>main.c\<close> and the registration tables; \<open>documented\<close> is computed from the usage strings of the
    functions.
  \<^item> Interfaces are locales: \<open>call_queue\<close> (\<open>Pending\<close>), \<open>invariant_system\<close> (\<open>Transition\<close>), interpreted on the
    calls of a connection and on exports, and \<open>handle\<close> (\<open>Handles\<close>), interpreted on messages and on slots.

  \<^bold>\<open>What is shown.\<close> Appending makes exactly the sd-bus calls of the encoding of its arguments, accepts
  nothing else, and reading gives the values back. The signature scanner stays in its string. The
  pending queue is a list; in every state that calls, replies, cancellations and closings reach, it
  is well linked and no operation is undefined, but for three hazards. The slot of a completed call
  is released while others are pending: \<open>cancel_completed_call_drops\<close> and \<open>cancel_completed_call_stale\<close>
  show what is lost. A call that has left the queue is answered again, which sd-bus does not do. All
  are told of the end while the bus does not hold the slot of one of them, as happens after it
  refused a match: \<open>refused_match_closing\<close>. Every pending call is told of the end of its connection
  exactly once, if the bus holds the slots and no channel was closed (\<open>closed_channel_stops_closing\<close>).
  Exported methods under keywords reach their function (\<open>exported_string_key\<close> for other members) with
  the roots of the collector balanced, and what living exports need stays a root in every
  interleaving.

  \<^bold>\<open>Fuel.\<close> Three loops have no bound in the program and take a fuel argument: reading a message (the
  nesting of containers; \<open>read_complete_type_correct\<close> shows that a bound linear in the item is
  enough), \<open>process_loop\<close> with \<open>process_bus\<close> and \<open>settimeout\<close> (messages waiting on the bus;
  \<open>process_bus_returns\<close> shows that their number plus two is enough) and \<open>close_records\<close> (the length of
  the queue, by \<open>connection_end_told\<close>). All other recursion is structural or has a measure.

  \<^bold>\<open>Not modelled.\<close> The prose of the doc strings; the Janet files; the order of garbage collection beyond
  the finalizers themselves, so that objects of Janet (connections, slots, channels) never become
  invalid while the program has their address; changes of an exported
  table by the program after the export (the dictionary is a value here); \<open>janet_async_end\<close>
  freeing the state of a listener; the text of error numbers (\<open>strerror\<close>), which is kept as the
  number.
\<close>

end
